(* ===== verification/HeaderCodec.thy ===== *)
theory HeaderCodec
  imports Prelude
begin

text \<open>
  The value encoding of \<open>Mcp-Param-*\<close> and \<open>Mcp-Name\<close> headers
  (shared/mcpParamHeaders.ts): a value is sent as it is when it is a safe field value, and
  as \<open>=?base64?...?=\<close> around the base64 of its UTF-8 bytes otherwise. Strings are lists of
  UTF-16 code units, as in JavaScript. \<open>TextEncoder\<close>, \<open>TextDecoder\<close>, \<open>btoa\<close> and \<open>atob\<close>
  are the standard library's and are written out from their WHATWG definitions.
\<close>

type_synonym ustr = "nat list"

definition units :: "string \<Rightarrow> ustr" where
  "units s = map code s"

definition latin1 :: "ustr \<Rightarrow> string" where
  "latin1 us = map char_of us"

subsection \<open>UTF-16 and UTF-8\<close>

definition is_high :: "nat \<Rightarrow> bool" where
  "is_high u \<longleftrightarrow> 55296 \<le> u \<and> u < 56320"

definition is_low :: "nat \<Rightarrow> bool" where
  "is_low u \<longleftrightarrow> 56320 \<le> u \<and> u < 57344"

text \<open>The scalar values of a string; a lone surrogate reads as U+FFFD.\<close>

fun scalars :: "ustr \<Rightarrow> nat list" where
  "scalars [] = []"
| "scalars [u] = [if is_high u \<or> is_low u then 65533 else u]"
| "scalars (u # l # us) =
     (if is_high u \<and> is_low l then (65536 + (u - 55296) * 1024 + (l - 56320)) # scalars us
      else (if is_high u \<or> is_low u then 65533 else u) # scalars (l # us))"

definition utf8_scalar :: "nat \<Rightarrow> nat list" where
  "utf8_scalar c =
     (if c < 128 then [c]
      else if c < 2048 then [192 + c div 64, 128 + c mod 64]
      else if c < 65536 then [224 + c div 4096, 128 + c div 64 mod 64, 128 + c mod 64]
      else [240 + c div 262144, 128 + c div 4096 mod 64, 128 + c div 64 mod 64, 128 + c mod 64])"

definition textEncoder :: "ustr \<Rightarrow> nat list" where
  "textEncoder s = concat (map utf8_scalar (scalars s))"

definition cont :: "nat \<Rightarrow> bool" where
  "cont b \<longleftrightarrow> 128 \<le> b \<and> b < 192"

text \<open>The fatal UTF-8 decoder: \<open>None\<close> on the first ill-formed sequence.\<close>

fun utf8_decode :: "nat list \<Rightarrow> nat list option" where
  "utf8_decode [] = Some []"
| "utf8_decode (a # bs) =
     (if a < 128 then map_option ((#) a) (utf8_decode bs)
      else if 194 \<le> a \<and> a < 224 then
        (case bs of
           b # bs' \<Rightarrow>
             if cont b then map_option ((#) ((a - 192) * 64 + (b - 128))) (utf8_decode bs') else None
         | _ \<Rightarrow> None)
      else if 224 \<le> a \<and> a < 240 then
        (case bs of
           b # c # bs' \<Rightarrow>
             if cont b \<and> cont c \<and> (a = 224 \<longrightarrow> 160 \<le> b) \<and> (a = 237 \<longrightarrow> b < 160)
             then map_option ((#) ((a - 224) * 4096 + (b - 128) * 64 + (c - 128))) (utf8_decode bs')
             else None
         | _ \<Rightarrow> None)
      else if 240 \<le> a \<and> a < 245 then
        (case bs of
           b # c # d # bs' \<Rightarrow>
             if cont b \<and> cont c \<and> cont d \<and> (a = 240 \<longrightarrow> 144 \<le> b) \<and> (a = 244 \<longrightarrow> b < 144)
             then map_option ((#) ((a - 240) * 262144 + (b - 128) * 4096 + (c - 128) * 64 + (d - 128)))
                    (utf8_decode bs')
             else None
         | _ \<Rightarrow> None)
      else None)"

definition utf16_scalar :: "nat \<Rightarrow> ustr" where
  "utf16_scalar c =
     (if c < 65536 then [c] else [55296 + (c - 65536) div 1024, 56320 + (c - 65536) mod 1024])"

text \<open>\<open>new TextDecoder('utf-8', { fatal: true }).decode\<close>: a leading byte order mark is removed.\<close>

definition strip_bom :: "nat list \<Rightarrow> nat list" where
  "strip_bom cs = (case cs of [] \<Rightarrow> [] | c # cs' \<Rightarrow> if c = 65279 then cs' else cs)"

definition textDecoder :: "nat list \<Rightarrow> ustr option" where
  "textDecoder bs = map_option (\<lambda>cs. concat (map utf16_scalar (strip_bom cs))) (utf8_decode bs)"

subsection \<open>Base64\<close>

definition b64_char :: "nat \<Rightarrow> nat" where
  "b64_char v =
     (if v < 26 then 65 + v else if v < 52 then 71 + v else if v < 62 then v - 4
      else if v = 62 then 43 else 47)"

definition b64_value :: "nat \<Rightarrow> nat" where
  "b64_value c =
     (if 65 \<le> c \<and> c \<le> 90 then c - 65 else if 97 \<le> c \<and> c \<le> 122 then c - 71
      else if 48 \<le> c \<and> c \<le> 57 then c + 4 else if c = 43 then 62 else 63)"

definition b64_alpha :: "nat \<Rightarrow> bool" where
  "b64_alpha c \<longleftrightarrow> 65 \<le> c \<and> c \<le> 90 \<or> 97 \<le> c \<and> c \<le> 122 \<or> 48 \<le> c \<and> c \<le> 57 \<or> c = 43 \<or> c = 47"

fun btoa :: "nat list \<Rightarrow> ustr" where
  "btoa [] = []"
| "btoa [a] = [b64_char (a div 4), b64_char (a mod 4 * 16), 61, 61]"
| "btoa [a, b] = [b64_char (a div 4), b64_char (a mod 4 * 16 + b div 16), b64_char (b mod 16 * 4), 61]"
| "btoa (a # b # c # bs) =
     b64_char (a div 4) # b64_char (a mod 4 * 16 + b div 16) # b64_char (b mod 16 * 4 + c div 64)
       # b64_char (c mod 64) # btoa bs"

text \<open>\<open>BASE64_CANONICAL\<close>: groups of four, the last one possibly padded.\<close>

fun base64_canonical :: "ustr \<Rightarrow> bool" where
  "base64_canonical [] = True"
| "base64_canonical [a, b, c, d] =
     (b64_alpha a \<and> b64_alpha b \<and>
      (b64_alpha c \<and> b64_alpha d \<or> c = 61 \<and> d = 61 \<or> b64_alpha c \<and> d = 61))"
| "base64_canonical (a # b # c # d # s) =
     (b64_alpha a \<and> b64_alpha b \<and> b64_alpha c \<and> b64_alpha d \<and> base64_canonical s)"
| "base64_canonical _ = False"

text \<open>\<open>atob\<close> on a string that passed the canonical test; surplus bits of the last group are dropped.\<close>

fun atob :: "ustr \<Rightarrow> nat list" where
  "atob (a # b # c # d # s) =
     (if c = 61 then [b64_value a * 4 + b64_value b div 16]
      else if d = 61 then
        [b64_value a * 4 + b64_value b div 16, b64_value b mod 16 * 16 + b64_value c div 4]
      else
        (b64_value a * 4 + b64_value b div 16) # (b64_value b mod 16 * 16 + b64_value c div 4)
          # (b64_value c mod 4 * 64 + b64_value d) # atob s)"
| "atob _ = []"

subsection \<open>The codec\<close>

definition ustarts :: "ustr \<Rightarrow> ustr \<Rightarrow> bool" where
  "ustarts s p \<longleftrightarrow> take (length p) s = p"

definition uends :: "ustr \<Rightarrow> ustr \<Rightarrow> bool" where
  "uends s p \<longleftrightarrow> length p \<le> length s \<and> drop (length s - length p) s = p"

definition BASE64_SENTINEL_PREFIX :: ustr where
  "BASE64_SENTINEL_PREFIX = units ''=?base64?''"

definition BASE64_SENTINEL_SUFFIX :: ustr where
  "BASE64_SENTINEL_SUFFIX = units ''?=''"

text \<open>What \<open>String.prototype.trim\<close> removes: white space and line terminators.\<close>

definition js_space :: "nat \<Rightarrow> bool" where
  "js_space u \<longleftrightarrow> 9 \<le> u \<and> u \<le> 13 \<or> u = 32 \<or> u = 160 \<or> u = 5760 \<or> 8192 \<le> u \<and> u \<le> 8202
     \<or> u = 8232 \<or> u = 8233 \<or> u = 8239 \<or> u = 8287 \<or> u = 12288 \<or> u = 65279"

definition utrim :: "ustr \<Rightarrow> ustr" where
  "utrim s = rev (dropWhile js_space (rev (dropWhile js_space s)))"

definition field_unit :: "nat \<Rightarrow> bool" where
  "field_unit c \<longleftrightarrow> c = 9 \<or> 32 \<le> c \<and> c \<le> 126"

definition has_sentinel :: "ustr \<Rightarrow> bool" where
  "has_sentinel s \<longleftrightarrow> ustarts s BASE64_SENTINEL_PREFIX \<and> uends s BASE64_SENTINEL_SUFFIX"

definition needsBase64 :: "ustr \<Rightarrow> bool" where
  "needsBase64 s \<longleftrightarrow>
     length s = 0 \<or> has_sentinel s \<or> s \<noteq> utrim s \<or> list_ex (\<lambda>c. \<not> field_unit c) s"

definition utf8ToBase64 :: "ustr \<Rightarrow> ustr" where
  "utf8ToBase64 s = btoa (textEncoder s)"

definition base64ToUtf8 :: "ustr \<Rightarrow> ustr option" where
  "base64ToUtf8 b64 = textDecoder (atob b64)"

definition encodeMcpParamValue :: "ustr \<Rightarrow> ustr" where
  "encodeMcpParamValue value =
     (if needsBase64 value then BASE64_SENTINEL_PREFIX @ utf8ToBase64 value @ BASE64_SENTINEL_SUFFIX
      else value)"

definition decodeMcpParamValue :: "ustr \<Rightarrow> ustr option" where
  "decodeMcpParamValue value =
     (if \<not> has_sentinel value then Some value
      else
        let b64 = take (length value - length BASE64_SENTINEL_SUFFIX - length BASE64_SENTINEL_PREFIX)
                    (drop (length BASE64_SENTINEL_PREFIX) value)
        in if \<not> base64_canonical b64 then None else base64ToUtf8 b64)"

subsection \<open>Round trip, layer by layer\<close>

text \<open>Strings without lone surrogates.\<close>

fun well_formed :: "ustr \<Rightarrow> bool" where
  "well_formed [] = True"
| "well_formed [u] = (u < 65536 \<and> \<not> is_high u \<and> \<not> is_low u)"
| "well_formed (u # l # us) =
     (if is_high u then is_low l \<and> well_formed us
      else u < 65536 \<and> \<not> is_low u \<and> well_formed (l # us))"

definition scalar :: "nat \<Rightarrow> bool" where
  "scalar c \<longleftrightarrow> c < 1114112 \<and> \<not> (55296 \<le> c \<and> c < 57344)"

lemma scalars_scalar: "well_formed s \<Longrightarrow> c \<in> set (scalars s) \<Longrightarrow> scalar c"
proof (induction s rule: well_formed.induct)
  case (3 u l us)
  then show ?case
    by (auto simp: scalar_def is_high_def is_low_def split: if_splits)
qed (auto simp: scalar_def is_high_def is_low_def)

lemma utf16_scalars: "well_formed s \<Longrightarrow> concat (map utf16_scalar (scalars s)) = s"
proof (induction s rule: well_formed.induct)
  case (3 u l us)
  show ?case
  proof (cases "is_high u")
    case True
    with 3 have l: "is_low l" and IH: "concat (map utf16_scalar (scalars us)) = us" by auto
    obtain i j where ij: "u = 55296 + i" "l = 56320 + j" "j < 1024"
      using True l by (auto simp: is_high_def is_low_def dest!: le_Suc_ex)
    then have "utf16_scalar (65536 + (u - 55296) * 1024 + (l - 56320)) = [u, l]"
      by (simp add: utf16_scalar_def)
    with True l IH show ?thesis by simp
  next
    case False
    with 3 show ?thesis by (auto simp: utf16_scalar_def)
  qed
qed (auto simp: utf16_scalar_def)

lemma utf8_decode_scalar:
  assumes "scalar c"
  shows "utf8_decode (utf8_scalar c @ bs) = map_option ((#) c) (utf8_decode bs)"
proof -
  consider "c < 128" | "128 \<le> c" "c < 2048" | "2048 \<le> c" "c < 65536" | "65536 \<le> c" by linarith
  then show ?thesis
  proof cases
    case 1
    then show ?thesis by (simp add: utf8_scalar_def)
  next
    case 2
    define q r where "q = c div 64" and "r = c mod 64"
    then have "2 \<le> q" "q < 32" "r < 64" "q * 64 + r = c" using 2 by auto
    moreover have "utf8_scalar c = [192 + q, 128 + r]"
      using 2 by (simp add: utf8_scalar_def q_def r_def)
    ultimately show ?thesis by (simp add: cont_def)
  next
    case 3
    define x s where "x = c div 64" and "s = c mod 64"
    define q r where "q = x div 64" and "r = x mod 64"
    have "x * 64 + s = c" "q * 64 + r = x" "r < 64" "s < 64"
      by (simp_all add: x_def q_def r_def s_def)
    then have qrs: "q * 4096 + r * 64 + s = c" "r < 64" "s < 64" by linarith+
    have "c div 4096 = q" by (simp add: q_def x_def div_mult2_eq [symmetric])
    then have "utf8_scalar c = [224 + q, 128 + r, 128 + s]"
      using 3 by (simp add: utf8_scalar_def r_def s_def x_def)
    moreover have "q < 16" "q = 0 \<longrightarrow> 32 \<le> r" using 3 qrs by linarith+
    moreover have "q = 13 \<longrightarrow> r < 32" using assms qrs unfolding scalar_def by linarith
    ultimately show ?thesis using qrs by (simp add: cont_def)
  next
    case 4
    define x t where "x = c div 64" and "t = c mod 64"
    define y s where "y = x div 64" and "s = x mod 64"
    define q r where "q = y div 64" and "r = y mod 64"
    have "x * 64 + t = c" "y * 64 + s = x" "q * 64 + r = y" "r < 64" "s < 64" "t < 64"
      by (simp_all add: x_def y_def q_def r_def s_def t_def)
    then have qrst: "q * 262144 + r * 4096 + s * 64 + t = c" "r < 64" "s < 64" "t < 64" by linarith+
    have "c div 262144 = q" "c div 4096 = y"
      by (simp_all add: q_def y_def x_def div_mult2_eq [symmetric])
    then have "utf8_scalar c = [240 + q, 128 + r, 128 + s, 128 + t]"
      using 4 by (simp add: utf8_scalar_def r_def s_def t_def x_def)
    moreover have "c < 1114112" using assms by (simp add: scalar_def)
    then have "q < 5" "q = 0 \<longrightarrow> 16 \<le> r" "q = 4 \<longrightarrow> r < 16" using 4 qrst by linarith+
    ultimately show ?thesis using qrst by (simp add: cont_def)
  qed
qed

lemma utf8_scalar_bytes: "c < 1114112 \<Longrightarrow> b \<in> set (utf8_scalar c) \<Longrightarrow> b < 256"
  by (auto simp: utf8_scalar_def less_mult_imp_div_less split: if_splits)

lemma utf8_decode_scalars:
  "(\<And>c. c \<in> set cs \<Longrightarrow> scalar c) \<Longrightarrow> utf8_decode (concat (map utf8_scalar cs)) = Some cs"
  by (induction cs) (simp_all add: utf8_decode_scalar)

lemma textDecoder_textEncoder:
  assumes "well_formed s" and "\<not> ustarts s [65279]"
  shows "textDecoder (textEncoder s) = Some s"
proof -
  have "strip_bom (scalars s) = scalars s"
    using assms by (induction s rule: well_formed.induct)
      (auto simp: strip_bom_def ustarts_def is_high_def is_low_def)
  with assms show ?thesis
    by (simp add: textDecoder_def textEncoder_def utf8_decode_scalars scalars_scalar utf16_scalars)
qed

lemma textEncoder_bytes: "well_formed s \<Longrightarrow> b \<in> set (textEncoder s) \<Longrightarrow> b < 256"
  using utf8_scalar_bytes scalars_scalar by (fastforce simp: textEncoder_def scalar_def)

lemma b64_char_alpha: "v < 64 \<Longrightarrow> b64_alpha (b64_char v) \<and> b64_value (b64_char v) = v"
  by (auto simp: b64_char_def b64_value_def b64_alpha_def)

lemma b64_char_noteq [simp]: "v < 64 \<Longrightarrow> b64_char v \<noteq> 61"
  by (auto simp: b64_char_def)

lemma b64_alpha_char [simp]: "v < 64 \<Longrightarrow> b64_alpha (b64_char v)"
  by (simp add: b64_char_alpha)

lemma b64_value_char [simp]: "v < 64 \<Longrightarrow> b64_value (b64_char v) = v"
  by (simp add: b64_char_alpha)

lemma b64_sextets:
  fixes a b c :: nat
  assumes "a < 256" "b < 256" "c < 256"
  shows "a div 4 < 64" "a mod 4 * 16 < 64" "a mod 4 * 16 + b div 16 < 64" "b mod 16 * 4 < 64"
    "b mod 16 * 4 + c div 64 < 64" "c mod 64 < 64"
    "a div 4 * 4 + a mod 4 * 16 div 16 = a"
    "a div 4 * 4 + (a mod 4 * 16 + b div 16) div 16 = a"
    "(a mod 4 * 16 + b div 16) mod 16 * 16 + b mod 16 * 4 div 4 = b"
    "(a mod 4 * 16 + b div 16) mod 16 * 16 + (b mod 16 * 4 + c div 64) div 4 = b"
    "(b mod 16 * 4 + c div 64) mod 4 * 64 + c mod 64 = c"
proof -
  define a1 a0 b1 b0 c1 c0
    where defs: "a1 = a div 4" "a0 = a mod 4" "b1 = b div 16" "b0 = b mod 16" "c1 = c div 64" "c0 = c mod 64"
  have bounds: "a1 < 64" "a0 < 4" "b1 < 16" "b0 < 16" "c1 < 4" "c0 < 64"
    using assms by (simp_all add: defs less_mult_imp_div_less)
  have sums: "a1 * 4 + a0 = a" "b1 * 16 + b0 = b" "c1 * 64 + c0 = c"
    by (simp_all add: defs)
  have parts: "(a0 * 16 + b1) div 16 = a0" "(a0 * 16 + b1) mod 16 = b1"
    "(b0 * 4 + c1) div 4 = b0" "(b0 * 4 + c1) mod 4 = c1" using bounds by simp_all
  show "a div 4 < 64" "a mod 4 * 16 < 64" "a mod 4 * 16 + b div 16 < 64" "b mod 16 * 4 < 64"
    "b mod 16 * 4 + c div 64 < 64" "c mod 64 < 64"
    using bounds unfolding defs [symmetric] by linarith+
  show "a div 4 * 4 + a mod 4 * 16 div 16 = a"
    "a div 4 * 4 + (a mod 4 * 16 + b div 16) div 16 = a"
    "(a mod 4 * 16 + b div 16) mod 16 * 16 + b mod 16 * 4 div 4 = b"
    "(a mod 4 * 16 + b div 16) mod 16 * 16 + (b mod 16 * 4 + c div 64) div 4 = b"
    "(b mod 16 * 4 + c div 64) mod 4 * 64 + c mod 64 = c"
    unfolding defs [symmetric] parts using sums by simp_all
qed

lemma base64_canonical_Cons4:
  "b64_alpha a \<Longrightarrow> b64_alpha b \<Longrightarrow> b64_alpha c \<Longrightarrow> b64_alpha d \<Longrightarrow>
     base64_canonical (a # b # c # d # s) = base64_canonical s"
  by (cases s) auto

lemma base64_canonical_btoa: "(\<And>b. b \<in> set bs \<Longrightarrow> b < 256) \<Longrightarrow> base64_canonical (btoa bs)"
proof (induction bs rule: btoa.induct)
  case (2 a)
  then show ?case using b64_sextets [of a 0 0] by simp
next
  case (3 a b)
  then show ?case using b64_sextets [of a b 0] by simp
next
  case (4 a b c bs)
  then show ?case using b64_sextets [of a b c] by (simp add: base64_canonical_Cons4 del: base64_canonical.simps(3))
qed simp

lemma atob_btoa: "(\<And>b. b \<in> set bs \<Longrightarrow> b < 256) \<Longrightarrow> atob (btoa bs) = bs"
proof (induction bs rule: btoa.induct)
  case (2 a)
  then show ?case using b64_sextets [of a 0 0] by simp
next
  case (3 a b)
  then have ab: "a < 256" "b < 256" by simp_all
  show ?case using b64_sextets [OF ab, of 0]
    by (simp only: btoa.simps atob.simps b64_char_noteq b64_value_char if_False if_True simp_thms zero_less_numeral)
next
  case (4 a b c bs)
  then have abc: "a < 256" "b < 256" "c < 256" and IH: "atob (btoa bs) = bs" by simp_all
  show ?case using b64_sextets [OF abc] by (simp only: btoa.simps atob.simps b64_char_noteq b64_value_char if_False IH)
qed simp

lemma base64_roundtrip:
  "well_formed s \<Longrightarrow> \<not> ustarts s [65279] \<Longrightarrow> base64ToUtf8 (utf8ToBase64 s) = Some s"
  by (simp add: base64ToUtf8_def utf8ToBase64_def atob_btoa textEncoder_bytes textDecoder_textEncoder)

lemmas sentinel_defs = BASE64_SENTINEL_PREFIX_def BASE64_SENTINEL_SUFFIX_def units_def code_def

lemma sentinel_wrapped: "has_sentinel (BASE64_SENTINEL_PREFIX @ s @ BASE64_SENTINEL_SUFFIX)"
  by (simp add: has_sentinel_def ustarts_def uends_def)

lemma decode_wrapped:
  "decodeMcpParamValue (BASE64_SENTINEL_PREFIX @ s @ BASE64_SENTINEL_SUFFIX)
     = (if base64_canonical s then base64ToUtf8 s else None)"
  using sentinel_wrapped [of s] by (simp add: decodeMcpParamValue_def)

lemma decode_encode:
  assumes "well_formed s" and "\<not> ustarts s [65279]"
  shows "decodeMcpParamValue (encodeMcpParamValue s) = Some s"
proof (cases "needsBase64 s")
  case True
  moreover have "base64_canonical (utf8ToBase64 s)"
    using assms(1) by (simp add: utf8ToBase64_def base64_canonical_btoa textEncoder_bytes)
  ultimately show ?thesis
    using assms by (simp add: encodeMcpParamValue_def decode_wrapped base64_roundtrip)
next
  case False
  then show ?thesis
    by (simp add: encodeMcpParamValue_def decodeMcpParamValue_def needsBase64_def)
qed

text \<open>
  C11: decoding an encoded value gives the value back, for every string without lone
  surrogates that does not begin with U+FEFF.
\<close>

theorem encode_decode_roundtrip:
  assumes "well_formed s" and "\<not> ustarts s [65279]"
  shows "decodeMcpParamValue (encodeMcpParamValue s) = Some s"
  using assms by (rule decode_encode)

theorem encode_decode_roundtrip_witness:
  "decodeMcpParamValue (encodeMcpParamValue [32, 233, 55357, 56832]) = Some [32, 233, 55357, 56832]"
  by (rule encode_decode_roundtrip) (simp_all add: is_high_def is_low_def ustarts_def)

text \<open>What a field value must be to travel unchanged through an HTTP field parser.\<close>

definition safe_field_value :: "ustr \<Rightarrow> bool" where
  "safe_field_value s \<longleftrightarrow> s \<noteq> [] \<and> list_all field_unit s \<and> utrim s = s"

lemma btoa_alpha: "(\<And>b. b \<in> set bs \<Longrightarrow> b < 256) \<Longrightarrow> c \<in> set (btoa bs) \<Longrightarrow> b64_alpha c \<or> c = 61"
proof (induction bs rule: btoa.induct)
  case (2 a)
  note sx = b64_sextets(1,2) [of a 0 0]
  from 2 sx show ?case by (simp only: btoa.simps list.set insert_iff empty_iff) (elim disjE; simp)
next
  case (3 a b)
  then have "a < 256" "b < 256" by simp_all
  note sx = b64_sextets(1,3,4) [OF this, of 0]
  from 3 sx show ?case by (simp only: btoa.simps list.set insert_iff empty_iff) (elim disjE; simp)
next
  case (4 a b c bs)
  then have "a < 256" "b < 256" "c < 256" by simp_all
  note sx = b64_sextets(1,3,5,6) [OF this]
  from 4 sx show ?case by (simp only: btoa.simps list.set insert_iff) (elim disjE; simp)
qed simp

lemma utrim_id: "s \<noteq> [] \<Longrightarrow> \<not> js_space (hd s) \<Longrightarrow> \<not> js_space (last s) \<Longrightarrow> utrim s = s"
  by (simp add: utrim_def dropWhile_eq_self_iff [THEN iffD2] hd_rev)

lemma encoded_safe:
  assumes "well_formed s"
  shows "safe_field_value (encodeMcpParamValue s)"
proof (cases "needsBase64 s")
  case True
  have "field_unit c" if "c \<in> set (utf8ToBase64 s)" for c
    using btoa_alpha [of "textEncoder s" c] that assms
    by (auto simp: utf8ToBase64_def field_unit_def b64_alpha_def textEncoder_bytes)
  moreover have "utrim (BASE64_SENTINEL_PREFIX @ utf8ToBase64 s @ BASE64_SENTINEL_SUFFIX)
      = BASE64_SENTINEL_PREFIX @ utf8ToBase64 s @ BASE64_SENTINEL_SUFFIX"
    by (rule utrim_id) (simp_all add: sentinel_defs js_space_def)
  ultimately show ?thesis using True
    by (simp add: safe_field_value_def encodeMcpParamValue_def list_all_iff)
      (simp add: sentinel_defs field_unit_def)
next
  case False
  then show ?thesis
    by (auto simp: safe_field_value_def encodeMcpParamValue_def needsBase64_def list_ex_iff list_all_iff)
qed

text \<open>
  every encoded value of a string without lone surrogates is a legal HTTP field value
  that survives field parsing: not empty, only visible ASCII, space and tab, and no white
  space at either end.
\<close>

theorem encoded_value_is_safe:
  assumes "well_formed s"
  shows "safe_field_value (encodeMcpParamValue s)"
  using assms by (rule encoded_safe)

theorem encoded_value_is_safe_witness: "safe_field_value (encodeMcpParamValue [32, 233])"
  by (rule encoded_value_is_safe) (simp add: is_high_def is_low_def)

text \<open>
  the byte order mark is lost. The decoder is not told to keep a leading U+FEFF, so a
  value that begins with one is sent in a header the receiving side decodes to a different
  value, and the header/body comparison then refuses a request that agrees with itself.
\<close>

theorem leading_bom_is_lost:
  "decodeMcpParamValue (encodeMcpParamValue [65279, 97]) = Some [97]"
proof -
  have "needsBase64 [65279, 97]" by (simp add: needsBase64_def field_unit_def)
  then have e: "encodeMcpParamValue [65279, 97]
      = BASE64_SENTINEL_PREFIX @ utf8ToBase64 [65279, 97] @ BASE64_SENTINEL_SUFFIX"
    by (simp add: encodeMcpParamValue_def)
  have "utf8ToBase64 [65279, 97] = btoa [239, 187, 191, 97]"
    by (simp add: utf8ToBase64_def textEncoder_def is_high_def is_low_def utf8_scalar_def)
  then show ?thesis
    unfolding e decode_wrapped by (simp add: base64_canonical_btoa base64ToUtf8_def atob_btoa textDecoder_def
        cont_def strip_bom_def utf16_scalar_def)
qed

lemma code_less: "code c < 256"
  by (simp add: code_def of_char_of [of "of_char c"])

lemma bytes_well_formed: "(\<And>x. x \<in> set us \<Longrightarrow> x < 256) \<Longrightarrow> well_formed us"
  by (induction us rule: well_formed.induct) (force simp: is_high_def is_low_def)+

lemma units_well_formed: "well_formed (units s)" "\<not> ustarts (units s) [65279]"
proof -
  show "well_formed (units s)"
    by (rule bytes_well_formed) (auto simp: units_def code_less)
  show "\<not> ustarts (units s) [65279]"
    using code_less [of "hd s"] by (cases s) (auto simp: units_def ustarts_def)
qed

lemma units_inject [simp]: "units s = units t \<longleftrightarrow> s = t"
  unfolding units_def code_def by (simp add: inj_map_eq_map inj_of_char)

lemma latin1_units [simp]: "latin1 (units s) = s"
  by (simp add: latin1_def units_def code_def o_def)

subsection \<open>The interface header comparison relies on\<close>

text \<open>
  What the client and the server agree on about field values: the provider turns a text it
  accepts into a field value and back. The clients are the \<open>Mcp-Param-*\<close> comparison
  (McpParamValues) and the \<open>Mcp-Name\<close> comparison (InboundClassification).
\<close>

locale field_codec =
  fixes encode :: "ustr \<Rightarrow> ustr" and decode :: "ustr \<Rightarrow> ustr option" and text_ok :: "ustr \<Rightarrow> bool"
  assumes decode_encoded: "text_ok s \<Longrightarrow> decode (encode s) = Some s"
begin

lemma encode_determines: "text_ok s \<Longrightarrow> text_ok t \<Longrightarrow> encode s = encode t \<Longrightarrow> s = t"
  by (metis decode_encoded option.inject)

lemma agreement_on_encoded: "text_ok s \<Longrightarrow> decode (encode s) = Some t \<longleftrightarrow> s = t"
  by (simp add: decode_encoded)

end

interpretation mcp_value: field_codec encodeMcpParamValue decodeMcpParamValue
    "\<lambda>s. well_formed s \<and> \<not> ustarts s [65279]"
  by unfold_locales (simp add: decode_encode)

text \<open>Texts of the argument values (code units below 256) are always accepted.\<close>

lemma text_agreement [simp]: "decodeMcpParamValue (encodeMcpParamValue (units s)) = Some (units s)"
  by (simp add: mcp_value.decode_encoded units_well_formed)

end
