(* ===== verification/Js.thy ===== *)
theory Js
  imports Prelude
begin

text \<open>
  JavaScript values as the SDK handles them: everything a JSON text can parse to, plus
  \<open>undefined\<close>. Objects are association lists in enumeration order. The operations are
  those the sources use on them: property read, the \<open>in\<close> operator, the spread with an
  overriding property, \<open>delete\<close>, \<open>Object.keys\<close>.

  Numbers: an integer-valued number is \<open>NInt\<close>; a finite number that is not an integer is
  \<open>NFrac\<close> with its canonical text, which determines it; the other three are the
  infinities and NaN. Properties inherited from \<open>Object.prototype\<close> are not represented:
  the sources guard the lookups where they could matter with \<open>Object.hasOwn\<close>.
\<close>

datatype jnum = NInt int | NFrac string | NPosInf | NNegInf | NNaN

datatype js =
    JUndef
  | JNull
  | JBool bool
  | JNum jnum
  | JStr string
  | JArr "js list"
  | JObj "(string \<times> js) list"

type_synonym obj = "(string \<times> js) list"

subsection \<open>Objects\<close>

fun oget :: "obj \<Rightarrow> string \<Rightarrow> js" where
  "oget [] k = JUndef"
| "oget ((k', v) # o') k = (if k' = k then v else oget o' k)"

fun ohas :: "obj \<Rightarrow> string \<Rightarrow> bool" where
  "ohas [] k = False"
| "ohas ((k', v) # o') k = (k' = k \<or> ohas o' k)"

text \<open>\<open>{ ...o, [k]: v }\<close> (and the assignment \<open>o[k] = v\<close>).\<close>

fun oset :: "obj \<Rightarrow> string \<Rightarrow> js \<Rightarrow> obj" where
  "oset [] k v = [(k, v)]"
| "oset ((k', v') # o') k v = (if k' = k then (k', v) # o' else (k', v') # oset o' k v)"

definition odel :: "obj \<Rightarrow> string \<Rightarrow> obj" where
  "odel o' k = filter (\<lambda>p. fst p \<noteq> k) o'"

definition okeys :: "obj \<Rightarrow> string list" where
  "okeys o' = map fst o'"

text \<open>\<open>{ ...a, ...b }\<close>.\<close>

definition ospread :: "obj \<Rightarrow> obj \<Rightarrow> obj" where
  "ospread a b = fold (\<lambda>(k, v) acc. oset acc k v) b a"

text \<open>\<open>{ ...o, ...(c && { [k]: v }) }\<close>.\<close>

definition oset_if :: "bool \<Rightarrow> obj \<Rightarrow> string \<Rightarrow> js \<Rightarrow> obj" where
  "oset_if c o' k v = (if c then oset o' k v else o')"

definition owf :: "obj \<Rightarrow> bool" where
  "owf o' \<longleftrightarrow> distinct (okeys o')"

fun isPlainObject :: "js \<Rightarrow> bool" where
  "isPlainObject (JObj _) = True"
| "isPlainObject _ = False"

fun isArray :: "js \<Rightarrow> bool" where
  "isArray (JArr _) = True"
| "isArray _ = False"

fun isStr :: "js \<Rightarrow> bool" where
  "isStr (JStr _) = True"
| "isStr _ = False"

text \<open>\<open>v?.[k]\<close> on a value that is an object or not.\<close>

fun getp :: "js \<Rightarrow> string \<Rightarrow> js" where
  "getp (JObj o') k = oget o' k"
| "getp _ k = JUndef"

fun str_of :: "js \<Rightarrow> string option" where
  "str_of (JStr s) = Some s"
| "str_of _ = None"

fun obj_of :: "js \<Rightarrow> obj option" where
  "obj_of (JObj o') = Some o'"
| "obj_of _ = None"

definition MAX_SAFE_INTEGER :: int where
  "MAX_SAFE_INTEGER = 9007199254740991"

text \<open>\<open>Number.isSafeInteger\<close>.\<close>

fun isSafeInteger :: "js \<Rightarrow> bool" where
  "isSafeInteger (JNum (NInt n)) = (- MAX_SAFE_INTEGER \<le> n \<and> n \<le> MAX_SAFE_INTEGER)"
| "isSafeInteger _ = False"

subsection \<open>The property laws\<close>

lemma oget_oset [obj_simps, simp]: "oget (oset o' k v) k' = (if k = k' then v else oget o' k')"
  by (induction o' k v rule: oset.induct) auto

lemma ohas_oset [obj_simps, simp]: "ohas (oset o' k v) k' \<longleftrightarrow> k = k' \<or> ohas o' k'"
  by (induction o' k v rule: oset.induct) auto

lemma oget_odel [obj_simps, simp]: "oget (odel o' k) k' = (if k = k' then JUndef else oget o' k')"
  by (induction o') (auto simp: odel_def)

lemma ohas_odel [obj_simps, simp]: "ohas (odel o' k) k' \<longleftrightarrow> k \<noteq> k' \<and> ohas o' k'"
  by (induction o') (auto simp: odel_def)

lemma ohas_okeys: "ohas o' k \<longleftrightarrow> k \<in> set (okeys o')"
  by (induction o') (auto simp: okeys_def)

lemma oget_absent: "\<not> ohas o' k \<Longrightarrow> oget o' k = JUndef"
  by (induction o') auto

lemma ohas_of_oget: "oget o' k \<noteq> JUndef \<Longrightarrow> ohas o' k"
  using oget_absent by blast

lemma oget_mem: "ohas o' k \<Longrightarrow> (k, oget o' k) \<in> set o'"
  by (induction o') (auto split: if_splits)

lemma ohas_append [simp]: "ohas (a @ b) k \<longleftrightarrow> ohas a k \<or> ohas b k"
  by (induction a) auto

lemma okeys_odel [obj_simps]: "okeys (odel o' k) = filter (\<lambda>x. x \<noteq> k) (okeys o')"
  by (induction o') (auto simp: odel_def okeys_def)

lemma okeys_oset: "okeys (oset o' k v) = (if ohas o' k then okeys o' else okeys o' @ [k])"
  by (induction o' k v rule: oset.induct) (auto simp: okeys_def)

lemma owf_oset [simp]: "owf o' \<Longrightarrow> owf (oset o' k v)"
  by (simp add: owf_def okeys_oset ohas_okeys)

lemma owf_odel [simp]: "owf o' \<Longrightarrow> owf (odel o' k)"
  by (simp add: owf_def okeys_odel)

lemma oget_Cons_wf: "owf ((k, v) # o') \<Longrightarrow> \<not> ohas o' k \<and> owf o'"
  by (simp add: owf_def ohas_okeys okeys_def)

lemma oget_ospread:
  "oget (ospread a b) k = (if ohas b k then oget (rev b) k else oget a k)"
proof (induction b arbitrary: a rule: rev_induct)
  case (snoc p b)
  show ?case
    using snoc by (cases p) (auto simp: ospread_def)
qed (simp add: ospread_def)

lemma oget_rev: "owf b \<Longrightarrow> oget (rev b) k = oget b k"
proof (cases "ohas b k")
  case True
  assume wf: "owf b"
  have d: "distinct (map fst xs) \<Longrightarrow> (k, v) \<in> set xs \<Longrightarrow> oget xs k = v" for xs :: obj and v
    by (induction xs) (auto simp: rev_image_eqI)
  from True have "(k, oget b k) \<in> set (rev b)" by (simp add: oget_mem)
  with wf show ?thesis
    by (metis d distinct_rev okeys_def owf_def rev_map)
next
  case False
  then have "\<not> ohas (rev b) k" by (simp add: ohas_okeys okeys_def)
  with False show ?thesis by (simp add: oget_absent)
qed

lemma oget_ospread_wf [obj_simps]:
  "owf b \<Longrightarrow> oget (ospread a b) k = (if ohas b k then oget b k else oget a k)"
  by (simp add: oget_ospread oget_rev)

lemma ohas_ospread [obj_simps, simp]: "ohas (ospread a b) k \<longleftrightarrow> ohas a k \<or> ohas b k"
  by (induction b arbitrary: a) (auto simp: ospread_def split: prod.splits)

lemma owf_ospread [simp]: "owf a \<Longrightarrow> owf (ospread a b)"
  by (induction b arbitrary: a) (auto simp: ospread_def split: prod.splits)

lemma ospread_Nil [simp]: "ospread a [] = a"
  by (simp add: ospread_def)

lemma isPlainObject_iff: "isPlainObject v \<longleftrightarrow> (\<exists>o'. v = JObj o')"
  by (cases v) auto

lemma obj_of_Some [simp]: "obj_of v = Some o' \<longleftrightarrow> v = JObj o'"
  by (cases v) auto

lemma str_of_Some [simp]: "str_of v = Some s \<longleftrightarrow> v = JStr s"
  by (cases v) auto

lemma obj_of_None [simp]: "obj_of v = None \<longleftrightarrow> \<not> isPlainObject v"
  by (cases v) auto

lemma odel_absent: "\<not> ohas o' k \<Longrightarrow> odel o' k = o'"
  by (induction o') (auto simp: odel_def)

end
