(* ===== verification/Errors.thy ===== *)
theory Errors
  imports Js
begin

text \<open>
  The SDK's error classes (packages/core-internal/src/errors/sdkErrors.ts and
  types/errors.ts) as values: what the sources throw or reject with is a value of \<open>err\<close>
  here, and a function that can throw returns \<open>err + 'a\<close>.
\<close>

datatype sdk_error_code =
    NotConnected | AlreadyConnected | NotInitialized
  | CapabilityNotSupported
  | RequestTimeout | ConnectionClosed | SendFailed | InvalidResult
  | UnsupportedResultType | InputRequiredRoundsExceeded | ListPaginationExceeded
  | MethodNotSupportedByProtocolVersion | EraNegotiationFailed
  | ClientHttpNotImplemented | ClientHttpAuthentication | ClientHttpForbidden
  | ClientHttpUnexpectedContent | ClientHttpFailedToOpenStream | ClientHttpFailedToTerminateSession

datatype protocol_error_code =
    ParseError | InvalidRequest | MethodNotFound | InvalidParams | InternalError
  | ResourceNotFound | MissingRequiredClientCapability | UnsupportedProtocolVersion
  | UrlElicitationRequired

fun pcode :: "protocol_error_code \<Rightarrow> int" where
  "pcode ParseError = -32700"
| "pcode InvalidRequest = -32600"
| "pcode MethodNotFound = -32601"
| "pcode InvalidParams = -32602"
| "pcode InternalError = -32603"
| "pcode ResourceNotFound = -32002"
| "pcode MissingRequiredClientCapability = -32021"
| "pcode UnsupportedProtocolVersion = -32022"
| "pcode UrlElicitationRequired = -32042"

text \<open>The class a ProtocolError was built as.\<close>

datatype protocol_error_class =
    PlainProtocolError
  | ResourceNotFoundErr
  | UrlElicitationRequiredErr
  | UnsupportedProtocolVersionErr
  | MissingRequiredClientCapabilityErr

record protocol_error =
  pe_class :: protocol_error_class
  pe_code :: int
  pe_message :: string
  pe_data :: js

datatype err =
    SdkError sdk_error_code string js
  | ProtocolErr protocol_error
  | PlainErr string
  | TypeErr string
  | RangeErr string
  | SyntaxErr string

abbreviation protocolError :: "int \<Rightarrow> string \<Rightarrow> js \<Rightarrow> protocol_error" where
  "protocolError c m d \<equiv> \<lparr>pe_class = PlainProtocolError, pe_code = c, pe_message = m, pe_data = d\<rparr>"

text \<open>A value's truthiness (\<open>code === ... && data\<close>).\<close>

fun truthy :: "js \<Rightarrow> bool" where
  "truthy JUndef = False"
| "truthy JNull = False"
| "truthy (JBool b) = b"
| "truthy (JNum n) = (n \<noteq> NInt 0 \<and> n \<noteq> NNaN)"
| "truthy (JStr s) = (s \<noteq> [])"
| "truthy (JArr _) = True"
| "truthy (JObj _) = True"

definition resourceNotFoundError :: "string \<Rightarrow> string \<Rightarrow> protocol_error" where
  "resourceNotFoundError uri message =
     \<lparr>pe_class = ResourceNotFoundErr, pe_code = pcode InvalidParams, pe_message = message,
      pe_data = JObj [(''uri'', JStr uri)]\<rparr>"

definition urlElicitationRequiredError :: "js \<Rightarrow> string \<Rightarrow> protocol_error" where
  "urlElicitationRequiredError elicitations message =
     \<lparr>pe_class = UrlElicitationRequiredErr, pe_code = pcode UrlElicitationRequired, pe_message = message,
      pe_data = JObj [(''elicitations'', elicitations)]\<rparr>"

definition unsupportedProtocolVersionError :: "js \<Rightarrow> string \<Rightarrow> string \<Rightarrow> protocol_error" where
  "unsupportedProtocolVersionError supported requested message =
     \<lparr>pe_class = UnsupportedProtocolVersionErr, pe_code = pcode UnsupportedProtocolVersion, pe_message = message,
      pe_data = JObj [(''supported'', supported), (''requested'', JStr requested)]\<rparr>"

definition missingRequiredClientCapabilityError :: "obj \<Rightarrow> string \<Rightarrow> protocol_error" where
  "missingRequiredClientCapabilityError requiredCapabilities message =
     \<lparr>pe_class = MissingRequiredClientCapabilityErr, pe_code = pcode MissingRequiredClientCapability,
      pe_message = message, pe_data = JObj [(''requiredCapabilities'', JObj requiredCapabilities)]\<rparr>"

text \<open>The default message of \<open>UnsupportedProtocolVersionError\<close>.\<close>

definition unsupportedVersionMessage :: "string \<Rightarrow> string" where
  "unsupportedVersionMessage requested = ''Unsupported protocol version: '' @ requested"

definition missingCapabilityMessage :: "obj \<Rightarrow> string" where
  "missingCapabilityMessage required = ''Missing required client capabilities: '' @ join '', '' (okeys required)"

text \<open>
  \<open>ProtocolError.fromError\<close>: the class to rebuild from a JSON-RPC error response. Each of
  the code's four \<open>if\<close> statements returns an error or falls through to the next.
\<close>

definition urlElicitationOf :: "int \<Rightarrow> string \<Rightarrow> js \<Rightarrow> protocol_error option" where
  "urlElicitationOf c message data =
     (if c = pcode UrlElicitationRequired \<and> truthy data \<and> truthy (getp data ''elicitations'')
      then Some (urlElicitationRequiredError (getp data ''elicitations'') message) else None)"

definition unsupportedVersionOf :: "int \<Rightarrow> string \<Rightarrow> js \<Rightarrow> protocol_error option" where
  "unsupportedVersionOf c message data =
     (case getp data ''requested'' of
        JStr requested \<Rightarrow>
          if c = pcode UnsupportedProtocolVersion \<and> truthy data \<and> isArray (getp data ''supported'')
          then Some (unsupportedProtocolVersionError (getp data ''supported'') requested message) else None
      | _ \<Rightarrow> None)"

definition resourceNotFoundOf :: "int \<Rightarrow> string \<Rightarrow> js \<Rightarrow> protocol_error option" where
  "resourceNotFoundOf c message data =
     (case getp data ''uri'' of
        JStr uri \<Rightarrow>
          if c = pcode ResourceNotFound
             \<or> c = pcode InvalidParams \<and> (case data of JObj o' \<Rightarrow> length (okeys o') = 1 | _ \<Rightarrow> False)
          then Some (resourceNotFoundError uri message) else None
      | _ \<Rightarrow> None)"

definition missingCapabilityOf :: "int \<Rightarrow> string \<Rightarrow> js \<Rightarrow> protocol_error option" where
  "missingCapabilityOf c message data =
     (case getp data ''requiredCapabilities'' of
        JObj required \<Rightarrow>
          if c = pcode MissingRequiredClientCapability \<and> truthy data
          then Some (missingRequiredClientCapabilityError required message) else None
      | _ \<Rightarrow> None)"

definition fromError :: "int \<Rightarrow> string \<Rightarrow> js \<Rightarrow> protocol_error" where
  "fromError c message data =
     (case urlElicitationOf c message data of Some e \<Rightarrow> e | None \<Rightarrow>
      case unsupportedVersionOf c message data of Some e \<Rightarrow> e | None \<Rightarrow>
      case resourceNotFoundOf c message data of Some e \<Rightarrow> e | None \<Rightarrow>
      case missingCapabilityOf c message data of Some e \<Rightarrow> e | None \<Rightarrow>
      protocolError c message data)"

lemmas error_builders = resourceNotFoundError_def urlElicitationRequiredError_def
  unsupportedProtocolVersionError_def missingRequiredClientCapabilityError_def

lemmas error_tests = urlElicitationOf_def unsupportedVersionOf_def resourceNotFoundOf_def
  missingCapabilityOf_def

lemma urlElicitationOf_Some:
  "urlElicitationOf c m d = Some e \<Longrightarrow> \<exists>x. truthy x \<and> e = urlElicitationRequiredError x m"
  by (auto simp: urlElicitationOf_def split: if_splits)

lemma unsupportedVersionOf_Some:
  "unsupportedVersionOf c m d = Some e \<Longrightarrow> \<exists>s r. isArray s \<and> e = unsupportedProtocolVersionError s r m"
  by (auto simp: unsupportedVersionOf_def split: if_splits js.splits)

lemma resourceNotFoundOf_Some: "resourceNotFoundOf c m d = Some e \<Longrightarrow> \<exists>u. e = resourceNotFoundError u m"
  unfolding resourceNotFoundOf_def by (cases "getp d ''uri''") (auto split: if_splits)

lemma missingCapabilityOf_Some:
  "missingCapabilityOf c m d = Some e \<Longrightarrow> \<exists>q. e = missingRequiredClientCapabilityError q m"
  by (auto simp: missingCapabilityOf_def split: if_splits js.splits)

lemma fromError_shape:
  "(\<exists>x. truthy x \<and> fromError c m d = urlElicitationRequiredError x m)
   \<or> (\<exists>s r. isArray s \<and> fromError c m d = unsupportedProtocolVersionError s r m)
   \<or> (\<exists>u. fromError c m d = resourceNotFoundError u m)
   \<or> (\<exists>q. fromError c m d = missingRequiredClientCapabilityError q m)
   \<or> fromError c m d = protocolError c m d"
  unfolding fromError_def
  by (auto split: option.split dest!: urlElicitationOf_Some unsupportedVersionOf_Some
      resourceNotFoundOf_Some missingCapabilityOf_Some)

lemma fromError_rebuild:
  "truthy x \<Longrightarrow> fromError (pcode UrlElicitationRequired) m (JObj [(''elicitations'', x)])
     = urlElicitationRequiredError x m"
  "isArray s \<Longrightarrow> fromError (pcode UnsupportedProtocolVersion) m (JObj [(''supported'', s), (''requested'', JStr r)])
     = unsupportedProtocolVersionError s r m"
  "fromError (pcode InvalidParams) m (JObj [(''uri'', JStr u)]) = resourceNotFoundError u m"
  "fromError (pcode MissingRequiredClientCapability) m (JObj [(''requiredCapabilities'', JObj q)])
     = missingRequiredClientCapabilityError q m"
  by (simp_all add: fromError_def error_tests okeys_def)

text \<open>
  rebuilding an error from its own wire triple is the identity on everything
  \<open>fromError\<close> can produce, so an error relayed through any number of SDK hops keeps its
  class, code, message and data after the first.
\<close>

theorem fromError_idempotent:
  "fromError (pe_code (fromError c m d)) (pe_message (fromError c m d)) (pe_data (fromError c m d))
     = fromError c m d"
  using fromError_shape [of c m d]
proof (elim disjE exE conjE)
  assume "fromError c m d = protocolError c m d"
  then show ?thesis by simp
qed (simp_all only: error_builders protocol_error.simps fromError_rebuild)

end
