(* ===== verification/Eras.thy ===== *)
theory Eras
  imports Errors
begin

text \<open>
  Protocol revisions, the two wire eras and the method registries of each era
  (shared/protocolEras.ts, wire/codec.ts, wire/rev2025-11-25/registry.ts,
  wire/rev2026-07-28/registry.ts, core/src/constants.ts).
\<close>

datatype protocol_era = Legacy | Modern

datatype wire_era = Rev2025 | Rev2026

definition wireEraName :: "wire_era \<Rightarrow> string" where
  "wireEraName e = (case e of Rev2025 \<Rightarrow> ''2025-11-25'' | Rev2026 \<Rightarrow> ''2026-07-28'')"

definition LATEST_PROTOCOL_VERSION :: string where
  "LATEST_PROTOCOL_VERSION = ''2025-11-25''"

definition SUPPORTED_PROTOCOL_VERSIONS :: "string list" where
  "SUPPORTED_PROTOCOL_VERSIONS =
     [LATEST_PROTOCOL_VERSION, ''2025-06-18'', ''2025-03-26'', ''2024-11-05'', ''2024-10-07'']"

definition FIRST_MODERN_PROTOCOL_VERSION :: string where
  "FIRST_MODERN_PROTOCOL_VERSION = ''2026-07-28''"

definition SUPPORTED_MODERN_PROTOCOL_VERSIONS :: "string list" where
  "SUPPORTED_MODERN_PROTOCOL_VERSIONS = [FIRST_MODERN_PROTOCOL_VERSION]"

definition PROTOCOL_VERSION_META_KEY :: string where
  "PROTOCOL_VERSION_META_KEY = ''io.modelcontextprotocol/protocolVersion''"

definition CLIENT_INFO_META_KEY :: string where
  "CLIENT_INFO_META_KEY = ''io.modelcontextprotocol/clientInfo''"

definition SERVER_INFO_META_KEY :: string where
  "SERVER_INFO_META_KEY = ''io.modelcontextprotocol/serverInfo''"

definition CLIENT_CAPABILITIES_META_KEY :: string where
  "CLIENT_CAPABILITIES_META_KEY = ''io.modelcontextprotocol/clientCapabilities''"

definition LOG_LEVEL_META_KEY :: string where
  "LOG_LEVEL_META_KEY = ''io.modelcontextprotocol/logLevel''"

lemmas meta_key_defs = PROTOCOL_VERSION_META_KEY_def CLIENT_INFO_META_KEY_def SERVER_INFO_META_KEY_def
  CLIENT_CAPABILITIES_META_KEY_def LOG_LEVEL_META_KEY_def

text \<open>Revisions are ISO dates, so the lexicographic order on strings is chronological.\<close>

definition isModernProtocolVersion :: "string \<Rightarrow> bool" where
  "isModernProtocolVersion version \<longleftrightarrow> FIRST_MODERN_PROTOCOL_VERSION \<le> version"

definition legacyProtocolVersions :: "string list \<Rightarrow> string list" where
  "legacyProtocolVersions versions = filter (\<lambda>version. \<not> isModernProtocolVersion version) versions"

definition modernProtocolVersions :: "string list \<Rightarrow> string list" where
  "modernProtocolVersions versions = filter isModernProtocolVersion versions"

text \<open>\<open>codecForVersion(version).era\<close>: \<open>None\<close> is an unset version.\<close>

definition codecForVersion :: "string option \<Rightarrow> wire_era" where
  "codecForVersion version =
     (case version of None \<Rightarrow> Rev2025 | Some v \<Rightarrow> if isModernProtocolVersion v then Rev2026 else Rev2025)"

record message_classification =
  mc_era :: protocol_era
  mc_revision :: "string option"

definition classifiedWireEra :: "message_classification \<Rightarrow> wire_era" where
  "classifiedWireEra c =
     (case mc_revision c of
        Some r \<Rightarrow> codecForVersion (Some r)
      | None \<Rightarrow> if mc_era c = Modern then Rev2026 else Rev2025)"

subsection \<open>Method registries\<close>

definition requestMethodKeys2025 :: "string list" where
  "requestMethodKeys2025 =
     [''ping'', ''initialize'', ''completion/complete'', ''logging/setLevel'', ''prompts/get'',
      ''prompts/list'', ''resources/list'', ''resources/templates/list'', ''resources/read'',
      ''resources/subscribe'', ''resources/unsubscribe'', ''tools/call'', ''tools/list'', ''tasks/get'',
      ''tasks/result'', ''tasks/list'', ''tasks/cancel'', ''sampling/createMessage'',
      ''elicitation/create'', ''roots/list'']"

definition notificationMethodKeys2025 :: "string list" where
  "notificationMethodKeys2025 =
     [''notifications/cancelled'', ''notifications/progress'', ''notifications/initialized'',
      ''notifications/roots/list_changed'', ''notifications/tasks/status'', ''notifications/message'',
      ''notifications/resources/updated'', ''notifications/resources/list_changed'',
      ''notifications/tools/list_changed'', ''notifications/prompts/list_changed'',
      ''notifications/elicitation/complete'']"

definition resultMethodKeys2025 :: "string list" where
  "resultMethodKeys2025 =
     [''ping'', ''initialize'', ''completion/complete'', ''logging/setLevel'', ''prompts/get'',
      ''prompts/list'', ''resources/list'', ''resources/templates/list'', ''resources/read'',
      ''resources/subscribe'', ''resources/unsubscribe'', ''tools/call'', ''tools/list'',
      ''sampling/createMessage'', ''elicitation/create'', ''roots/list'']"

definition requestMethodKeys2026 :: "string list" where
  "requestMethodKeys2026 =
     [''tools/call'', ''tools/list'', ''prompts/get'', ''prompts/list'', ''resources/list'',
      ''resources/templates/list'', ''resources/read'', ''completion/complete'', ''server/discover'',
      ''subscriptions/listen'']"

definition notificationMethodKeys2026 :: "string list" where
  "notificationMethodKeys2026 =
     [''notifications/cancelled'', ''notifications/progress'', ''notifications/message'',
      ''notifications/resources/updated'', ''notifications/resources/list_changed'',
      ''notifications/tools/list_changed'', ''notifications/prompts/list_changed'',
      ''notifications/subscriptions/acknowledged'']"

definition hasRequestMethod :: "wire_era \<Rightarrow> string \<Rightarrow> bool" where
  "hasRequestMethod era m \<longleftrightarrow>
     m \<in> set (case era of Rev2025 \<Rightarrow> requestMethodKeys2025 | Rev2026 \<Rightarrow> requestMethodKeys2026)"

definition hasNotificationMethod :: "wire_era \<Rightarrow> string \<Rightarrow> bool" where
  "hasNotificationMethod era m \<longleftrightarrow>
     m \<in> set (case era of Rev2025 \<Rightarrow> notificationMethodKeys2025 | Rev2026 \<Rightarrow> notificationMethodKeys2026)"

definition hasResultMethod :: "wire_era \<Rightarrow> string \<Rightarrow> bool" where
  "hasResultMethod era m \<longleftrightarrow>
     m \<in> set (case era of Rev2025 \<Rightarrow> resultMethodKeys2025 | Rev2026 \<Rightarrow> requestMethodKeys2026)"

definition ALL_CODECS :: "wire_era list" where
  "ALL_CODECS = [Rev2025, Rev2026]"

definition isSpecRequestMethod :: "string \<Rightarrow> bool" where
  "isSpecRequestMethod m \<longleftrightarrow> list_ex (\<lambda>era. hasRequestMethod era m) ALL_CODECS"

definition isSpecNotificationMethod :: "string \<Rightarrow> bool" where
  "isSpecNotificationMethod m \<longleftrightarrow> list_ex (\<lambda>era. hasNotificationMethod era m) ALL_CODECS"

definition isExtensionReusedRequestMethod :: "string \<Rightarrow> bool" where
  "isExtensionReusedRequestMethod m \<longleftrightarrow> m = ''tasks/get'' \<or> m = ''tasks/cancel''"

text \<open>
  \<open>bootstrapOutboundCodec\<close> (wire/bootstrap.ts): while no version is negotiated, the
  lifecycle messages select their own era.
\<close>

definition bootstrapOutboundCodec :: "string \<Rightarrow> wire_era option" where
  "bootstrapOutboundCodec m =
     (if m = ''initialize'' \<or> m = ''notifications/initialized'' then Some Rev2025
      else if m = ''server/discover'' then Some Rev2026
      else None)"

lemmas registry_defs = requestMethodKeys2025_def notificationMethodKeys2025_def resultMethodKeys2025_def
  requestMethodKeys2026_def notificationMethodKeys2026_def hasRequestMethod_def hasNotificationMethod_def
  hasResultMethod_def isSpecRequestMethod_def isSpecNotificationMethod_def ALL_CODECS_def

lemma hasRequestMethod_spec: "hasRequestMethod era m \<Longrightarrow> isSpecRequestMethod m"
  by (cases era) (auto simp: isSpecRequestMethod_def ALL_CODECS_def)

lemma version_partition:
  "set (legacyProtocolVersions vs) \<union> set (modernProtocolVersions vs) = set vs"
  "set (legacyProtocolVersions vs) \<inter> set (modernProtocolVersions vs) = {}"
  by (auto simp: legacyProtocolVersions_def modernProtocolVersions_def)

lemma legacy_versions_legacy: "\<forall>v \<in> set SUPPORTED_PROTOCOL_VERSIONS. \<not> isModernProtocolVersion v"
  by (simp add: SUPPORTED_PROTOCOL_VERSIONS_def LATEST_PROTOCOL_VERSION_def isModernProtocolVersion_def
      FIRST_MODERN_PROTOCOL_VERSION_def)

text \<open>Any string naming a later or equal date is modern: upward closure of the modern era.\<close>

lemma modern_upward: "isModernProtocolVersion v \<Longrightarrow> v \<le> w \<Longrightarrow> isModernProtocolVersion w"
  by (auto simp: isModernProtocolVersion_def)

end
