(* ===== verification/Guards.thy ===== *)
theory Guards
  imports Eras
begin

text \<open>
  The JSON-RPC message guards (core-internal/src/types/guards.ts over the schemas of
  core/src/schemas.ts): what counts as a request, a notification, a result response and an
  error response, including the strictness of the envelopes (no unknown members) and the
  shape of \<open>params._meta\<close> and \<open>result._meta\<close>.
\<close>

definition JSONRPC_VERSION :: string where
  "JSONRPC_VERSION = ''2.0''"

definition RELATED_TASK_META_KEY :: string where
  "RELATED_TASK_META_KEY = ''io.modelcontextprotocol/related-task''"

text \<open>\<open>z.union([z.string(), z.number().int()])\<close>: request ids and progress tokens.\<close>

definition requestIdOk :: "js \<Rightarrow> bool" where
  "requestIdOk v \<longleftrightarrow> isStr v \<or> isSafeInteger v"

definition requestMetaOk :: "js \<Rightarrow> bool" where
  "requestMetaOk v \<longleftrightarrow> isPlainObject v
     \<and> (getp v ''progressToken'' = JUndef \<or> requestIdOk (getp v ''progressToken''))
     \<and> (getp v RELATED_TASK_META_KEY = JUndef
         \<or> isPlainObject (getp v RELATED_TASK_META_KEY)
           \<and> isStr (getp (getp v RELATED_TASK_META_KEY) ''taskId''))"

definition baseParamsOk :: "js \<Rightarrow> bool" where
  "baseParamsOk v \<longleftrightarrow> v = JUndef
     \<or> isPlainObject v \<and> (getp v ''_meta'' = JUndef \<or> requestMetaOk (getp v ''_meta''))"

text \<open>\<open>z.object(shape).strict()\<close>: an object with no member outside the shape.\<close>

definition strictKeys :: "string list \<Rightarrow> js \<Rightarrow> bool" where
  "strictKeys ks v = (case v of JObj o' \<Rightarrow> list_all (\<lambda>k. k \<in> set ks) (okeys o') | _ \<Rightarrow> False)"

definition isJSONRPCRequest :: "js \<Rightarrow> bool" where
  "isJSONRPCRequest v \<longleftrightarrow> strictKeys [''jsonrpc'', ''id'', ''method'', ''params''] v
     \<and> getp v ''jsonrpc'' = JStr JSONRPC_VERSION
     \<and> requestIdOk (getp v ''id'')
     \<and> isStr (getp v ''method'')
     \<and> baseParamsOk (getp v ''params'')"

definition isJSONRPCNotification :: "js \<Rightarrow> bool" where
  "isJSONRPCNotification v \<longleftrightarrow> strictKeys [''jsonrpc'', ''method'', ''params''] v
     \<and> getp v ''jsonrpc'' = JStr JSONRPC_VERSION
     \<and> isStr (getp v ''method'')
     \<and> baseParamsOk (getp v ''params'')"

definition resultOk :: "js \<Rightarrow> bool" where
  "resultOk v \<longleftrightarrow> isPlainObject v \<and> (getp v ''_meta'' = JUndef \<or> isPlainObject (getp v ''_meta''))"

definition isJSONRPCResultResponse :: "js \<Rightarrow> bool" where
  "isJSONRPCResultResponse v \<longleftrightarrow> strictKeys [''jsonrpc'', ''id'', ''result''] v
     \<and> getp v ''jsonrpc'' = JStr JSONRPC_VERSION
     \<and> requestIdOk (getp v ''id'')
     \<and> resultOk (getp v ''result'')"

definition isJSONRPCErrorResponse :: "js \<Rightarrow> bool" where
  "isJSONRPCErrorResponse v \<longleftrightarrow> strictKeys [''jsonrpc'', ''id'', ''error''] v
     \<and> getp v ''jsonrpc'' = JStr JSONRPC_VERSION
     \<and> (getp v ''id'' = JUndef \<or> requestIdOk (getp v ''id''))
     \<and> isPlainObject (getp v ''error'')
     \<and> isSafeInteger (getp (getp v ''error'') ''code'')
     \<and> isStr (getp (getp v ''error'') ''message'')"

definition isJSONRPCMessage :: "js \<Rightarrow> bool" where
  "isJSONRPCMessage v \<longleftrightarrow> isJSONRPCRequest v \<or> isJSONRPCNotification v
     \<or> isJSONRPCResultResponse v \<or> isJSONRPCErrorResponse v"

text \<open>
  \<open>isInputRequiredResult\<close>: the discriminator check of a multi-round-trip result.
\<close>

definition isInputRequiredResult :: "js \<Rightarrow> bool" where
  "isInputRequiredResult v \<longleftrightarrow> isPlainObject v \<and> getp v ''resultType'' = JStr ''input_required''"

definition methodOf :: "js \<Rightarrow> string" where
  "methodOf v = (case getp v ''method'' of JStr m \<Rightarrow> m | _ \<Rightarrow> [])"

definition paramsOf :: "js \<Rightarrow> js" where
  "paramsOf v = getp v ''params''"

lemmas message_guard_defs = isJSONRPCRequest_def isJSONRPCNotification_def
  isJSONRPCResultResponse_def isJSONRPCErrorResponse_def

lemma strictKeys_object: "strictKeys ks v \<Longrightarrow> isPlainObject v"
  by (cases v) (auto simp: strictKeys_def)

lemma strictKeys_other: "strictKeys ks v \<Longrightarrow> k \<notin> set ks \<Longrightarrow> getp v k = JUndef"
  by (cases v) (auto simp: strictKeys_def list_all_iff ohas_okeys intro!: oget_absent)

lemma requestId_defined [simp]: "\<not> requestIdOk JUndef"
  by (simp add: requestIdOk_def)

lemma request_object [guard_simps]: "isJSONRPCRequest v \<Longrightarrow> isPlainObject v"
  by (auto simp: isJSONRPCRequest_def dest: strictKeys_object)

lemma request_method [guard_simps]: "isJSONRPCRequest v \<Longrightarrow> getp v ''method'' = JStr (methodOf v)"
  by (cases "getp v ''method''") (auto simp: isJSONRPCRequest_def methodOf_def)

lemma notification_method [guard_simps]: "isJSONRPCNotification v \<Longrightarrow> getp v ''method'' = JStr (methodOf v)"
  by (cases "getp v ''method''") (auto simp: isJSONRPCNotification_def methodOf_def)

lemma request_not_notification: "isJSONRPCRequest v \<Longrightarrow> \<not> isJSONRPCNotification v"
  using strictKeys_other [of "[''jsonrpc'', ''method'', ''params'']" v "''id''"]
  by (auto simp: isJSONRPCRequest_def isJSONRPCNotification_def)

lemma method_not_response:
  "isJSONRPCRequest v \<or> isJSONRPCNotification v \<Longrightarrow> \<not> isJSONRPCResultResponse v \<and> \<not> isJSONRPCErrorResponse v"
  using strictKeys_other [of "[''jsonrpc'', ''id'', ''result'']" v "''method''"]
    strictKeys_other [of "[''jsonrpc'', ''id'', ''error'']" v "''method''"]
  by (auto simp: message_guard_defs)

lemma result_not_error: "isJSONRPCResultResponse v \<Longrightarrow> \<not> isJSONRPCErrorResponse v"
  using strictKeys_other [of "[''jsonrpc'', ''id'', ''error'']" v "''result''"]
  by (auto simp: message_guard_defs resultOk_def)

text \<open>
  the four message kinds are mutually exclusive, so the order in which dispatch and
  classification test them never matters: a value is of exactly one kind or no message.
\<close>

theorem message_kinds_exclusive:
  "length (filter (\<lambda>g. g v) [isJSONRPCRequest, isJSONRPCNotification,
      isJSONRPCResultResponse, isJSONRPCErrorResponse]) = (if isJSONRPCMessage v then 1 else 0)"
  using request_not_notification [of v] method_not_response [of v] result_not_error [of v]
  by (cases "isJSONRPCRequest v"; cases "isJSONRPCNotification v"; cases "isJSONRPCResultResponse v")
    (auto simp: isJSONRPCMessage_def)

end
