(* ===== verification/Ladder.thy ===== *)
theory Ladder
  imports Guards
begin

text \<open>
  The outcomes of the inbound validation ladder and its status table
  (shared/inboundClassification.ts): rungs, rejections, the ladder as data, and the HTTP
  status of a JSON-RPC error by origin.
\<close>

record inbound_http_request =
  httpMethod :: string
  protocolVersionHeader :: "string option"
  mcpMethodHeader :: "string option"
  mcpNameHeader :: "string option"
  body :: js

datatype legacy_route_reason =
  R_http_method | R_initialize | R_no_claim | R_notification | R_batch | R_response

record legacy_route =
  lr_reason :: legacy_route_reason
  lr_requestedVersion :: "string option"

datatype message_kind = K_request | K_notification

record modern_route =
  mr_messageKind :: message_kind
  mr_message :: js
  mr_classification :: message_classification

datatype rung =
    HttpMethod | JsonrpcShape | EraClassification | Envelope | MethodRegistry
  | RequestParams | StandardHeaderValidation | ClientCapabilities | ParamHeaderValidation

text \<open>The rungs in the ladder's order; an earlier rung outranks a later one.\<close>

fun rungOrder :: "rung \<Rightarrow> nat" where
  "rungOrder HttpMethod = 1"
| "rungOrder JsonrpcShape = 2"
| "rungOrder EraClassification = 3"
| "rungOrder Envelope = 4"
| "rungOrder MethodRegistry = 5"
| "rungOrder RequestParams = 6"
| "rungOrder StandardHeaderValidation = 7"
| "rungOrder ClientCapabilities = 8"
| "rungOrder ParamHeaderValidation = 9"

lemma rungOrder_inj: "rungOrder r = rungOrder r' \<Longrightarrow> r = r'"
  by (cases r; cases r'; simp)

instantiation rung :: linorder
begin

definition less_eq_rung :: "rung \<Rightarrow> rung \<Rightarrow> bool" where
  "r \<le> r' \<longleftrightarrow> rungOrder r \<le> rungOrder r'"

definition less_rung :: "rung \<Rightarrow> rung \<Rightarrow> bool" where
  "r < r' \<longleftrightarrow> rungOrder r < rungOrder r'"

instance
  by standard (auto simp: less_eq_rung_def less_rung_def dest: rungOrder_inj)

end

record rejection =
  rj_rung :: rung
  rj_cell :: string
  rj_httpStatus :: nat
  rj_code :: int
  rj_message :: string
  rj_data :: js
  rj_settled :: bool

datatype classification_outcome =
    LegacyRoute legacy_route
  | ModernRoute modern_route
  | Reject rejection

definition HEADER_MISMATCH_ERROR_CODE :: int where
  "HEADER_MISMATCH_ERROR_CODE = -32020"

datatype evaluated_at = Edge | PreDispatch | Dispatch

record rung_descriptor =
  rd_rung :: rung
  rd_order :: nat
  rd_evaluatedAt :: evaluated_at
  rd_codes :: "int list"

abbreviation rungD :: "rung \<Rightarrow> nat \<Rightarrow> evaluated_at \<Rightarrow> int list \<Rightarrow> rung_descriptor" where
  "rungD r n e cs \<equiv> \<lparr>rd_rung = r, rd_order = n, rd_evaluatedAt = e, rd_codes = cs\<rparr>"

definition INBOUND_VALIDATION_LADDER :: "rung_descriptor list" where
  "INBOUND_VALIDATION_LADDER =
     [rungD HttpMethod 1 Edge [-32000],
      rungD JsonrpcShape 2 Edge [pcode InvalidRequest],
      rungD EraClassification 3 Edge [HEADER_MISMATCH_ERROR_CODE, pcode UnsupportedProtocolVersion],
      rungD Envelope 4 Edge [pcode InvalidParams],
      rungD MethodRegistry 5 Dispatch [pcode MethodNotFound],
      rungD RequestParams 6 Dispatch [pcode InvalidParams],
      rungD StandardHeaderValidation 7 PreDispatch [HEADER_MISMATCH_ERROR_CODE],
      rungD ClientCapabilities 8 PreDispatch [pcode MissingRequiredClientCapability],
      rungD ParamHeaderValidation 9 PreDispatch [HEADER_MISMATCH_ERROR_CODE]]"

lemma ladder_is_sorted: "sorted_wrt (<) (map rd_rung INBOUND_VALIDATION_LADDER)"
  by (simp add: INBOUND_VALIDATION_LADDER_def less_rung_def)

lemma ladder_orders: "list_all (\<lambda>d. rd_order d = rungOrder (rd_rung d)) INBOUND_VALIDATION_LADDER"
  by (simp add: INBOUND_VALIDATION_LADDER_def)

definition LADDER_ERROR_HTTP_STATUS :: "(int \<times> nat) list" where
  "LADDER_ERROR_HTTP_STATUS =
     [(pcode ParseError, 400), (pcode InvalidRequest, 400), (pcode MethodNotFound, 404),
      (pcode UnsupportedProtocolVersion, 400), (pcode MissingRequiredClientCapability, 400),
      (HEADER_MISMATCH_ERROR_CODE, 400)]"

datatype error_origin = OriginLadder | OriginInBand

definition httpStatusForErrorCode :: "int \<Rightarrow> error_origin \<Rightarrow> nat" where
  "httpStatusForErrorCode c origin =
     (if origin = OriginInBand then (if c = pcode MissingRequiredClientCapability then 400 else 200)
      else or_else (map_of LADDER_ERROR_HTTP_STATUS c) 400)"

definition rejection :: "rung \<Rightarrow> string \<Rightarrow> nat \<Rightarrow> protocol_error \<Rightarrow> bool \<Rightarrow> rejection" where
  "rejection rng cell status e settled =
     \<lparr>rj_rung = rng, rj_cell = cell, rj_httpStatus = status, rj_code = pe_code e,
      rj_message = pe_message e, rj_data = pe_data e, rj_settled = settled\<rparr>"

text \<open>\<open>crossCheckMismatch\<close>, with the rung it defaults to given explicitly by the callers.\<close>

definition crossCheckMismatch :: "string \<Rightarrow> string \<Rightarrow> string \<Rightarrow> rung \<Rightarrow> rejection" where
  "crossCheckMismatch cell header bdy rng =
     rejection rng cell 400
       (protocolError HEADER_MISMATCH_ERROR_CODE
          (''Bad Request: the request headers and body disagree: '' @ bdy)
          (JObj [(''mismatch'', JObj [(''header'', JStr header), (''body'', JStr bdy)])]))
       True"

text \<open>
  What every rejection emitted by an entry gate must satisfy: its code is one the rung's
  descriptor declares.
\<close>

definition rung_code_ok :: "rejection \<Rightarrow> bool" where
  "rung_code_ok r \<longleftrightarrow>
     list_ex (\<lambda>d. rd_rung d = rj_rung r \<and> rj_code r \<in> set (rd_codes d)) INBOUND_VALIDATION_LADDER"

lemma rejection_sel [simp]:
  "rj_rung (rejection rng cell st e b) = rng" "rj_cell (rejection rng cell st e b) = cell"
  "rj_httpStatus (rejection rng cell st e b) = st" "rj_code (rejection rng cell st e b) = pe_code e"
  "rj_data (rejection rng cell st e b) = pe_data e" "rj_message (rejection rng cell st e b) = pe_message e"
  "rj_settled (rejection rng cell st e b) = b"
  by (simp_all add: rejection_def)

lemma crossCheckMismatch_sel [simp]:
  "rj_rung (crossCheckMismatch cell h b rng) = rng" "rj_cell (crossCheckMismatch cell h b rng) = cell"
  "rj_httpStatus (crossCheckMismatch cell h b rng) = 400"
  "rj_code (crossCheckMismatch cell h b rng) = HEADER_MISMATCH_ERROR_CODE"
  by (simp_all add: crossCheckMismatch_def)

end
