(* ===== verification/McpParamHeaders.thy ===== *)
theory McpParamHeaders
  imports HeaderCodec Ladder
begin

text \<open>
  The custom-header half of the header codec (shared/mcpParamHeaders.ts): scanning a tool's
  input schema for \<open>x-mcp-header\<close> declarations, building the \<open>Mcp-Param-*\<close> headers of a
  call on the client and validating them against the body on the server.

  Header values are UTF-16 strings (\<open>ustr\<close>); the strings of the arguments are the code
  units below 256 of \<open>js\<close>. Number texts are compared as the doubles they denote.
\<close>

subsection \<open>Declaration scan\<close>

definition MCP_PARAM_HEADER_PREFIX :: string where
  "MCP_PARAM_HEADER_PREFIX = ''Mcp-Param-''"

definition X_MCP_HEADER_KEY :: string where
  "X_MCP_HEADER_KEY = ''x-mcp-header''"

record x_decl =
  dPath :: "string list"
  dName :: string
  dType :: string

definition tchar :: "char \<Rightarrow> bool" where
  "tchar c \<longleftrightarrow> c \<in> set ''!#$%&'' \<or> code c = 39 \<or> c \<in> set ''*+-.^_`|~''
     \<or> is_digit c \<or> is_upper c \<or> is_lower c"

definition rfc9110_token :: "string \<Rightarrow> bool" where
  "rfc9110_token s \<longleftrightarrow> s \<noteq> [] \<and> list_all tchar s"

definition PERMITTED_X_MCP_HEADER_TYPES :: "string list" where
  "PERMITTED_X_MCP_HEADER_TYPES = [''string'', ''integer'', ''boolean'', ''number'']"

definition NON_REACHABLE_SUBSCHEMA_KEYWORDS :: "string list" where
  "NON_REACHABLE_SUBSCHEMA_KEYWORDS =
     [''items'', ''prefixItems'', ''contains'', ''additionalProperties'', ''unevaluatedProperties'',
      ''unevaluatedItems'', ''propertyNames'', ''patternProperties'', ''dependentSchemas'', ''oneOf'',
      ''anyOf'', ''allOf'', ''not'', ''if'', ''then'', ''else'', ''$defs'', ''definitions'']"

definition OBJECT_VALUED_SUBSCHEMA_KEYWORDS :: "string list" where
  "OBJECT_VALUED_SUBSCHEMA_KEYWORDS = [''patternProperties'', ''dependentSchemas'', ''$defs'', ''definitions'']"

definition pathName :: "string list \<Rightarrow> string" where
  "pathName path = (if path = [] then ''<root>'' else join ''.'' path)"

text \<open>The scan's two mutable locals: the declarations so far and \<open>seenLower\<close>.\<close>

type_synonym scan_state = "x_decl list \<times> (string \<rightharpoonup> string)"

text \<open>The block of \<open>visit\<close> that handles an \<open>x-mcp-header\<close> member of the schema.\<close>

definition visit_declaration ::
  "obj \<Rightarrow> string list \<Rightarrow> bool \<Rightarrow> scan_state \<Rightarrow> string + scan_state" where
  "visit_declaration schema path reachable st =
     (if \<not> ohas schema X_MCP_HEADER_KEY then Inr st
      else if \<not> reachable \<or> length path = 0 then
        Inl (pathName path @ '': x-mcp-header is only permitted on properties statically reachable via a chain of ''
          @ [CHR 0x27] @ ''properties'' @ [CHR 0x27]
          @ '' keys (not under items, additionalProperties, oneOf/anyOf/allOf/not, if/then/else, or $ref)'')
      else
        (case oget schema X_MCP_HEADER_KEY of
           JStr raw \<Rightarrow>
             (if raw = [] then Inl (pathName path @ '': x-mcp-header MUST be a non-empty string'')
              else if \<not> rfc9110_token raw then
                Inl (pathName path @ '': x-mcp-header '' @ [CHR 0x27] @ raw @ [CHR 0x27]
                  @ '' is not a valid RFC 9110 token (no spaces, control characters or HTTP delimiters)'')
              else
                let type = str_of (oget schema ''type'') in
                if type = None \<or> the type \<notin> set PERMITTED_X_MCP_HEADER_TYPES then
                  Inl (pathName path
                    @ '': x-mcp-header is only permitted on primitive-typed properties (string, integer, boolean); got ''
                    @ or_else type ''<none>'')
                else
                  (case snd st (toLowerCase raw) of
                     Some prior \<Rightarrow>
                       Inl (''x-mcp-header '' @ [CHR 0x27] @ raw @ [CHR 0x27]
                         @ '' is not case-insensitively unique (also declared as '' @ [CHR 0x27] @ prior @ [CHR 0x27]
                         @ '')'')
                   | None \<Rightarrow>
                       Inr (fst st @ [\<lparr>dPath = path, dName = raw, dType = the type\<rparr>],
                            (snd st)(toLowerCase raw \<mapsto> raw))))
         | _ \<Rightarrow> Inl (pathName path @ '': x-mcp-header MUST be a non-empty string'')))"

text \<open>\<open>Object.entries\<close> of an object or an array.\<close>

fun entries :: "js \<Rightarrow> (string \<times> js) list" where
  "entries (JObj o') = o'"
| "entries (JArr vs) = zip (map (\<lambda>i. digits i) [0..<length vs]) vs"
| "entries _ = []"

definition branches :: "string \<Rightarrow> js \<Rightarrow> js list" where
  "branches k sub =
     (case sub of
        JUndef \<Rightarrow> []
      | JArr vs \<Rightarrow> vs
      | JObj o' \<Rightarrow> if k \<in> set OBJECT_VALUED_SUBSCHEMA_KEYWORDS then map snd o' else [sub]
      | _ \<Rightarrow> [sub])"

definition keyword_step :: "string \<Rightarrow> string" where
  "keyword_step k = ''<'' @ k @ ''>''"

text \<open>The subschemas \<open>visit\<close> descends into, in order, with the path and flag it passes on.\<close>

definition subschemas :: "obj \<Rightarrow> string list \<Rightarrow> bool \<Rightarrow> (js \<times> string list \<times> bool) list" where
  "subschemas schema path reachable =
     map (\<lambda>(key, child). (child, path @ [key], reachable)) (entries (oget schema ''properties''))
     @ concat (map (\<lambda>k. map (\<lambda>b. (b, path @ [keyword_step k], False)) (branches k (oget schema k)))
         NON_REACHABLE_SUBSCHEMA_KEYWORDS)"

lemma size_oget: "size (oget o' k) \<le> size_list (size_prod (\<lambda>_. 0) size) o'"
  by (induction o') (auto split: prod.splits)

lemma entries_mem: "(k, c) \<in> set (entries v) \<Longrightarrow> size c < size v"
proof (cases v)
  case (JArr vs)
  assume "(k, c) \<in> set (entries v)"
  then have "c \<in> set vs" using JArr by (auto dest: set_zip_rightD)
  then show ?thesis using JArr by (induction vs arbitrary: v) (auto simp: less_Suc_eq_le trans_le_add2)
next
  case (JObj o')
  assume "(k, c) \<in> set (entries v)"
  then have "(k, c) \<in> set o'" using JObj by simp
  then show ?thesis using JObj by (induction o' arbitrary: v) (auto simp: less_Suc_eq_le trans_le_add2)
qed auto

lemma branches_mem: "c \<in> set (branches k v) \<Longrightarrow> size c \<le> size v"
proof (cases v)
  case (JArr vs)
  assume "c \<in> set (branches k v)"
  then have "c \<in> set vs" using JArr by (simp add: branches_def)
  then show ?thesis using JArr by (induction vs arbitrary: v) (auto simp: trans_le_add2)
next
  case (JObj o')
  assume "c \<in> set (branches k v)"
  then have "c \<in> snd ` set o' \<or> c = v" using JObj by (auto simp: branches_def split: if_splits)
  then show ?thesis
  proof
    assume "c \<in> snd ` set o'"
    then obtain j where "(j, c) \<in> set (entries v)" using JObj by auto
    then show ?thesis using entries_mem less_imp_le by blast
  qed simp
qed (auto simp: branches_def)

lemma subschemas_size: "t \<in> set (subschemas o' path r) \<Longrightarrow> size (fst t) < size (JObj o')"
  using size_oget [of o'] entries_mem branches_mem
  by (fastforce simp: subschemas_def less_Suc_eq_le dest: order_trans less_imp_le)

function visit :: "js \<Rightarrow> string list \<Rightarrow> bool \<Rightarrow> scan_state \<Rightarrow> string + scan_state"
and visit_all :: "(js \<times> string list \<times> bool) list \<Rightarrow> scan_state \<Rightarrow> string + scan_state" where
  "visit node path reachable st =
     (case node of
        JObj schema \<Rightarrow>
          (case visit_declaration schema path reachable st of
             Inl fault \<Rightarrow> Inl fault
           | Inr st' \<Rightarrow> visit_all (subschemas schema path reachable) st')
      | _ \<Rightarrow> Inr st)"
| "visit_all [] st = Inr st"
| "visit_all (t # ts) st =
     (case visit (fst t) (fst (snd t)) (snd (snd t)) st of
        Inl fault \<Rightarrow> Inl fault
      | Inr st' \<Rightarrow> visit_all ts st')"
  by pat_completeness auto

definition work_size :: "(js \<times> string list \<times> bool) list \<Rightarrow> nat" where
  "work_size ts = foldr max (map (size \<circ> fst) ts) 0"

lemma work_size_le: "t \<in> set ts \<Longrightarrow> size (fst t) \<le> work_size ts"
  by (induction ts) (auto simp: work_size_def)

lemma work_size_less: "0 < n \<Longrightarrow> (\<And>t. t \<in> set ts \<Longrightarrow> size (fst t) < n) \<Longrightarrow> work_size ts < n"
  by (induction ts) (auto simp: work_size_def)

lemma work_size_Cons: "work_size (t # ts) = max (size (fst t)) (work_size ts)"
  by (simp add: work_size_def)

termination visit
proof (relation "inv_image (less_than <*lex*> less_than)
    (\<lambda>x. case x of Inl (node, _) \<Rightarrow> (size node, 0) | Inr (ts, _) \<Rightarrow> (work_size ts, Suc (length ts)))",
    goal_cases)
  case (2 node path reachable st schema st')
  have "work_size (subschemas schema path reachable) < size (JObj schema)"
    by (rule work_size_less [OF _ subschemas_size]) simp_all
  with 2 show ?case by simp
qed (auto simp: work_size_Cons)

declare visit.simps [simp del]

definition scanXMcpHeaderDeclarations :: "js \<Rightarrow> string + x_decl list" where
  "scanXMcpHeaderDeclarations inputSchema =
     (case visit inputSchema [] True ([], Map.empty) of Inl fault \<Rightarrow> Inl fault | Inr st \<Rightarrow> Inr (fst st))"

text \<open>
  The specification of the scan: the positions of a schema. A step through \<open>properties\<close>
  keeps the flag, a step through any of the swept keywords clears it.
\<close>

inductive position :: "js \<Rightarrow> js \<Rightarrow> string list \<Rightarrow> bool \<Rightarrow> bool" for root where
  at_root: "position root root [] True"
| at_property: "position root (JObj schema) p r \<Longrightarrow> (k, c) \<in> set (entries (oget schema ''properties''))
    \<Longrightarrow> position root c (p @ [k]) r"
| at_keyword: "position root (JObj schema) p r \<Longrightarrow> k \<in> set NON_REACHABLE_SUBSCHEMA_KEYWORDS
    \<Longrightarrow> c \<in> set (branches k (oget schema k)) \<Longrightarrow> position root c (p @ [keyword_step k]) False"

definition declares :: "js \<Rightarrow> x_decl \<Rightarrow> bool" where
  "declares root d \<longleftrightarrow> (\<exists>schema. position root (JObj schema) (dPath d) True \<and> dPath d \<noteq> []
     \<and> oget schema X_MCP_HEADER_KEY = JStr (dName d) \<and> oget schema ''type'' = JStr (dType d))"

definition decl_ok :: "x_decl \<Rightarrow> bool" where
  "decl_ok d \<longleftrightarrow> rfc9110_token (dName d) \<and> dType d \<in> set PERMITTED_X_MCP_HEADER_TYPES"

definition scan_inv :: "js \<Rightarrow> scan_state \<Rightarrow> bool" where
  "scan_inv root st \<longleftrightarrow> distinct (map (toLowerCase \<circ> dName) (fst st))
     \<and> dom (snd st) = toLowerCase ` dName ` set (fst st)
     \<and> (\<forall>d \<in> set (fst st). decl_ok d \<and> declares root d)"

lemma subschemas_position:
  "t \<in> set (subschemas schema p r) \<Longrightarrow> position root (JObj schema) p r
     \<Longrightarrow> position root (fst t) (fst (snd t)) (snd (snd t))"
  by (auto simp: subschemas_def intro: position.intros)

text \<open>What a successful \<open>visit_declaration\<close> did.\<close>

lemma visit_declaration_Inr:
  assumes "visit_declaration schema p r st = Inr st'"
  obtains (absent) "\<not> ohas schema X_MCP_HEADER_KEY" "st' = st"
  | (declared) d where "r" "p \<noteq> []" "dPath d = p" "decl_ok d" "oget schema X_MCP_HEADER_KEY = JStr (dName d)"
      "oget schema ''type'' = JStr (dType d)" "snd st (toLowerCase (dName d)) = None"
      "st' = (fst st @ [d], (snd st)(toLowerCase (dName d) \<mapsto> dName d))"
proof (cases "ohas schema X_MCP_HEADER_KEY")
  case False
  with assms absent show thesis by (simp add: visit_declaration_def)
next
  case True
  then obtain raw where raw: "oget schema X_MCP_HEADER_KEY = JStr raw"
    using assms by (auto simp: visit_declaration_def split: if_splits js.splits)
  then obtain ty where ty: "str_of (oget schema ''type'') = Some ty"
    using assms True by (auto simp: visit_declaration_def Let_def split: if_splits js.splits)
  define d where "d = \<lparr>dPath = p, dName = raw, dType = ty\<rparr>"
  show thesis
    by (rule declared [of d])
      (use assms True raw ty in \<open>auto simp: visit_declaration_def Let_def d_def decl_ok_def
        split: if_splits option.splits\<close>)
qed

lemma visit_declaration_inv:
  assumes "visit_declaration schema p r st = Inr st'" "position root (JObj schema) p r" "scan_inv root st"
  shows "scan_inv root st'"
  using assms(1)
proof (cases rule: visit_declaration_Inr)
  case (declared d)
  have "declares root d" using declared assms(2) by (auto simp: declares_def)
  moreover have "toLowerCase (dName d) \<notin> dom (snd st)" using declared by (simp add: domIff)
  ultimately show ?thesis using assms(3) declared by (auto simp: scan_inv_def)
qed (use assms in simp)

lemma visit_inv:
  "visit node p r st = Inr st' \<Longrightarrow> position root node p r \<Longrightarrow> scan_inv root st \<Longrightarrow> scan_inv root st'"
  "visit_all ts st = Inr st' \<Longrightarrow> (\<And>t. t \<in> set ts \<Longrightarrow> position root (fst t) (fst (snd t)) (snd (snd t)))
     \<Longrightarrow> scan_inv root st \<Longrightarrow> scan_inv root st'"
proof (induction node p r st and ts st arbitrary: st' and st' rule: visit_visit_all.induct)
  case (1 node p r st)
  show ?case
  proof (cases node)
    case (JObj schema)
    then obtain st1 where d: "visit_declaration schema p r st = Inr st1"
      and v: "visit_all (subschemas schema p r) st1 = Inr st'"
      using 1(2) by (auto simp: visit.simps split: sum.splits)
    show ?thesis
      using 1(1) [OF JObj d v] 1(3,4) JObj visit_declaration_inv [OF d] subschemas_position by blast
  qed (use 1 in \<open>simp_all add: visit.simps\<close>)
next
  case (3 t ts st)
  then show ?case by (auto split: sum.splits)
qed simp

lemma visit_mono:
  "visit node p r st = Inr st' \<Longrightarrow> set (fst st) \<subseteq> set (fst st')"
  "visit_all ts st = Inr st' \<Longrightarrow> set (fst st) \<subseteq> set (fst st')"
proof (induction node p r st and ts st arbitrary: st' and st' rule: visit_visit_all.induct)
  case (1 node p r st)
  show ?case
  proof (cases node)
    case (JObj schema)
    then obtain st1 where d: "visit_declaration schema p r st = Inr st1"
      and v: "visit_all (subschemas schema p r) st1 = Inr st'"
      using 1(2) by (auto simp: visit.simps split: sum.splits)
    have "set (fst st) \<subseteq> set (fst st1)" using d by (cases rule: visit_declaration_Inr) auto
    with 1(1) [OF JObj d v] show ?thesis by simp
  qed (use 1 in \<open>simp_all add: visit.simps\<close>)
next
  case (3 t ts st)
  obtain st1 where "visit (fst t) (fst (snd t)) (snd (snd t)) st = Inr st1" "visit_all ts st1 = Inr st'"
    using 3(3) by (auto split: sum.splits)
  with 3(1,2) show ?case by (meson order_trans)
qed simp

text \<open>Everything below a visited node, as the visitor reaches it.\<close>

inductive below :: "js \<times> string list \<times> bool \<Rightarrow> js \<times> string list \<times> bool \<Rightarrow> bool" where
  here: "below t t"
| there: "c \<in> set (subschemas schema p r) \<Longrightarrow> below c t \<Longrightarrow> below (JObj schema, p, r) t"

definition recorded :: "js \<times> string list \<times> bool \<Rightarrow> x_decl list \<Rightarrow> bool" where
  "recorded t ds \<longleftrightarrow> (case t of (JObj schema, p, r) \<Rightarrow> ohas schema X_MCP_HEADER_KEY \<longrightarrow>
      r \<and> p \<noteq> [] \<and> (\<exists>d \<in> set ds. dPath d = p \<and> oget schema X_MCP_HEADER_KEY = JStr (dName d)) | _ \<Rightarrow> True)"

lemma recorded_mono: "recorded t ds \<Longrightarrow> set ds \<subseteq> set ds' \<Longrightarrow> recorded t ds'"
  by (auto simp: recorded_def split: js.splits prod.splits) blast

lemma visit_declaration_recorded:
  assumes "visit_declaration schema p r st = Inr st'" shows "recorded (JObj schema, p, r) (fst st')"
  using assms by (cases rule: visit_declaration_Inr) (auto simp: recorded_def)

lemma visit_recorded:
  "visit node p r st = Inr st' \<Longrightarrow> below (node, p, r) t \<Longrightarrow> recorded t (fst st')"
  "visit_all ts st = Inr st' \<Longrightarrow> c \<in> set ts \<Longrightarrow> below c t \<Longrightarrow> recorded t (fst st')"
proof (induction node p r st and ts st arbitrary: st' t and st' t c rule: visit_visit_all.induct)
  case (1 node p r st)
  from 1(3) show ?case
  proof (cases rule: below.cases)
    case here
    show ?thesis
    proof (cases node)
      case (JObj schema)
      then obtain st1 where d: "visit_declaration schema p r st = Inr st1"
        and v: "visit_all (subschemas schema p r) st1 = Inr st'"
        using 1(2) by (auto simp: visit.simps split: sum.splits)
      show ?thesis
        using recorded_mono [OF visit_declaration_recorded [OF d] visit_mono(2) [OF v]] here JObj by simp
    qed (use here in \<open>simp_all add: recorded_def\<close>)
  next
    case (there c schema)
    then obtain st1 where d: "visit_declaration schema p r st = Inr st1"
      and v: "visit_all (subschemas schema p r) st1 = Inr st'"
      using 1(2) by (auto simp: visit.simps split: sum.splits)
    show ?thesis using 1(1) [OF _ d v] there by blast
  qed
next
  case (3 u ts st)
  obtain st1 where v: "visit (fst u) (fst (snd u)) (snd (snd u)) st = Inr st1" "visit_all ts st1 = Inr st'"
    using 3(3) by (auto split: sum.splits)
  show ?case
  proof (cases "c = u")
    case True
    with 3(1) [OF v(1)] 3(5) show ?thesis
      using recorded_mono visit_mono(2) [OF v(2)] by (metis prod.collapse)
  next
    case False
    with 3(2) [OF v] 3(4,5) show ?thesis by simp
  qed
qed simp

lemma below_step: "below t (JObj schema, p, r) \<Longrightarrow> c \<in> set (subschemas schema p r) \<Longrightarrow> below t c"
  by (induction t "(JObj schema, p, r)" rule: below.induct) (auto intro: below.intros)

lemma position_below: "position root node p r \<Longrightarrow> below (root, [], True) (node, p, r)"
proof (induction rule: position.induct)
  case (at_property schema p r k c)
  then have "(c, p @ [k], r) \<in> set (subschemas schema p r)" by (force simp: subschemas_def)
  with at_property show ?case by (blast intro: below_step)
next
  case (at_keyword schema p r k c)
  then have "(c, p @ [keyword_step k], False) \<in> set (subschemas schema p r)"
    by (auto simp: subschemas_def)
  with at_keyword show ?case by (blast intro: below_step)
qed (rule here)

lemma scan_Inr:
  assumes "scanXMcpHeaderDeclarations s = Inr ds"
  obtains st where "visit s [] True ([], Map.empty) = Inr st" "ds = fst st"
  using assms by (auto simp: scanXMcpHeaderDeclarations_def split: sum.splits)

lemma scan_scan_inv:
  assumes "scanXMcpHeaderDeclarations s = Inr ds"
  obtains seen where "scan_inv s (ds, seen)"
proof -
  obtain st where v: "visit s [] True ([], Map.empty) = Inr st" and ds: "ds = fst st"
    using assms by (rule scan_Inr)
  have "scan_inv s st" using visit_inv(1) [OF v at_root] by (simp add: scan_inv_def)
  with ds that show thesis by (metis prod.collapse)
qed

text \<open>
  an accepted schema's declarations are well formed. Names are RFC 9110 tokens and
  pairwise distinct without regard to case, types are primitive, and each declaration is
  the annotation of a property that a chain of \<open>properties\<close> members leads to.
\<close>

theorem scan_sound:
  assumes "scanXMcpHeaderDeclarations s = Inr ds"
  shows "distinct (map (\<lambda>d. toLowerCase (dName d)) ds)
    \<and> list_all (\<lambda>d. rfc9110_token (dName d) \<and> dType d \<in> set PERMITTED_X_MCP_HEADER_TYPES) ds
    \<and> list_all (declares s) ds"
  using assms by (rule scan_scan_inv) (auto simp: scan_inv_def list_all_iff decl_ok_def o_def)

definition demo_schema :: js where
  "demo_schema = JObj [(''properties'', JObj [(''q'', JObj [(X_MCP_HEADER_KEY, JStr ''Q''), (''type'', JStr ''string'')])])]"

definition demo_decls :: "x_decl list" where
  "demo_decls = [\<lparr>dPath = [''q''], dName = ''Q'', dType = ''string''\<rparr>]"

lemma demo_scan: "scanXMcpHeaderDeclarations demo_schema = Inr demo_decls"
proof -
  have lower: "toLowerCase ''Q'' = ''q''" by code_simp
  have tok: "rfc9110_token ''Q''" by (simp add: rfc9110_token_def tchar_def is_upper_def code_def)
  let ?leaf = "[(X_MCP_HEADER_KEY, JStr ''Q''), (''type'', JStr ''string'')]"
  let ?ch = "map (\<lambda>k. (k, JUndef)) NON_REACHABLE_SUBSCHEMA_KEYWORDS"
  have leaf: "subschemas ?leaf [''q''] True = []"
    by (simp add: subschemas_def NON_REACHABLE_SUBSCHEMA_KEYWORDS_def X_MCP_HEADER_KEY_def branches_def)
  have root: "subschemas [(''properties'', JObj [(''q'', JObj ?leaf)])] [] True = [(JObj ?leaf, [''q''], True)]"
    by (simp add: subschemas_def NON_REACHABLE_SUBSCHEMA_KEYWORDS_def X_MCP_HEADER_KEY_def branches_def)
  show ?thesis
    by (simp add: scanXMcpHeaderDeclarations_def demo_schema_def demo_decls_def visit.simps root leaf
        visit_declaration_def X_MCP_HEADER_KEY_def [symmetric] tok lower PERMITTED_X_MCP_HEADER_TYPES_def)
      (simp add: X_MCP_HEADER_KEY_def)
qed

theorem scan_sound_witness: "list_all (declares demo_schema) demo_decls"
  using scan_sound [OF demo_scan] by simp

text \<open>
  an accepted schema hides no annotation. Wherever an \<open>x-mcp-header\<close> occurs in a
  position the sweep covers, it is one of the returned declarations and no swept keyword
  lies on its path.
\<close>

theorem scan_complete:
  assumes "scanXMcpHeaderDeclarations s = Inr ds"
    and "position s (JObj schema) p r" and "ohas schema X_MCP_HEADER_KEY"
  shows "r \<and> (\<exists>d. d \<in> set ds \<and> dPath d = p \<and> oget schema X_MCP_HEADER_KEY = JStr (dName d))"
proof -
  obtain st where v: "visit s [] True ([], Map.empty) = Inr st" and ds: "ds = fst st"
    using assms(1) by (rule scan_Inr)
  show ?thesis
    using visit_recorded(1) [OF v position_below [OF assms(2)]] assms(3) ds by (auto simp: recorded_def)
qed

theorem scan_complete_witness:
  "\<exists>d. d \<in> set demo_decls \<and> dPath d = [''q'']"
proof -
  have "position demo_schema (JObj [(X_MCP_HEADER_KEY, JStr ''Q''), (''type'', JStr ''string'')]) ([] @ [''q'']) True"
    by (rule at_property [OF at_root [of demo_schema, unfolded demo_schema_def], folded demo_schema_def]) simp
  from scan_complete [OF demo_scan this] show ?thesis by auto
qed

end
