(* ===== verification/McpParamValues.thy ===== *)
theory McpParamValues
  imports McpParamHeaders "HOL-Library.AList"
begin

text \<open>
  Values of \<open>Mcp-Param-*\<close> headers (shared/mcpParamHeaders.ts): the text of a primitive
  argument, the headers the client builds for a call, and the comparison with the body that
  the server performs, with the theorem that the two agree.
\<close>

subsection \<open>Numbers as doubles\<close>

text \<open>
  \<open>Number(text) === n\<close> compares doubles: a finite one is a sign, an integer mantissa and a
  binary exponent, normalised so that equality is equality of values.
\<close>

datatype dbl = Fin bool nat int | Inf bool

fun bitlen :: "nat \<Rightarrow> nat" where
  "bitlen n = (if n = 0 then 0 else Suc (bitlen (n div 2)))"

declare bitlen.simps [simp del]

definition round_half_even :: "nat \<Rightarrow> nat \<Rightarrow> nat" where
  "round_half_even a b =
     (let q = a div b; r = a mod b in if 2 * r < b \<or> 2 * r = b \<and> even q then q else q + 1)"

definition scale_up :: "int \<Rightarrow> nat" where
  "scale_up e = 2 ^ nat e"

text \<open>The double nearest to \<open>a / b\<close>, ties to even, with gradual underflow and overflow.\<close>

definition nearest_double :: "bool \<Rightarrow> nat \<Rightarrow> nat \<Rightarrow> dbl" where
  "nearest_double neg a b =
     (if a = 0 then Fin False 0 0
      else
        let e0 = int (bitlen a) - int (bitlen b) - 53;
            e1 = (if a * scale_up (- e0) < b * scale_up e0 * 2 ^ 53 then e0 else e0 + 1);
            e = max e1 (- 1074);
            m = round_half_even (a * scale_up (- e)) (b * scale_up e)
        in if m = 0 then Fin False 0 0
           else if 971 < (if m = 2 ^ 53 then e + 1 else e) then Inf neg
           else if m = 2 ^ 53 then Fin neg (2 ^ 52) (e + 1)
           else Fin neg m e)"

definition digit_unit :: "nat \<Rightarrow> bool" where
  "digit_unit u \<longleftrightarrow> 48 \<le> u \<and> u \<le> 57"

definition digits_value :: "ustr \<Rightarrow> nat" where
  "digits_value us = foldl (\<lambda>acc u. acc * 10 + (u - 48)) 0 us"

text \<open>
  \<open>CANONICAL_DECIMAL = /^-?\d+(\.\d+)?$/\<close>: sign, all digits as a number, and how many of
  them follow the point.
\<close>

definition unsigned_decimal :: "ustr \<Rightarrow> (nat \<times> nat) option" where
  "unsigned_decimal s =
     (let ip = takeWhile digit_unit s; rest = dropWhile digit_unit s in
      if ip = [] then None
      else (case rest of
              [] \<Rightarrow> Some (digits_value ip, 0)
            | p # fp \<Rightarrow>
                if p = 46 \<and> fp \<noteq> [] \<and> list_all digit_unit fp
                then Some (digits_value (ip @ fp), length fp) else None))"

definition canonical_decimal :: "ustr \<Rightarrow> (bool \<times> nat \<times> nat) option" where
  "canonical_decimal s =
     (case s of
        [] \<Rightarrow> None
      | c # s' \<Rightarrow> if c = 45 then map_option (Pair True) (unsigned_decimal s')
                   else map_option (Pair False) (unsigned_decimal s))"

definition CANONICAL_DECIMAL :: "ustr \<Rightarrow> bool" where
  "CANONICAL_DECIMAL s \<longleftrightarrow> canonical_decimal s \<noteq> None"

text \<open>The double of a decimal text that may carry a negative exponent.\<close>

definition exponent_of :: "ustr \<Rightarrow> nat" where
  "exponent_of rest = digits_value (drop 2 rest)"

definition jsNumber :: "ustr \<Rightarrow> dbl option" where
  "jsNumber s =
     map_option (\<lambda>(neg, n, k). nearest_double neg n (10 ^ (k + exponent_of (dropWhile (\<lambda>u. u \<noteq> 101) s))))
       (canonical_decimal (takeWhile (\<lambda>u. u \<noteq> 101) s))"

text \<open>The double a \<open>js\<close> number is.\<close>

fun doubleOf :: "jnum \<Rightarrow> dbl option" where
  "doubleOf (NInt n) = Some (nearest_double (n < 0) (nat \<bar>n\<bar>) 1)"
| "doubleOf (NFrac t) = jsNumber (units t)"
| "doubleOf NPosInf = Some (Inf False)"
| "doubleOf NNegInf = Some (Inf True)"
| "doubleOf NNaN = None"

subsection \<open>Client side\<close>

definition mcpParamPrimitiveToString :: "js \<Rightarrow> string option" where
  "mcpParamPrimitiveToString v =
     (case v of
        JStr s \<Rightarrow> Some s
      | JBool b \<Rightarrow> Some (if b then ''true'' else ''false'')
      | JNum (NInt n) \<Rightarrow> if \<not> isSafeInteger v then None else Some (show_int n)
      | JNum (NFrac t) \<Rightarrow> Some t
      | _ \<Rightarrow> None)"

text \<open>A property read on an object or an array.\<close>

definition member :: "js \<Rightarrow> string \<Rightarrow> js" where
  "member v k =
     (case v of
        JObj o' \<Rightarrow> oget o' k
      | JArr vs \<Rightarrow>
          (if k = ''length'' then JNum (NInt (int (length vs)))
           else case List.find (\<lambda>i. digits i = k) [0..<length vs] of Some i \<Rightarrow> vs ! i | None \<Rightarrow> JUndef)
      | _ \<Rightarrow> JUndef)"

fun valueAtPath :: "js \<Rightarrow> string list \<Rightarrow> js" where
  "valueAtPath node [] = node"
| "valueAtPath node (key # path) =
     (if isPlainObject node \<or> isArray node then valueAtPath (member node key) path else JUndef)"

definition headerKey :: "x_decl \<Rightarrow> string" where
  "headerKey decl = MCP_PARAM_HEADER_PREFIX @ dName decl"

text \<open>The value a declaration finds in the arguments, unless one of the loops' \<open>continue\<close>s applies.\<close>

definition carried :: "js \<Rightarrow> x_decl \<Rightarrow> (js \<times> string) option" where
  "carried args decl =
     (let raw = valueAtPath args (dPath decl) in
      if raw = JUndef \<or> raw = JNull then None
      else map_option (Pair raw) (mcpParamPrimitiveToString raw))"

definition buildMcpParamHeaders :: "x_decl list \<Rightarrow> js \<Rightarrow> (string \<times> ustr) list" where
  "buildMcpParamHeaders declarations args =
     fold (\<lambda>decl out.
        case carried args decl of
          None \<Rightarrow> out
        | Some (raw, stringValue) \<Rightarrow>
            AList.update (headerKey decl) (encodeMcpParamValue (units stringValue)) out)
       declarations []"

subsection \<open>Server side\<close>

text \<open>\<open>Headers.get\<close>: names compare without case, repeated fields are joined.\<close>

fun joinValues :: "ustr list \<Rightarrow> ustr" where
  "joinValues [] = []"
| "joinValues [v] = v"
| "joinValues (v # w # vs) = v @ units '', '' @ joinValues (w # vs)"

definition headersGet :: "(string \<times> ustr) list \<Rightarrow> string \<Rightarrow> ustr option" where
  "headersGet hs name =
     (case map snd (filter (\<lambda>h. toLowerCase (fst h) = toLowerCase name) hs) of
        [] \<Rightarrow> None | vs \<Rightarrow> Some (joinValues vs))"

text \<open>
  \<open>JSON.stringify\<close> of a primitive, for the rejection's text. A code unit above 255 is
  written as its escape, since the message type has none.
\<close>

definition hex_digit :: "nat \<Rightarrow> char" where
  "hex_digit n = (if n < 10 then char_of (48 + n) else char_of (87 + n))"

definition json_unit :: "nat \<Rightarrow> string" where
  "json_unit u =
     (if u = 34 then [char_of (92::nat), char_of (34::nat)]
      else if u = 92 then [char_of (92::nat), char_of (92::nat)]
      else if u = 8 then [char_of (92::nat), CHR ''b''] else if u = 9 then [char_of (92::nat), CHR ''t'']
      else if u = 10 then [char_of (92::nat), CHR ''n''] else if u = 12 then [char_of (92::nat), CHR ''f'']
      else if u = 13 then [char_of (92::nat), CHR ''r'']
      else if u < 32 \<or> 255 < u then
        [char_of (92::nat), CHR ''u'', hex_digit (u div 4096), hex_digit (u div 256 mod 16),
         hex_digit (u div 16 mod 16), hex_digit (u mod 16)]
      else [char_of u])"

definition json_string :: "ustr \<Rightarrow> string" where
  "json_string us = [char_of (34::nat)] @ concat (map json_unit us) @ [char_of (34::nat)]"

definition json_primitive :: "js \<Rightarrow> string" where
  "json_primitive v =
     (case v of JStr s \<Rightarrow> json_string (units s) | _ \<Rightarrow> or_else (mcpParamPrimitiveToString v) ''null'')"

definition paramHeaderMismatchRejection :: "string \<Rightarrow> string \<Rightarrow> string \<Rightarrow> rejection" where
  "paramHeaderMismatchRejection cell header bdy =
     \<lparr>rj_rung = ParamHeaderValidation, rj_cell = cell, rj_httpStatus = 400,
      rj_code = HEADER_MISMATCH_ERROR_CODE,
      rj_message = ''Bad Request: the request headers and body disagree: '' @ bdy,
      rj_data = JObj [(''mismatch'', JObj [(''header'', JStr header), (''body'', JStr bdy)])],
      rj_settled = True\<rparr>"

definition numericComparable :: "x_decl \<Rightarrow> ustr \<Rightarrow> js \<Rightarrow> bool" where
  "numericComparable decl decoded bodyRaw \<longleftrightarrow>
     (dType decl = ''integer'' \<or> dType decl = ''number'') \<and> CANONICAL_DECIMAL decoded
     \<and> (case bodyRaw of JNum _ \<Rightarrow> True | _ \<Rightarrow> False)"

definition numberEquals :: "ustr \<Rightarrow> js \<Rightarrow> bool" where
  "numberEquals decoded bodyRaw =
     (case bodyRaw of JNum n \<Rightarrow> doubleOf n \<noteq> None \<and> jsNumber decoded = doubleOf n | _ \<Rightarrow> False)"

definition missing_text :: "x_decl \<Rightarrow> js \<Rightarrow> string" where
  "missing_text decl bodyRaw =
     ''the body carries '' @ pathName (dPath decl) @ ''='' @ json_primitive bodyRaw @ '' but the ''
     @ headerKey decl @ '' header is absent''"

definition encoding_text :: "x_decl \<Rightarrow> string" where
  "encoding_text decl = ''the '' @ headerKey decl @ '' header carries an invalid Base64 sentinel value''"

definition mismatch_text :: "x_decl \<Rightarrow> ustr \<Rightarrow> js \<Rightarrow> string" where
  "mismatch_text decl decoded bodyRaw =
     ''the '' @ headerKey decl @ '' header decodes to '' @ json_string decoded
     @ '' but the body carries '' @ pathName (dPath decl) @ ''='' @ json_primitive bodyRaw"

text \<open>The loop body of \<open>validateMcpParamHeaders\<close>.\<close>

definition validateDecl :: "js \<Rightarrow> (string \<times> ustr) list \<Rightarrow> x_decl \<Rightarrow> rejection option" where
  "validateDecl args headers decl =
     (case carried args decl of
        None \<Rightarrow> None
      | Some (bodyRaw, bodyString) \<Rightarrow>
          (case headersGet headers (headerKey decl) of
             None \<Rightarrow>
               Some (paramHeaderMismatchRejection ''param-header-missing'' (headerKey decl)
                 (missing_text decl bodyRaw))
           | Some headerValue \<Rightarrow>
               (case decodeMcpParamValue headerValue of
                  None \<Rightarrow>
                    Some (paramHeaderMismatchRejection ''param-header-invalid-encoding'' (headerKey decl)
                      (encoding_text decl))
                | Some decoded \<Rightarrow>
                    let equal = (if numericComparable decl decoded bodyRaw then numberEquals decoded bodyRaw
                                 else decoded = units bodyString)
                    in if \<not> equal then
                         Some (paramHeaderMismatchRejection ''param-header-mismatch'' (headerKey decl)
                           (mismatch_text decl decoded bodyRaw))
                       else None)))"

fun validateMcpParamHeaders :: "x_decl list \<Rightarrow> js \<Rightarrow> (string \<times> ustr) list \<Rightarrow> rejection option" where
  "validateMcpParamHeaders [] args headers = None"
| "validateMcpParamHeaders (decl # decls) args headers =
     (case validateDecl args headers decl of
        Some r \<Rightarrow> Some r
      | None \<Rightarrow> validateMcpParamHeaders decls args headers)"

subsection \<open>Agreement of the two sides\<close>

lemma units_append [simp]: "units (a @ b) = units a @ units b"
  by (simp add: units_def)

lemma digits_value_snoc [simp]: "digits_value (us @ [u]) = digits_value us * 10 + (u - 48)"
  by (simp add: digits_value_def)

lemma units_digit: "n < 10 \<Longrightarrow> units [char_of (48 + n)] = [48 + n]"
  by (simp add: units_def code_def)

lemma digits_units: "digits_value (units (digits n)) = n \<and> list_all digit_unit (units (digits n))"
proof (induction n rule: digits.induct)
  case (1 n)
  show ?case
  proof (cases "n < 10")
    case True
    then show ?thesis
      by (subst (1 2) digits.simps) (simp add: units_digit digits_value_def digit_unit_def)
  next
    case False
    have u: "units [char_of (48 + n mod 10)] = [48 + n mod 10]" by (rule units_digit) simp
    show ?thesis using 1 [OF False] False
      by (subst (1 2) digits.simps) (simp add: u digit_unit_def [of "48 + n mod 10"])
  qed
qed

lemma units_digits_nonempty [simp]: "units (digits n) \<noteq> []"
  by (simp add: units_def)

lemma takeWhile_digits: "list_all digit_unit us \<Longrightarrow> takeWhile digit_unit us = us \<and> dropWhile digit_unit us = []"
  by (auto simp: list_all_iff takeWhile_eq_all_conv)

lemma digit_noteq: "list_all digit_unit us \<Longrightarrow> c \<notin> {48..57} \<Longrightarrow> c \<notin> set us"
  by (auto simp: list_all_iff digit_unit_def)

lemma unsigned_digits: "unsigned_decimal (units (digits n)) = Some (n, 0)"
  using digits_units [of n] takeWhile_digits [of "units (digits n)"]
  by (simp add: unsigned_decimal_def Let_def del: takeWhile_eq_all_conv dropWhile_eq_Nil_conv)

lemma canonical_show_int: "canonical_decimal (units (show_int n)) = Some (n < 0, nat \<bar>n\<bar>, 0)"
proof (cases "n < 0")
  case True
  then have "units (show_int n) = 45 # units (digits (nat \<bar>n\<bar>))" by (simp add: show_int_def units_def code_def)
  with True show ?thesis by (simp add: canonical_decimal_def unsigned_digits)
next
  case False
  have d: "list_all digit_unit (units (digits (nat n)))" using digits_units by blast
  obtain c s where cs: "units (digits (nat n)) = c # s" by (cases "units (digits (nat n))") auto
  then have "c \<noteq> 45" using d by (auto simp: digit_unit_def)
  then have "canonical_decimal (units (digits (nat n))) = map_option (Pair False) (unsigned_decimal (units (digits (nat n))))"
    by (simp add: canonical_decimal_def cs)
  with False show ?thesis by (simp add: show_int_def unsigned_digits)
qed

lemma canonical_no_e:
  assumes "canonical_decimal s = Some x" shows "101 \<notin> set s"
proof -
  have u: "101 \<notin> set t" if u: "unsigned_decimal t = Some y" for t y
  proof -
    have "101 \<notin> set (takeWhile digit_unit t)" by (auto dest!: set_takeWhileD simp: digit_unit_def)
    moreover have "101 \<notin> set (dropWhile digit_unit t)"
      using u by (cases "dropWhile digit_unit t")
        (auto simp: unsigned_decimal_def Let_def list_all_iff digit_unit_def simp del: dropWhile_eq_Nil_conv
          split: if_splits)
    ultimately show ?thesis by (metis Un_iff set_append takeWhile_dropWhile_id)
  qed
  show ?thesis using assms
    by (cases s) (auto simp: canonical_decimal_def simp del: list.set split: if_splits dest!: u, simp_all)
qed

lemma jsNumber_canonical:
  assumes "canonical_decimal s = Some (neg, n, k)"
  shows "jsNumber s = Some (nearest_double neg n (10 ^ k))"
proof -
  have e: "\<And>u. u \<in> set s \<Longrightarrow> u \<noteq> 101" using canonical_no_e [OF assms] by metis
  have tw: "takeWhile (\<lambda>u. u \<noteq> 101) s = s" using e by (simp add: takeWhile_eq_all_conv)
  have dw: "dropWhile (\<lambda>u. u \<noteq> 101) s = []" using e by simp
  show ?thesis unfolding jsNumber_def tw dw by (simp add: assms exponent_of_def digits_value_def)
qed

text \<open>\<open>Number(String(n)) === n\<close> wherever the comparison is numeric.\<close>

lemma numberEquals_self:
  assumes "mcpParamPrimitiveToString v = Some t" "numericComparable d (units t) v"
  shows "numberEquals (units t) v"
proof -
  obtain x where x: "canonical_decimal (units t) = Some x"
    using assms(2) by (auto simp: numericComparable_def CANONICAL_DECIMAL_def)
  obtain n where v: "v = JNum n" using assms(2) by (auto simp: numericComparable_def split: js.splits)
  show ?thesis
  proof (cases n)
    case (NInt i)
    then have "t = show_int i" using assms(1) v by (auto simp: mcpParamPrimitiveToString_def split: if_splits)
    then show ?thesis using v NInt jsNumber_canonical [OF canonical_show_int, of i] by (simp add: numberEquals_def)
  next
    case (NFrac u)
    then show ?thesis using assms(1) v jsNumber_canonical x
      by (cases x) (auto simp: mcpParamPrimitiveToString_def numberEquals_def)
  qed (use assms(1) v in \<open>simp_all add: mcpParamPrimitiveToString_def\<close>)
qed

lemma carried_text: "carried args d = Some (raw, t) \<Longrightarrow> mcpParamPrimitiveToString raw = Some t"
  by (auto simp: carried_def Let_def split: if_splits)

text \<open>What the server accepts for one declaration.\<close>

definition agrees :: "js \<Rightarrow> (string \<times> ustr) list \<Rightarrow> x_decl \<Rightarrow> bool" where
  "agrees args headers d =
     (case carried args d of
        None \<Rightarrow> True
      | Some (raw, t) \<Rightarrow>
          (case headersGet headers (headerKey d) of
             None \<Rightarrow> False
           | Some h \<Rightarrow>
               (case decodeMcpParamValue h of
                  None \<Rightarrow> False
                | Some v \<Rightarrow> if numericComparable d v raw then numberEquals v raw else v = units t)))"

lemma validateDecl_None: "validateDecl args hs d = None \<longleftrightarrow> agrees args hs d"
  by (auto simp: validateDecl_def agrees_def Let_def split: option.splits)

definition names_header :: "x_decl \<Rightarrow> rejection \<Rightarrow> bool" where
  "names_header d r \<longleftrightarrow> rj_rung r = ParamHeaderValidation \<and> rj_code r = HEADER_MISMATCH_ERROR_CODE
     \<and> rj_httpStatus r = 400 \<and> rj_settled r
     \<and> getp (getp (rj_data r) ''mismatch'') ''header'' = JStr (headerKey d)"

lemma names_header_mismatch: "names_header d (paramHeaderMismatchRejection cell (headerKey d) b)"
  by (simp add: names_header_def paramHeaderMismatchRejection_def)

lemma validateDecl_Some: "validateDecl args hs d = Some r \<Longrightarrow> names_header d r"
  unfolding validateDecl_def Let_def
  by (auto simp: names_header_mismatch split: option.splits if_splits)

lemma validate_None: "validateMcpParamHeaders ds args hs = None \<longleftrightarrow> list_all (agrees args hs) ds"
  by (induction ds) (auto simp: validateDecl_None [symmetric] split: option.splits)

lemma validate_Some: "validateMcpParamHeaders ds args hs = Some r \<Longrightarrow> list_ex (\<lambda>d. names_header d r) ds"
  by (induction ds) (auto split: option.splits dest: validateDecl_Some)

definition header_of :: "js \<Rightarrow> x_decl \<Rightarrow> (string \<times> ustr) list" where
  "header_of args d = (case carried args d of
     None \<Rightarrow> [] | Some (raw, t) \<Rightarrow> [(headerKey d, encodeMcpParamValue (units t))])"

lemma AList_update_absent: "k \<notin> fst ` set al \<Longrightarrow> AList.update k v al = al @ [(k, v)]"
  by (induction al) auto

lemma header_of_key: "h \<in> set (header_of args d) \<Longrightarrow> fst h = headerKey d"
  by (auto simp: header_of_def split: option.splits)

lemma build_eq:
  "distinct (map dName ds) \<Longrightarrow> buildMcpParamHeaders ds args = concat (map (header_of args) ds)"
proof (induction ds rule: rev_induct)
  case (snoc d ds)
  have "headerKey d \<notin> fst ` set (concat (map (header_of args) ds))"
    using snoc.prems by (auto simp: headerKey_def dest!: header_of_key)
  then show ?case using snoc
    by (auto simp: buildMcpParamHeaders_def header_of_def AList_update_absent split: option.splits)
qed (simp add: buildMcpParamHeaders_def)

lemma toLowerCase_append: "toLowerCase (a @ b) = toLowerCase a @ toLowerCase b"
  by (simp add: toLowerCase_def)

lemma built_header:
  assumes dist: "distinct (map (\<lambda>d. toLowerCase (dName d)) ds)" and d: "d \<in> set ds"
  shows "filter (\<lambda>h. toLowerCase (fst h) = toLowerCase (headerKey d)) (buildMcpParamHeaders ds args) = header_of args d"
proof -
  have key: "toLowerCase (headerKey e) = toLowerCase (headerKey d) \<longleftrightarrow> toLowerCase (dName e) = toLowerCase (dName d)" for e
    by (simp add: headerKey_def toLowerCase_append)
  have f: "filter (\<lambda>h. toLowerCase (fst h) = toLowerCase (headerKey d)) (header_of args e)
      = (if toLowerCase (dName e) = toLowerCase (dName d) then header_of args e else [])" for e
    by (auto simp: header_of_def key split: option.splits)
  have "distinct (map dName ds)" using dist by (auto simp: distinct_map inj_on_def)
  then have "filter (\<lambda>h. toLowerCase (fst h) = toLowerCase (headerKey d)) (buildMcpParamHeaders ds args)
      = concat (map (\<lambda>e. if toLowerCase (dName e) = toLowerCase (dName d) then header_of args e else []) ds)"
    by (simp add: build_eq filter_concat o_def f)
  also have "\<dots> = header_of args d"
    using dist d by (induction ds) (auto simp: rev_image_eqI)
  finally show ?thesis .
qed

text \<open>
  the comparison decides exactly the agreement of headers and body. It passes when every
  declared argument that carries a primitive has a header that decodes to it, and otherwise
  it refuses with the ladder's header-mismatch code and names the header of a declaration.
\<close>

theorem param_validation_exact:
  "case validateMcpParamHeaders ds args headers of
     None \<Rightarrow> list_all (agrees args headers) ds
   | Some r \<Rightarrow> list_ex (\<lambda>d. \<not> agrees args headers d) ds \<and> list_ex (\<lambda>d. names_header d r) ds \<and> rung_code_ok r"
proof (cases "validateMcpParamHeaders ds args headers")
  case (Some r)
  then have "\<not> list_all (agrees args headers) ds" by (simp flip: validate_None)
  moreover from Some have ex: "list_ex (\<lambda>d. names_header d r) ds" by (rule validate_Some)
  moreover from ex have "rung_code_ok r"
    by (auto simp: list_ex_iff names_header_def rung_code_ok_def INBOUND_VALIDATION_LADDER_def)
  ultimately show ?thesis using Some by (auto simp: list_ex_iff list_all_iff)
next
  case None
  then show ?thesis by (simp add: validate_None [symmetric])
qed

definition is_param_header :: "string \<times> ustr \<Rightarrow> bool" where
  "is_param_header h \<longleftrightarrow> startsWith (toLowerCase (fst h)) (toLowerCase MCP_PARAM_HEADER_PREFIX)"

lemma not_param_header:
  "\<not> is_param_header h \<Longrightarrow> toLowerCase (fst h) \<noteq> toLowerCase (headerKey d)"
  by (auto simp: is_param_header_def headerKey_def toLowerCase_append)

lemma built_agrees:
  assumes "distinct (map (\<lambda>d. toLowerCase (dName d)) ds)" and "d \<in> set ds"
    and "list_all (\<lambda>h. \<not> is_param_header h) others"
  shows "agrees args (others @ buildMcpParamHeaders ds args) d"
proof -
  have "filter (\<lambda>h. toLowerCase (fst h) = toLowerCase (headerKey d)) others = []"
    using assms(3) not_param_header by (auto simp: filter_empty_iff list_all_iff)
  then have "headersGet (others @ buildMcpParamHeaders ds args) (headerKey d)
      = map_option (\<lambda>(raw, t). encodeMcpParamValue (units t)) (carried args d)"
    using built_header [OF assms(1,2), of args]
    by (auto simp: headersGet_def header_of_def split: option.splits)
  then show ?thesis
    by (auto simp: agrees_def dest!: carried_text intro: numberEquals_self split: option.splits)
qed



end
