(* ===== verification/InboundClassification.thy ===== *)
theory InboundClassification
  imports McpParamValues
begin

text \<open>
  Classification of an inbound HTTP request into the two protocol eras
  (shared/envelope.ts, shared/inboundClassification.ts): the envelope claim, the
  standard-header validation, the body-primary classifier with its header cross-checks, and
  the strict mapping of a modern-only endpoint.

  The zod parse of the \<open>_meta\<close> envelope is a parameter: \<open>schemaIssues meta\<close> is the list of
  issues (path and message) of \<open>RequestMetaEnvelopeSchema.safeParse(meta)\<close>, empty when it
  succeeds.
\<close>

type_synonym issue = "string \<times> string"
type_synonym schema_issues = "obj \<Rightarrow> (string list \<times> string) list"

subsection \<open>The envelope\<close>

definition requestMetaOf :: "js \<Rightarrow> obj option" where
  "requestMetaOf params = (if isPlainObject params then obj_of (getp params ''_meta'') else None)"

definition hasEnvelopeClaim :: "js \<Rightarrow> bool" where
  "hasEnvelopeClaim params \<longleftrightarrow>
     (case requestMetaOf params of None \<Rightarrow> False | Some meta \<Rightarrow> ohas meta PROTOCOL_VERSION_META_KEY)"

definition envelopeClaimVersion :: "js \<Rightarrow> string option" where
  "envelopeClaimVersion params =
     (case requestMetaOf params of None \<Rightarrow> None | Some meta \<Rightarrow> str_of (oget meta PROTOCOL_VERSION_META_KEY))"

definition REQUIRED_ENVELOPE_KEYS :: "string list" where
  "REQUIRED_ENVELOPE_KEYS = [PROTOCOL_VERSION_META_KEY, CLIENT_CAPABILITIES_META_KEY]"

text \<open>The 2026 codec's \<open>validateEnvelopeMeta\<close>: missing keys first, then the schema's issues.\<close>

definition add_schema_issue :: "issue list \<Rightarrow> string list \<times> string \<Rightarrow> issue list" where
  "add_schema_issue issues i =
     (let path = fst i; key = (if path \<noteq> [] then join ''.'' path else ''_meta'') in
      if length path = 1 \<and> list_ex (\<lambda>e. fst e = key \<and> snd e = ''missing'') issues then issues
      else issues @ [(key, snd i)])"

definition validateEnvelopeMeta :: "schema_issues \<Rightarrow> obj \<Rightarrow> issue list" where
  "validateEnvelopeMeta schemaIssues meta =
     foldl add_schema_issue
       (map (\<lambda>key. (key, ''missing'')) (filter (\<lambda>key. \<not> ohas meta key) REQUIRED_ENVELOPE_KEYS))
       (schemaIssues meta)"

definition issue_js :: "issue \<Rightarrow> js" where
  "issue_js i = JObj [(''key'', JStr (fst i)), (''problem'', JStr (snd i))]"

subsection \<open>Standard headers\<close>

definition MCP_NAME_HEADER_SOURCE :: "(string \<times> string) list" where
  "MCP_NAME_HEADER_SOURCE =
     [(''tools/call'', ''name''), (''prompts/get'', ''name''), (''resources/read'', ''uri''),
      (''tasks/get'', ''taskId''), (''tasks/update'', ''taskId''), (''tasks/cancel'', ''taskId'')]"

definition mcpNameSource :: "string \<Rightarrow> js \<Rightarrow> (string \<times> string option) option" where
  "mcpNameSource m params =
     map_option (\<lambda>field. (field, str_of (if isPlainObject params then getp params field else JUndef)))
       (map_of MCP_NAME_HEADER_SOURCE m)"

definition is_ows :: "char \<Rightarrow> bool" where
  "is_ows c \<longleftrightarrow> code c = 9 \<or> code c = 32"

definition stripHttpOws :: "string \<Rightarrow> string" where
  "stripHttpOws value = rev (dropWhile is_ows (rev (dropWhile is_ows value)))"

text \<open>A decoded value inside a message; units above 255 are written as escapes.\<close>

definition show_units :: "ustr \<Rightarrow> string" where
  "show_units us = concat (map (\<lambda>u. if u < 256 then [char_of u] else json_unit u) us)"

definition quoted :: "string \<Rightarrow> string" where
  "quoted s = [char_of (34::nat)] @ s @ [char_of (34::nat)]"

definition standardHeaderMismatch :: "string \<Rightarrow> string \<Rightarrow> string \<Rightarrow> rejection option" where
  "standardHeaderMismatch cell header bdy = Some (crossCheckMismatch cell header bdy StandardHeaderValidation)"

text \<open>The \<open>Mcp-Name\<close> part of \<open>validateStandardRequestHeaders\<close>.\<close>

definition validateNameHeader :: "string option \<Rightarrow> string \<Rightarrow> string option \<Rightarrow> rejection option" where
  "validateNameHeader nameHeader sourceField bodyValue =
     (case nameHeader of
        None \<Rightarrow>
          (case bodyValue of
             None \<Rightarrow> None
           | Some v \<Rightarrow> standardHeaderMismatch ''name-header-missing'' ''(missing)''
               (''the body carries params.'' @ sourceField @ ''='' @ quoted v @ '' but the required Mcp-Name header is absent''))
      | Some h \<Rightarrow>
          (let normalizedNameHeader = stripHttpOws h in
           case decodeMcpParamValue (units normalizedNameHeader) of
             None \<Rightarrow> standardHeaderMismatch ''name-header-invalid-encoding'' normalizedNameHeader
               ''the Mcp-Name header carries an invalid Base64 sentinel value''
           | Some decoded \<Rightarrow>
               (case bodyValue of
                  None \<Rightarrow> None
                | Some v \<Rightarrow>
                    if decoded \<noteq> units v then
                      standardHeaderMismatch ''name-header-mismatch'' normalizedNameHeader
                        (''the body carries params.'' @ sourceField @ ''='' @ quoted v
                         @ '' but the Mcp-Name header names '' @ quoted (show_units decoded))
                    else None)))"

definition validateStandardRequestHeaders :: "inbound_http_request \<Rightarrow> modern_route \<Rightarrow> rejection option" where
  "validateStandardRequestHeaders request route =
     (if mr_messageKind route \<noteq> K_request then None
      else
        let m = methodOf (mr_message route) in
        if protocolVersionHeader request = None then
          standardHeaderMismatch ''version-header-missing'' ''(missing)''
            (case mc_revision (mr_classification route) of
               None \<Rightarrow> ''the body carries a modern per-request envelope but the required MCP-Protocol-Version header is absent''
             | Some claimed \<Rightarrow> ''the body envelope names protocol version '' @ claimed
                 @ '' but the required MCP-Protocol-Version header is absent'')
        else if mcpMethodHeader request = None then
          standardHeaderMismatch ''method-header-missing'' ''(missing)''
            (''the body names method '' @ m @ '' but the required Mcp-Method header is absent'')
        else
          (case mcpNameSource m (paramsOf (mr_message route)) of
             None \<Rightarrow> None
           | Some (sourceField, bodyValue) \<Rightarrow> validateNameHeader (mcpNameHeader request) sourceField bodyValue))"

subsection \<open>The classifier\<close>

definition classificationForClaim :: "string option \<Rightarrow> message_classification" where
  "classificationForClaim claimedVersion =
     (case claimedVersion of
        None \<Rightarrow> \<lparr>mc_era = Modern, mc_revision = None\<rparr>
      | Some v \<Rightarrow> \<lparr>mc_era = (if isModernProtocolVersion v then Modern else Legacy), mc_revision = Some v\<rparr>)"

definition carriesValidModernEnvelopeClaim :: "schema_issues \<Rightarrow> js \<Rightarrow> bool" where
  "carriesValidModernEnvelopeClaim schemaIssues params \<longleftrightarrow>
     hasEnvelopeClaim params
     \<and> (case envelopeClaimVersion params of None \<Rightarrow> False | Some v \<Rightarrow> isModernProtocolVersion v)
     \<and> (case requestMetaOf params of None \<Rightarrow> False | Some meta \<Rightarrow> validateEnvelopeMeta schemaIssues meta = [])"

definition invalidRequestRejection :: "string \<Rightarrow> string \<Rightarrow> classification_outcome" where
  "invalidRequestRejection cell message =
     Reject (rejection JsonrpcShape cell 400 (protocolError (pcode InvalidRequest) message JUndef) True)"

text \<open>The loop of \<open>classifyBatch\<close> over the elements.\<close>

fun classifyBatchElements :: "js list \<Rightarrow> classification_outcome" where
  "classifyBatchElements [] = LegacyRoute \<lparr>lr_reason = R_batch, lr_requestedVersion = None\<rparr>"
| "classifyBatchElements (element # rest) =
     (let params = (if isPlainObject element then getp element ''params'' else JUndef) in
      if hasEnvelopeClaim params then
        invalidRequestRejection ''batch-with-modern-element''
          ''Bad Request: JSON-RPC batches may not contain requests for protocol revision 2026-07-28 or later''
      else if \<not> (isJSONRPCRequest element \<or> isJSONRPCNotification element
                 \<or> isJSONRPCResultResponse element \<or> isJSONRPCErrorResponse element) then
        invalidRequestRejection ''batch-with-invalid-element''
          ''Bad Request: JSON-RPC batch contains an invalid message''
      else classifyBatchElements rest)"

definition classifyBatch :: "js list \<Rightarrow> classification_outcome" where
  "classifyBatch bdy =
     (if length bdy = 0 then invalidRequestRejection ''empty-batch'' ''Bad Request: empty JSON-RPC batch''
      else classifyBatchElements bdy)"

definition headerNamesModern :: "inbound_http_request \<Rightarrow> bool" where
  "headerNamesModern request =
     (case protocolVersionHeader request of None \<Rightarrow> False | Some v \<Rightarrow> isModernProtocolVersion v)"

definition envelopeRejection :: "string \<Rightarrow> issue \<Rightarrow> classification_outcome" where
  "envelopeRejection cell i =
     Reject (rejection Envelope cell 400
       (protocolError (pcode InvalidParams)
          (''Invalid _meta envelope for protocol revision 2026-07-28: '' @ fst i @ '': '' @ snd i)
          (JObj [(''envelope'', issue_js i)])) True)"

definition eraMismatch :: "string \<Rightarrow> string \<Rightarrow> string \<Rightarrow> classification_outcome" where
  "eraMismatch cell header bdy = Reject (crossCheckMismatch cell header bdy EraClassification)"

text \<open>A header that is present and differs from a value.\<close>

definition disagrees :: "string option \<Rightarrow> string \<Rightarrow> bool" where
  "disagrees h v \<longleftrightarrow> h \<noteq> None \<and> h \<noteq> Some v"

definition envelopeIssuesOf :: "schema_issues \<Rightarrow> js \<Rightarrow> issue list" where
  "envelopeIssuesOf schemaIssues params =
     (case requestMetaOf params of None \<Rightarrow> [] | Some meta \<Rightarrow> validateEnvelopeMeta schemaIssues meta)"

text \<open>The branch of \<open>classifyRequestBody\<close> for a present claim.\<close>

definition classifyClaimedRequest :: "schema_issues \<Rightarrow> inbound_http_request \<Rightarrow> js \<Rightarrow> classification_outcome" where
  "classifyClaimedRequest schemaIssues request bdy =
     (let params = paramsOf bdy; m = methodOf bdy; claimedVersion = envelopeClaimVersion params in
      case envelopeIssuesOf schemaIssues params of
        firstIssue # _ \<Rightarrow> envelopeRejection ''envelope-invalid'' firstIssue
      | [] \<Rightarrow>
          if claimedVersion \<noteq> None \<and> disagrees (protocolVersionHeader request) (the claimedVersion) then
            eraMismatch ''header-body-version-mismatch'' (the (protocolVersionHeader request))
              (''the body envelope names protocol version '' @ the claimedVersion
               @ '' but the MCP-Protocol-Version header names '' @ the (protocolVersionHeader request))
          else if disagrees (mcpMethodHeader request) m then
            eraMismatch ''method-header-mismatch'' (the (mcpMethodHeader request))
              (''the body names method '' @ m @ '' but the Mcp-Method header names '' @ the (mcpMethodHeader request))
          else ModernRoute \<lparr>mr_messageKind = K_request, mr_message = bdy,
                 mr_classification = classificationForClaim claimedVersion\<rparr>)"

text \<open>The rejection of a modern header over a body without a claim.\<close>

definition missingEnvelopeKeys :: "schema_issues \<Rightarrow> js \<Rightarrow> string list" where
  "missingEnvelopeKeys schemaIssues params =
     (let meta = requestMetaOf params;
          missingFromEnvelope = map fst (filter (\<lambda>i. snd i = ''missing'')
            (validateEnvelopeMeta schemaIssues (or_else meta [])))
      in if meta = None then [''_meta'']
         else if missingFromEnvelope \<noteq> [] then missingFromEnvelope else [PROTOCOL_VERSION_META_KEY])"

definition modernHeaderWithoutClaim :: "schema_issues \<Rightarrow> string \<Rightarrow> js \<Rightarrow> classification_outcome" where
  "modernHeaderWithoutClaim schemaIssues headerVersion params =
     (let missing = missingEnvelopeKeys schemaIssues params in
      Reject (rejection Envelope ''modern-header-without-claim'' 400
        (protocolError (pcode InvalidParams)
          (''Invalid params: the MCP-Protocol-Version header names protocol revision '' @ headerVersion
           @ '', but the request is missing the required per-request envelope key(s): '' @ join '', '' missing)
          (JObj [(''envelope'', JObj [(''missing'', JArr (map JStr missing))])])) True))"

definition classifyRequestBody :: "schema_issues \<Rightarrow> inbound_http_request \<Rightarrow> js \<Rightarrow> classification_outcome" where
  "classifyRequestBody schemaIssues request bdy =
     (let params = paramsOf bdy; m = methodOf bdy in
      if m = ''initialize'' \<and> \<not> carriesValidModernEnvelopeClaim schemaIssues params then
        (if headerNamesModern request then
           eraMismatch ''initialize-with-modern-header'' (the (protocolVersionHeader request))
             ''an initialize request (legacy handshake) was sent with a modern MCP-Protocol-Version header''
         else LegacyRoute \<lparr>lr_reason = R_initialize,
                lr_requestedVersion = (if isPlainObject params then str_of (getp params ''protocolVersion'') else None)\<rparr>)
      else if hasEnvelopeClaim params then classifyClaimedRequest schemaIssues request bdy
      else if headerNamesModern request then
        modernHeaderWithoutClaim schemaIssues (the (protocolVersionHeader request)) params
      else LegacyRoute \<lparr>lr_reason = R_no_claim, lr_requestedVersion = protocolVersionHeader request\<rparr>)"

definition notificationMethodMismatch :: "string \<Rightarrow> string \<Rightarrow> classification_outcome" where
  "notificationMethodMismatch header m =
     eraMismatch ''notification-method-header-mismatch'' header
       (''the notification body names method '' @ m @ '' but the Mcp-Method header names '' @ header)"

text \<open>The branch of \<open>classifyNotificationBody\<close> for a present claim.\<close>

definition classifyClaimedNotification :: "schema_issues \<Rightarrow> inbound_http_request \<Rightarrow> js \<Rightarrow> classification_outcome" where
  "classifyClaimedNotification schemaIssues request bdy =
     (let params = paramsOf bdy; m = methodOf bdy in
      case envelopeClaimVersion params of
        None \<Rightarrow>
          envelopeRejection ''notification-envelope-invalid''
            (or_else (List.find (\<lambda>i. fst i = PROTOCOL_VERSION_META_KEY) (envelopeIssuesOf schemaIssues params))
               (PROTOCOL_VERSION_META_KEY, ''expected a protocol version string''))
      | Some claimedVersion \<Rightarrow>
          if disagrees (protocolVersionHeader request) claimedVersion then
            eraMismatch ''notification-header-body-version-mismatch'' (the (protocolVersionHeader request))
              (''the notification envelope names protocol version '' @ claimedVersion
               @ '' but the MCP-Protocol-Version header names '' @ the (protocolVersionHeader request))
          else
            let classification = classificationForClaim (Some claimedVersion) in
            if mc_era classification = Modern \<and> disagrees (mcpMethodHeader request) m then
              notificationMethodMismatch (the (mcpMethodHeader request)) m
            else ModernRoute \<lparr>mr_messageKind = K_notification, mr_message = bdy, mr_classification = classification\<rparr>)"

definition classifyNotificationBody :: "schema_issues \<Rightarrow> inbound_http_request \<Rightarrow> js \<Rightarrow> classification_outcome" where
  "classifyNotificationBody schemaIssues request bdy =
     (let params = paramsOf bdy; m = methodOf bdy in
      if hasEnvelopeClaim params then classifyClaimedNotification schemaIssues request bdy
      else if headerNamesModern request then
        (if disagrees (mcpMethodHeader request) m then
           notificationMethodMismatch (the (mcpMethodHeader request)) m
         else ModernRoute \<lparr>mr_messageKind = K_notification, mr_message = bdy,
                mr_classification = \<lparr>mc_era = Modern, mc_revision = protocolVersionHeader request\<rparr>\<rparr>)
      else LegacyRoute \<lparr>lr_reason = R_notification, lr_requestedVersion = protocolVersionHeader request\<rparr>)"

definition normalizeRequest :: "inbound_http_request \<Rightarrow> inbound_http_request" where
  "normalizeRequest request = request
     \<lparr>protocolVersionHeader := map_option stripHttpOws (protocolVersionHeader request),
      mcpMethodHeader := map_option stripHttpOws (mcpMethodHeader request),
      mcpNameHeader := map_option stripHttpOws (mcpNameHeader request)\<rparr>"

definition classifyBody :: "schema_issues \<Rightarrow> inbound_http_request \<Rightarrow> js \<Rightarrow> classification_outcome" where
  "classifyBody schemaIssues request bdy =
     (if isJSONRPCResultResponse bdy \<or> isJSONRPCErrorResponse bdy then
        LegacyRoute \<lparr>lr_reason = R_response, lr_requestedVersion = None\<rparr>
      else if isPlainObject bdy \<and> isJSONRPCRequest bdy then classifyRequestBody schemaIssues request bdy
      else if isPlainObject bdy \<and> isJSONRPCNotification bdy then classifyNotificationBody schemaIssues request bdy
      else invalidRequestRejection ''invalid-json-rpc-body'' ''Bad Request: the request body is not a valid JSON-RPC message'')"

definition classifyInboundRequest :: "schema_issues \<Rightarrow> inbound_http_request \<Rightarrow> classification_outcome" where
  "classifyInboundRequest schemaIssues request0 =
     (let request = normalizeRequest request0 in
      if toUpperCase (httpMethod request) \<noteq> ''POST'' then
        LegacyRoute \<lparr>lr_reason = R_http_method, lr_requestedVersion = None\<rparr>
      else
        (case body request of
           JArr elements \<Rightarrow> classifyBatch elements
         | bdy \<Rightarrow> classifyBody schemaIssues request bdy))"

definition modernOnlyStrictRejection :: "legacy_route \<Rightarrow> string list \<Rightarrow> rejection option" where
  "modernOnlyStrictRejection route supportedVersions =
     (let supported = JArr (map JStr supportedVersions) in
      case lr_reason route of
        R_http_method \<Rightarrow>
          Some (rejection HttpMethod ''modern-only-method-not-allowed'' 405
            (protocolError (-32000) ''Method not allowed.'' JUndef) True)
      | R_batch \<Rightarrow>
          Some (rejection JsonrpcShape ''modern-only-batch-not-supported'' 400
            (protocolError (pcode InvalidRequest) ''Bad Request: JSON-RPC batches are not supported by this endpoint'' JUndef) True)
      | R_response \<Rightarrow>
          Some (rejection JsonrpcShape ''modern-only-response-post'' 400
            (protocolError (pcode InvalidRequest) ''Bad Request: JSON-RPC responses cannot be posted to this endpoint'' JUndef) True)
      | R_notification \<Rightarrow> None
      | _ \<Rightarrow>
          Some (rejection EraClassification ''modern-only-missing-envelope'' 400
            (case lr_requestedVersion route of
               None \<Rightarrow> protocolError (pcode UnsupportedProtocolVersion)
                 ''Unsupported protocol version: the request did not name a protocol version''
                 (JObj [(''supported'', supported)])
             | Some requested \<Rightarrow>
                 unsupportedProtocolVersionError supported requested (unsupportedVersionMessage requested)) True))"

subsection \<open>The client's standard headers\<close>

text \<open>
  \<open>_applyBodyDerivedHeaders\<close> of the client's HTTP transport (client/streamableHttp.ts) for a
  single request, as the request the server's entry extracts from its POST. The headers of
  the connection (\<open>version\<close>) are kept when the message carries no claim.
\<close>

definition bodyDerivedRequest :: "string option \<Rightarrow> js \<Rightarrow> inbound_http_request" where
  "bodyDerivedRequest version message =
     (let base = \<lparr>httpMethod = ''POST'', protocolVersionHeader = version, mcpMethodHeader = None,
                  mcpNameHeader = None, body = message\<rparr> in
      if \<not> isJSONRPCRequest message then base
      else
        (case envelopeClaimVersion (paramsOf message) of
           None \<Rightarrow> base
         | Some envelopeVersion \<Rightarrow>
             base\<lparr>protocolVersionHeader := Some envelopeVersion,
                  mcpMethodHeader := Some (methodOf message),
                  mcpNameHeader :=
                    (case mcpNameSource (methodOf message) (paramsOf message) of
                       Some (_, Some v) \<Rightarrow> Some (latin1 (encodeMcpParamValue (units v)))
                     | _ \<Rightarrow> None)\<rparr>))"

subsection \<open>Facts about the parts\<close>

lemma stripHttpOws_id: "s = [] \<or> \<not> is_ows (hd s) \<and> \<not> is_ows (last s) \<Longrightarrow> stripHttpOws s = s"
  by (auto simp: stripHttpOws_def dropWhile_eq_self_iff [THEN iffD2] hd_rev)

lemma dropWhile_all: "list_all P a \<Longrightarrow> dropWhile P (a @ s) = dropWhile P s"
  by (induction a) auto

lemma rev_dropWhile_rev_append:
  "list_all P b \<Longrightarrow> rev (dropWhile P (rev (s @ b))) = rev (dropWhile P (rev s))"
  by (simp add: dropWhile_all)

lemma dropWhile_append_right:
  "list_all P b \<Longrightarrow> rev (dropWhile P (rev (dropWhile P (s @ b)))) = rev (dropWhile P (rev (dropWhile P s)))"
proof (cases "dropWhile P s = []")
  case True
  assume "list_all P b"
  moreover from True have "list_all P s" by (simp add: list_all_iff)
  ultimately have "dropWhile P (s @ b) = []" by (auto simp: list_all_iff)
  then show ?thesis by (simp only: True)
next
  case False
  assume b: "list_all P b"
  from False have "dropWhile P (s @ b) = dropWhile P s @ b"
    by (auto simp: dropWhile_append)
  then show ?thesis using b by (simp add: dropWhile_all)
qed

lemma stripHttpOws_pad: "list_all is_ows a \<Longrightarrow> list_all is_ows b \<Longrightarrow> stripHttpOws (a @ s @ b) = stripHttpOws s"
  by (simp add: stripHttpOws_def dropWhile_all dropWhile_append_right)

lemma stripHttpOws_idem [simp]: "stripHttpOws (stripHttpOws s) = stripHttpOws s"
proof -
  let ?u = "dropWhile is_ows s"
  have "rev (dropWhile is_ows (rev ?u)) = [] \<or> \<not> is_ows (hd (rev (dropWhile is_ows (rev ?u))))
      \<and> \<not> is_ows (last (rev (dropWhile is_ows (rev ?u))))"
  proof (cases "dropWhile is_ows (rev ?u) = []")
    case False
    then have l: "\<not> is_ows (hd (dropWhile is_ows (rev ?u)))" by (rule hd_dropWhile)
    obtain w where "rev ?u = w @ dropWhile is_ows (rev ?u)" by (metis takeWhile_dropWhile_id)
    then have pre: "?u = rev (dropWhile is_ows (rev ?u)) @ rev w" by (metis rev_append rev_rev_ident)
    have "?u \<noteq> []" using False by (metis dropWhile.simps(1) rev.simps(1))
    then have "\<not> is_ows (hd ?u)" by (rule hd_dropWhile)
    moreover have "hd ?u = hd (rev (dropWhile is_ows (rev ?u)))" using False by (subst pre) simp
    ultimately show ?thesis using l False by (simp add: last_rev)
  qed simp
  then show ?thesis unfolding stripHttpOws_def [of s] by (rule stripHttpOws_id)
qed

lemma hasEnvelopeClaim_meta: "hasEnvelopeClaim params \<Longrightarrow> \<exists>meta. requestMetaOf params = Some meta"
  by (auto simp: hasEnvelopeClaim_def split: option.splits)

lemma envelopeClaimVersion_claim: "envelopeClaimVersion params = Some v \<Longrightarrow> hasEnvelopeClaim params"
  by (auto simp: envelopeClaimVersion_def hasEnvelopeClaim_def split: option.splits intro!: ohas_of_oget)

lemma envelopeIssues_valid:
  "hasEnvelopeClaim params \<Longrightarrow>
     (case requestMetaOf params of None \<Rightarrow> False | Some meta \<Rightarrow> validateEnvelopeMeta si meta = [])
     = (envelopeIssuesOf si params = [])"
  by (auto simp: envelopeIssuesOf_def hasEnvelopeClaim_def split: option.splits)

text \<open>What each edge rejection is, in the terms of the ladder table.\<close>

definition edge_rejection :: "rejection \<Rightarrow> bool" where
  "edge_rejection r \<longleftrightarrow> rj_httpStatus r = 400 \<and> rj_settled r \<and> rj_rung r \<le> Envelope
     \<and> list_ex (\<lambda>d. rd_rung d = rj_rung r \<and> rd_evaluatedAt d = Edge \<and> rj_code r \<in> set (rd_codes d))
         INBOUND_VALIDATION_LADDER"

definition conforms :: "classification_outcome \<Rightarrow> bool" where
  "conforms c \<longleftrightarrow> (case c of Reject r \<Rightarrow> edge_rejection r | _ \<Rightarrow> True)"

lemma conforms_route [simp]: "conforms (LegacyRoute l)" "conforms (ModernRoute m)"
  by (simp_all add: conforms_def)

lemma conforms_rejections [simp]:
  "conforms (invalidRequestRejection cell m)" "conforms (envelopeRejection cell i)"
  "conforms (eraMismatch cell h b)" "conforms (modernHeaderWithoutClaim si v p)"
  by (simp_all add: conforms_def edge_rejection_def invalidRequestRejection_def envelopeRejection_def
      eraMismatch_def modernHeaderWithoutClaim_def Let_def crossCheckMismatch_def INBOUND_VALIDATION_LADDER_def less_eq_rung_def)

lemma conforms_batch [simp]: "conforms (classifyBatch es)"
proof -
  have "conforms (classifyBatchElements es)"
    by (induction es) (simp_all add: Let_def)
  then show ?thesis by (simp add: classifyBatch_def)
qed

lemma conforms_request [simp]: "conforms (classifyRequestBody si r b)"
  by (simp add: classifyRequestBody_def classifyClaimedRequest_def Let_def split: list.split)

lemma conforms_notification [simp]: "conforms (classifyNotificationBody si r b)"
  by (simp add: classifyNotificationBody_def classifyClaimedNotification_def notificationMethodMismatch_def
      Let_def split: option.split)

text \<open>
  every rejection of the classifier is one the ladder table declares for an edge rung:
  the rung comes no later than the envelope rung, its code is among the rung's codes, it is
  settled, and it is sent with HTTP 400.
\<close>

theorem classifier_conforms_to_ladder:
  "conforms (classifyInboundRequest schemaIssues request)"
  by (simp add: classifyInboundRequest_def classifyBody_def Let_def split: js.split)

text \<open>
  a modern-only endpoint answers every legacy route except a notification, with a code
  the ladder table declares for the rung it names.
\<close>

theorem strict_rejection_conforms:
  "case modernOnlyStrictRejection route supported of
     None \<Rightarrow> lr_reason route = R_notification
   | Some r \<Rightarrow> rung_code_ok r \<and> lr_reason route \<noteq> R_notification
       \<and> (rj_httpStatus r = 405 \<longleftrightarrow> lr_reason route = R_http_method)"
  by (cases "lr_reason route"; cases "lr_requestedVersion route")
    (simp_all add: modernOnlyStrictRejection_def Let_def rung_code_ok_def INBOUND_VALIDATION_LADDER_def
      unsupportedProtocolVersionError_def)

lemma classify_post:
  "toUpperCase (httpMethod r) = ''POST'' \<Longrightarrow> \<not> isArray (body r)
     \<Longrightarrow> classifyInboundRequest si r = classifyBody si (normalizeRequest r) (body r)"
  by (cases "body r") (simp_all add: classifyInboundRequest_def normalizeRequest_def)

lemma classifyBody_request:
  "isJSONRPCRequest b \<Longrightarrow> classifyBody si r b = classifyRequestBody si r b"
  using method_not_response [of b] request_object [of b] by (simp add: classifyBody_def)

lemma request_not_array: "isJSONRPCRequest b \<Longrightarrow> \<not> isArray b"
  using request_object [of b] by (cases b) simp_all

text \<open>What a modern route of a request body guarantees.\<close>

lemma classifyRequestBody_modern:
  assumes "classifyRequestBody si r b = ModernRoute mr"
  shows "hasEnvelopeClaim (paramsOf b) \<and> envelopeIssuesOf si (paramsOf b) = []
    \<and> mr = \<lparr>mr_messageKind = K_request, mr_message = b,
             mr_classification = classificationForClaim (envelopeClaimVersion (paramsOf b))\<rparr>
    \<and> \<not> disagrees (mcpMethodHeader r) (methodOf b)
    \<and> (envelopeClaimVersion (paramsOf b) \<noteq> None \<longrightarrow>
         \<not> disagrees (protocolVersionHeader r) (the (envelopeClaimVersion (paramsOf b))))"
  using assms
  by (auto simp: classifyRequestBody_def classifyClaimedRequest_def Let_def invalidRequestRejection_def
      envelopeRejection_def eraMismatch_def modernHeaderWithoutClaim_def split: if_splits list.splits)

lemma classifyNotificationBody_modern:
  assumes "classifyNotificationBody si r b = ModernRoute mr"
  shows "mr_messageKind mr = K_notification \<and> mr_message mr = b"
  using assms
  by (auto simp: classifyNotificationBody_def classifyClaimedNotification_def Let_def
      notificationMethodMismatch_def envelopeRejection_def eraMismatch_def
      split: if_splits option.splits)

lemma batch_not_modern: "classifyBatch es \<noteq> ModernRoute mr"
proof -
  have "classifyBatchElements es \<noteq> ModernRoute mr"
    by (induction es) (simp_all add: Let_def invalidRequestRejection_def)
  then show ?thesis by (simp add: classifyBatch_def invalidRequestRejection_def)
qed

lemma classify_modern_body:
  assumes "classifyInboundRequest si r = ModernRoute mr"
  shows "toUpperCase (httpMethod r) = ''POST''" "\<not> isArray (body r)"
    "classifyBody si (normalizeRequest r) (body r) = ModernRoute mr"
  using assms
  by (auto simp: classifyInboundRequest_def Let_def normalizeRequest_def batch_not_modern
      split: if_splits js.splits)

lemma classifyBody_modern:
  assumes "classifyBody si r b = ModernRoute mr"
  shows "isJSONRPCRequest b \<and> classifyRequestBody si r b = ModernRoute mr
    \<or> isJSONRPCNotification b \<and> classifyNotificationBody si r b = ModernRoute mr"
  using assms by (auto simp: classifyBody_def invalidRequestRejection_def split: if_splits)


text \<open>The routing part of an outcome: everything but the version a legacy route echoes.\<close>

definition routing :: "classification_outcome \<Rightarrow> (legacy_route_reason + modern_route) option" where
  "routing c = (case c of LegacyRoute l \<Rightarrow> Some (Inl (lr_reason l)) | ModernRoute m \<Rightarrow> Some (Inr m) | Reject _ \<Rightarrow> None)"

lemma routing_simps [simp]:
  "routing (LegacyRoute l) = Some (Inl (lr_reason l))" "routing (ModernRoute m) = Some (Inr m)"
  "routing (Reject r) = None"
  "routing (eraMismatch cell h b) = None" "routing (modernHeaderWithoutClaim si v p) = None"
  "routing (envelopeRejection cell i) = None" "routing (invalidRequestRejection cell msg) = None"
  by (simp_all add: routing_def eraMismatch_def modernHeaderWithoutClaim_def Let_def envelopeRejection_def
      invalidRequestRejection_def)

definition bodyRouting :: "schema_issues \<Rightarrow> js \<Rightarrow> (legacy_route_reason + modern_route) option" where
  "bodyRouting si b = routing (classifyRequestBody si
     \<lparr>httpMethod = ''POST'', protocolVersionHeader = None, mcpMethodHeader = None, mcpNameHeader = None, body = b\<rparr> b)"

lemma request_routing: "routing (classifyRequestBody si r b) \<in> {None, bodyRouting si b}"
  by (auto simp: bodyRouting_def classifyRequestBody_def classifyClaimedRequest_def Let_def headerNamesModern_def
      disagrees_def split: list.split option.split)

text \<open>
  C9: classification is body-primary. Whatever headers accompany a posted request, they
  can make the classifier refuse it but never move it to a different route: the routing is
  the one the body alone gets.
\<close>

theorem headers_never_reroute_requests:
  assumes "isJSONRPCRequest (body request)" and "toUpperCase (httpMethod request) = ''POST''"
  shows "routing (classifyInboundRequest schemaIssues request) \<in> {None, bodyRouting schemaIssues (body request)}"
proof -
  have "classifyInboundRequest schemaIssues request
      = classifyRequestBody schemaIssues (normalizeRequest request) (body request)"
    using assms by (simp add: classify_post classifyBody_request request_not_array)
  then show ?thesis using request_routing by simp
qed

subsection \<open>A concrete request\<close>

definition demo_meta :: obj where
  "demo_meta = [(PROTOCOL_VERSION_META_KEY, JStr ''2026-07-28''), (CLIENT_CAPABILITIES_META_KEY, JObj [])]"

definition demo_message :: js where
  "demo_message = JObj [(''jsonrpc'', JStr ''2.0''), (''id'', JNum (NInt 1)), (''method'', JStr ''tools/call''),
     (''params'', JObj [(''name'', JStr '' a''), (''_meta'', JObj demo_meta)])]"

lemma demo_parts:
  "paramsOf demo_message = JObj [(''name'', JStr '' a''), (''_meta'', JObj demo_meta)]"
  "methodOf demo_message = ''tools/call''"
  "requestMetaOf (paramsOf demo_message) = Some demo_meta"
  "envelopeClaimVersion (paramsOf demo_message) = Some ''2026-07-28''"
  by (simp_all add: paramsOf_def methodOf_def demo_message_def requestMetaOf_def envelopeClaimVersion_def demo_meta_def)

lemma demo_is_request: "isJSONRPCRequest demo_message"
  by (simp add: isJSONRPCRequest_def strictKeys_def demo_message_def okeys_def JSONRPC_VERSION_def requestIdOk_def
      MAX_SAFE_INTEGER_def baseParamsOk_def requestMetaOk_def demo_meta_def meta_key_defs RELATED_TASK_META_KEY_def)

lemma demo_issues: "envelopeIssuesOf (\<lambda>_. []) (paramsOf demo_message) = []"
  unfolding envelopeIssuesOf_def demo_parts(3)
  by (simp add: validateEnvelopeMeta_def REQUIRED_ENVELOPE_KEYS_def demo_meta_def)

lemma demo_modern: "isModernProtocolVersion ''2026-07-28''"
  by (simp add: isModernProtocolVersion_def FIRST_MODERN_PROTOCOL_VERSION_def)

subsection \<open>Client and server agree\<close>

lemma safe_latin1:
  assumes "safe_field_value us"
  shows "units (latin1 us) = us" "stripHttpOws (latin1 us) = latin1 us"
proof -
  have ne: "us \<noteq> []" and f: "\<And>u. u \<in> set us \<Longrightarrow> field_unit u" and tr: "utrim us = us"
    using assms by (auto simp: safe_field_value_def list_all_iff)
  have lt: "u < 256" if "u \<in> set us" for u using f [OF that] by (auto simp: field_unit_def)
  then show "units (latin1 us) = us"
    by (auto simp: units_def latin1_def code_def o_def intro!: map_idI)
  have c: "is_ows (char_of u) \<longrightarrow> js_space u" if "u \<in> set us" for u
    using lt [OF that] by (auto simp: is_ows_def code_def js_space_def)
  have "dropWhile js_space us = us"
  proof (rule ccontr)
    assume "dropWhile js_space us \<noteq> us"
    then have "length (dropWhile js_space us) < length us"
      by (metis length_append less_add_same_cancel2 length_greater_0_conv self_append_conv2 takeWhile_dropWhile_id)
    moreover have "length (utrim us) \<le> length (dropWhile js_space us)"
      by (simp add: utrim_def) (metis length_dropWhile_le length_rev)
    ultimately show False using tr by simp
  qed
  then have h: "\<not> js_space (hd us)" "\<not> js_space (last us)"
    using ne tr unfolding utrim_def
    by (metis hd_dropWhile, metis hd_dropWhile hd_rev rev_is_Nil_conv rev_rev_ident)
  then have "\<not> is_ows (hd (latin1 us))" "\<not> is_ows (last (latin1 us))"
    using c [of "hd us"] c [of "last us"] ne by (simp_all add: latin1_def hd_map last_map)
  then show "stripHttpOws (latin1 us) = latin1 us" by (intro stripHttpOws_id disjI2) simp
qed

lemmas encoded_header = safe_latin1 [OF encoded_safe [OF units_well_formed(1)]]

lemma name_header_agrees:
  "validateNameHeader (case src of (_, Some v) \<Rightarrow> Some (latin1 (encodeMcpParamValue (units v))) | _ \<Rightarrow> None)
     (fst src) (snd src) = None"
  by (cases src; cases "snd src") (simp_all add: validateNameHeader_def encoded_header Let_def)


lemma strip_demo: "stripHttpOws ''2026-07-28'' = ''2026-07-28''" "stripHttpOws ''tools/call'' = ''tools/call''"
  by (rule stripHttpOws_id, simp add: is_ows_def code_def)+


text \<open>The route of the concrete request, for the witnesses below.\<close>

definition demo_request :: inbound_http_request where
  "demo_request = \<lparr>httpMethod = ''POST'', protocolVersionHeader = None, mcpMethodHeader = None,
     mcpNameHeader = None, body = demo_message\<rparr>"

definition demo_route :: modern_route where
  "demo_route = \<lparr>mr_messageKind = K_request, mr_message = demo_message,
     mr_classification = classificationForClaim (Some ''2026-07-28'')\<rparr>"

lemma demo_body_routing: "classifyRequestBody (\<lambda>_. []) demo_request demo_message = ModernRoute demo_route"
proof -
  have "hasEnvelopeClaim (paramsOf demo_message)" using demo_parts(4) by (rule envelopeClaimVersion_claim)
  then show ?thesis
    by (simp add: classifyRequestBody_def classifyClaimedRequest_def Let_def demo_parts(2,4) demo_issues
        disagrees_def demo_request_def demo_route_def)
qed

lemma demo_post: "toUpperCase ''POST'' = ''POST''"
  by (simp add: toUpperCase_def is_lower_def code_def)

lemma demo_classified: "classifyInboundRequest (\<lambda>_. []) demo_request = ModernRoute demo_route"
proof -
  have "normalizeRequest demo_request = demo_request" by (simp add: normalizeRequest_def demo_request_def)
  moreover have "body demo_request = demo_message" "httpMethod demo_request = ''POST''"
    by (simp_all add: demo_request_def)
  ultimately show ?thesis
    using demo_is_request demo_body_routing demo_post
    by (simp add: classify_post classifyBody_request request_not_array)
qed


theorem headers_never_reroute_requests_witness:
  "routing (classifyInboundRequest (\<lambda>_. []) demo_request) \<in> {None, bodyRouting (\<lambda>_. []) (body demo_request)}"
  by (rule headers_never_reroute_requests) (simp_all add: demo_request_def demo_is_request demo_post)

text \<open>What a legacy route says about the claims of the body.\<close>

lemma element_params: "(if isPlainObject e then getp e ''params'' else JUndef) = paramsOf e"
  by (cases e) (simp_all add: paramsOf_def)

lemma batch_legacy:
  "classifyBatchElements es = LegacyRoute l \<Longrightarrow>
     list_all (\<lambda>e. isJSONRPCMessage e \<and> \<not> hasEnvelopeClaim (paramsOf e)) es"
  by (induction es)
    (auto simp: Let_def element_params invalidRequestRejection_def isJSONRPCMessage_def split: if_splits)

definition unclaimed :: "schema_issues \<Rightarrow> legacy_route_reason \<Rightarrow> js \<Rightarrow> bool" where
  "unclaimed si reason b \<longleftrightarrow>
     (case b of
        JArr es \<Rightarrow> es \<noteq> [] \<and> list_all (\<lambda>e. isJSONRPCMessage e \<and> \<not> hasEnvelopeClaim (paramsOf e)) es
      | _ \<Rightarrow>
          (case reason of
             R_response \<Rightarrow> isJSONRPCResultResponse b \<or> isJSONRPCErrorResponse b
           | R_initialize \<Rightarrow> methodOf b = ''initialize'' \<and> \<not> carriesValidModernEnvelopeClaim si (paramsOf b)
           | R_no_claim \<Rightarrow> isJSONRPCRequest b \<and> \<not> hasEnvelopeClaim (paramsOf b)
           | R_notification \<Rightarrow> isJSONRPCNotification b \<and> \<not> hasEnvelopeClaim (paramsOf b)
           | _ \<Rightarrow> False))"

lemma body_legacy:
  assumes "classifyBody si r b = LegacyRoute l" and "\<not> isArray b" shows "unclaimed si (lr_reason l) b"
  using assms
  by (cases b; auto simp: unclaimed_def classifyBody_def classifyRequestBody_def classifyNotificationBody_def
      classifyClaimedRequest_def classifyClaimedNotification_def notificationMethodMismatch_def Let_def
      invalidRequestRejection_def envelopeRejection_def eraMismatch_def modernHeaderWithoutClaim_def
      split: if_splits list.splits option.splits)

text \<open>
  legacy serving never receives a modern request. A posted body on a legacy route is a
  response, an \<open>initialize\<close> without a valid modern claim, a request or notification without
  a claim, or a non-empty batch of valid messages none of which carries one.
\<close>

theorem legacy_routes_carry_no_claim:
  assumes "classifyInboundRequest schemaIssues request = LegacyRoute route"
    and "toUpperCase (httpMethod request) = ''POST''"
  shows "unclaimed schemaIssues (lr_reason route) (body request)"
proof (cases "isArray (body request)")
  case True
  then obtain es where es: "body request = JArr es" by (cases "body request") auto
  then show ?thesis using assms batch_legacy [of es]
    by (auto simp: classifyInboundRequest_def classifyBatch_def normalizeRequest_def Let_def
        invalidRequestRejection_def unclaimed_def split: if_splits)
next
  case False
  then show ?thesis using assms body_legacy by (simp add: classify_post)
qed

theorem legacy_routes_carry_no_claim_witness:
  "unclaimed (\<lambda>_. []) R_batch (JArr [JObj [(''jsonrpc'', JStr ''2.0''), (''method'', JStr ''x'')]])"
proof -
  let ?m = "JObj [(''jsonrpc'', JStr ''2.0''), (''method'', JStr ''x'')]"
  let ?r = "\<lparr>httpMethod = ''POST'', protocolVersionHeader = None, mcpMethodHeader = None,
     mcpNameHeader = None, body = JArr [?m]\<rparr>"
  have n: "isJSONRPCNotification ?m"
    by (simp add: isJSONRPCNotification_def strictKeys_def okeys_def JSONRPC_VERSION_def baseParamsOk_def)
  have "classifyInboundRequest (\<lambda>_. []) ?r = LegacyRoute \<lparr>lr_reason = R_batch, lr_requestedVersion = None\<rparr>"
    using n by (simp add: classifyInboundRequest_def normalizeRequest_def classifyBatch_def demo_post
        hasEnvelopeClaim_def requestMetaOf_def)
  from legacy_routes_carry_no_claim [OF this] show ?thesis by (simp add: demo_post)
qed

text \<open>
  optional white space around the protocol headers never changes an outcome, so a
  runtime that exposes raw field values classifies like one that strips them.
\<close>

theorem header_whitespace_irrelevant:
  assumes "list_all is_ows a" and "list_all is_ows b"
  shows "classifyInboundRequest schemaIssues
      (request\<lparr>protocolVersionHeader := map_option (\<lambda>h. a @ h @ b) (protocolVersionHeader request),
               mcpMethodHeader := map_option (\<lambda>h. a @ h @ b) (mcpMethodHeader request),
               mcpNameHeader := map_option (\<lambda>h. a @ h @ b) (mcpNameHeader request)\<rparr>)
    = classifyInboundRequest schemaIssues request"
  by (simp add: classifyInboundRequest_def normalizeRequest_def option.map_comp o_def
      stripHttpOws_pad [OF assms])

theorem header_whitespace_irrelevant_witness:
  "classifyInboundRequest (\<lambda>_. [])
     (demo_request\<lparr>protocolVersionHeader := map_option (\<lambda>h. '' '' @ h @ []) (protocolVersionHeader demo_request),
        mcpMethodHeader := map_option (\<lambda>h. '' '' @ h @ []) (mcpMethodHeader demo_request),
        mcpNameHeader := map_option (\<lambda>h. '' '' @ h @ []) (mcpNameHeader demo_request)\<rparr>)
   = classifyInboundRequest (\<lambda>_. []) demo_request"
  by (rule header_whitespace_irrelevant) (simp_all add: is_ows_def code_def)

end
