(* ===== verification/WireCodec.thy ===== *)
theory WireCodec
  imports InboundClassification
begin

text \<open>
  The 2026-era wire codec (wire/rev2026-07-28/codec.ts, encodeContract.ts), the cache hints
  it resolves (shared/resultCacheHints.ts) and the text fallback both codecs apply
  (wire/textFallback.ts).

  A result object is its string-keyed members together with the configured cache hint,
  which the code attaches under a symbol key that JSON never sees. The zod parses of the
  codec are parameters: \<open>wireParse\<close> gives the error text of a failed result parse.
\<close>

subsection \<open>Results and cache hints\<close>

record cache_hint =
  ch_ttlMs :: js
  ch_cacheScope :: js

record wire_result =
  r_obj :: obj
  r_hint :: "cache_hint option"

definition plain_result :: "obj \<Rightarrow> wire_result" where
  "plain_result o' = \<lparr>r_obj = o', r_hint = None\<rparr>"

definition CACHEABLE_RESULT_METHODS :: "string list" where
  "CACHEABLE_RESULT_METHODS =
     [''tools/list'', ''prompts/list'', ''resources/list'', ''resources/templates/list'', ''resources/read'',
      ''server/discover'']"

definition isCacheableResultMethod :: "string \<Rightarrow> bool" where
  "isCacheableResultMethod m \<longleftrightarrow> m \<in> set CACHEABLE_RESULT_METHODS"

text \<open>\<open>a ?? b\<close>.\<close>

definition nullish :: "js \<Rightarrow> js \<Rightarrow> js" where
  "nullish a b = (if a = JUndef \<or> a = JNull then b else a)"

definition attachCacheHintFallback :: "wire_result \<Rightarrow> cache_hint option \<Rightarrow> wire_result" where
  "attachCacheHintFallback result hint =
     (case hint of
        None \<Rightarrow> result
      | Some h \<Rightarrow>
          (case r_hint result of
             None \<Rightarrow> result\<lparr>r_hint := Some h\<rparr>
           | Some attached \<Rightarrow>
               result\<lparr>r_hint := Some \<lparr>ch_ttlMs = nullish (ch_ttlMs attached) (ch_ttlMs h),
                                     ch_cacheScope = nullish (ch_cacheScope attached) (ch_cacheScope h)\<rparr>\<rparr>))"

definition isValidCacheTtlMs :: "js \<Rightarrow> bool" where
  "isValidCacheTtlMs value \<longleftrightarrow> isSafeInteger value \<and> (case value of JNum (NInt n) \<Rightarrow> 0 \<le> n | _ \<Rightarrow> False)"

definition isValidCacheScope :: "js \<Rightarrow> bool" where
  "isValidCacheScope value \<longleftrightarrow> value = JStr ''public'' \<or> value = JStr ''private''"

text \<open>\<open>String(v)\<close>, as the error texts use it.\<close>

fun jsString :: "js \<Rightarrow> string" where
  "jsString JUndef = ''undefined''"
| "jsString JNull = ''null''"
| "jsString (JBool b) = (if b then ''true'' else ''false'')"
| "jsString (JNum (NInt n)) = show_int n"
| "jsString (JNum (NFrac t)) = t"
| "jsString (JNum NPosInf) = ''Infinity''"
| "jsString (JNum NNegInf) = ''-Infinity''"
| "jsString (JNum NNaN) = ''NaN''"
| "jsString (JStr s) = s"
| "jsString (JArr vs) = join '','' (map (\<lambda>v. if v = JUndef \<or> v = JNull then [] else jsString v) vs)"
| "jsString (JObj o') = ''[object Object]''"

definition assertValidCacheHint :: "cache_hint \<Rightarrow> string \<Rightarrow> err option" where
  "assertValidCacheHint hint context =
     (if ch_ttlMs hint \<noteq> JUndef \<and> \<not> isValidCacheTtlMs (ch_ttlMs hint) then
        Some (RangeErr (''Invalid cache hint for '' @ context @ '': ttlMs must be a non-negative safe integer (got ''
          @ jsString (ch_ttlMs hint) @ '')''))
      else if ch_cacheScope hint \<noteq> JUndef \<and> \<not> isValidCacheScope (ch_cacheScope hint) then
        Some (RangeErr (''Invalid cache hint for '' @ context @ '': cacheScope must be public or private (got ''
          @ jsString (ch_cacheScope hint) @ '')''))
      else None)"

subsection \<open>The encode contract\<close>

definition DEFAULT_CACHE_TTL_MS :: js where
  "DEFAULT_CACHE_TTL_MS = JNum (NInt 0)"

definition DEFAULT_CACHE_SCOPE :: js where
  "DEFAULT_CACHE_SCOPE = JStr ''private''"

definition EXTENDED_RESULT_TYPE_METHODS :: "string list" where
  "EXTENDED_RESULT_TYPE_METHODS = [''tools/call'', ''prompts/get'', ''resources/read'']"

definition enforceDeletedFields :: "string \<Rightarrow> wire_result \<Rightarrow> wire_result" where
  "enforceDeletedFields m result =
     (let hasExecution = (\<lambda>t. case t of JObj o' \<Rightarrow> ohas o' ''execution'' | _ \<Rightarrow> False);
          dropExecution = (\<lambda>t. case t of JObj o' \<Rightarrow> if ohas o' ''execution'' then JObj (odel o' ''execution'') else t
                                        | _ \<Rightarrow> t);
          o1 = (case oget (r_obj result) ''tools'' of
                  JArr tools \<Rightarrow>
                    if m = ''tools/list'' \<and> list_ex hasExecution tools
                    then oset (r_obj result) ''tools'' (JArr (map dropExecution tools)) else r_obj result
                | _ \<Rightarrow> r_obj result);
          o2 = (case oget (r_obj result) ''capabilities'' of
                  JObj caps \<Rightarrow>
                    if ohas caps ''tasks'' then oset o1 ''capabilities'' (JObj (odel caps ''tasks'')) else o1
                | _ \<Rightarrow> o1)
      in result\<lparr>r_obj := o2\<rparr>)"

definition stampResultType :: "string \<Rightarrow> wire_result \<Rightarrow> err + wire_result" where
  "stampResultType m result =
     (let provided = oget (r_obj result) ''resultType'' in
      if provided = JUndef then Inr (result\<lparr>r_obj := oset (r_obj result) ''resultType'' (JStr ''complete'')\<rparr>)
      else if provided = JStr ''complete'' then Inr result
      else if m \<in> set EXTENDED_RESULT_TYPE_METHODS then Inr result
      else Inl (ProtocolErr (protocolError (pcode InternalError)
        (''Handler for '' @ m @ '' returned resultType '' @ [CHR 0x27] @ jsString provided @ [CHR 0x27]
         @ '', but results of '' @ m @ '' only support '' @ [CHR 0x27] @ ''complete'' @ [CHR 0x27]
         @ '' on protocol revision 2026-07-28'') JUndef)))"

definition resolveTtlMs :: "cache_hint option \<Rightarrow> js" where
  "resolveTtlMs fallback =
     (case fallback of Some h \<Rightarrow> if isValidCacheTtlMs (ch_ttlMs h) then ch_ttlMs h else DEFAULT_CACHE_TTL_MS
      | None \<Rightarrow> DEFAULT_CACHE_TTL_MS)"

definition resolveCacheScope :: "cache_hint option \<Rightarrow> js" where
  "resolveCacheScope fallback =
     (case fallback of Some h \<Rightarrow> if isValidCacheScope (ch_cacheScope h) then ch_cacheScope h else DEFAULT_CACHE_SCOPE
      | None \<Rightarrow> DEFAULT_CACHE_SCOPE)"

definition fillCacheFields :: "string \<Rightarrow> wire_result \<Rightarrow> wire_result" where
  "fillCacheFields m result =
     (let fallback = r_hint result; resultType = oget (r_obj result) ''resultType'' in
      if resultType \<noteq> JStr ''complete'' \<or> \<not> isCacheableResultMethod m then result\<lparr>r_hint := None\<rparr>
      else
        let ttlMs = (if isValidCacheTtlMs (oget (r_obj result) ''ttlMs'') then oget (r_obj result) ''ttlMs''
                     else resolveTtlMs fallback);
            cacheScope = (if isValidCacheScope (oget (r_obj result) ''cacheScope'')
                          then oget (r_obj result) ''cacheScope'' else resolveCacheScope fallback)
        in \<lparr>r_obj = oset (oset (r_obj result) ''ttlMs'' ttlMs) ''cacheScope'' cacheScope, r_hint = None\<rparr>)"

definition stampServerInfoMeta :: "js option \<Rightarrow> wire_result \<Rightarrow> wire_result" where
  "stampServerInfoMeta serverInfo result =
     (case serverInfo of
        None \<Rightarrow> result
      | Some info \<Rightarrow>
          (case oget (r_obj result) ''_meta'' of
             JUndef \<Rightarrow> result\<lparr>r_obj := oset (r_obj result) ''_meta'' (JObj [(SERVER_INFO_META_KEY, info)])\<rparr>
           | JObj meta \<Rightarrow>
               if oget meta SERVER_INFO_META_KEY \<noteq> JUndef then result
               else result\<lparr>r_obj := oset (r_obj result) ''_meta'' (JObj (oset meta SERVER_INFO_META_KEY info))\<rparr>
           | _ \<Rightarrow> result))"

definition encodeResult2026 :: "string \<Rightarrow> wire_result \<Rightarrow> js option \<Rightarrow> err + wire_result" where
  "encodeResult2026 m result serverInfo =
     (case stampResultType m (enforceDeletedFields m result) of
        Inl e \<Rightarrow> Inl e
      | Inr stamped \<Rightarrow> Inr (stampServerInfoMeta serverInfo (fillCacheFields m stamped)))"

definition encodeErrorCode :: "int \<Rightarrow> int" where
  "encodeErrorCode c = (if c = -32002 then -32602 else c)"

subsection \<open>Decoding\<close>

datatype decoded_result =
    Complete js
  | InputRequired obj "string option" "js option"
  | InvalidResultErr err

definition invalidResult :: "string \<Rightarrow> obj \<Rightarrow> decoded_result" where
  "invalidResult message data = InvalidResultErr (SdkError InvalidResult message (JObj data))"

definition WIRE_RESULT_SCHEMA_METHODS :: "string list" where
  "WIRE_RESULT_SCHEMA_METHODS =
     [''tools/call'', ''tools/list'', ''prompts/get'', ''prompts/list'', ''resources/list'',
      ''resources/templates/list'', ''resources/read'', ''completion/complete'', ''server/discover'']"

text \<open>The driver seam: the payload of an \<open>input_required\<close> result.\<close>

definition decodeInputRequired :: "(js \<Rightarrow> js option) \<Rightarrow> string \<Rightarrow> obj \<Rightarrow> decoded_result" where
  "decodeInputRequired metaParse m raw =
     (let inputRequests = (case oget raw ''inputRequests'' of JObj reqs \<Rightarrow> reqs | _ \<Rightarrow> []);
          requestState = str_of (oget raw ''requestState'');
          meta = (if oget raw ''_meta'' = JUndef then None else metaParse (oget raw ''_meta''))
      in if length (okeys inputRequests) = 0 \<and> requestState = None then
           invalidResult
             (''Invalid result for '' @ m @ '': input_required carries neither inputRequests nor requestState ''
              @ ''(every input_required result must include at least one of the two)'')
             [(''method'', JStr m), (''violation'', JStr ''input-required-missing-both'')]
         else InputRequired inputRequests requestState meta)"

definition decodeResult2026 ::
  "(string \<Rightarrow> js \<Rightarrow> string option) \<Rightarrow> (js \<Rightarrow> js option) \<Rightarrow> string \<Rightarrow> js \<Rightarrow> decoded_result" where
  "decodeResult2026 wireParse metaParse m rawv =
     (case rawv of
        JObj raw \<Rightarrow>
          (case oget raw ''resultType'' of
             JUndef \<Rightarrow>
               invalidResult (''Invalid result for '' @ m
                 @ '': missing required resultType - servers implementing protocol revision 2026-07-28 ''
                 @ ''MUST include it (the absent-means-complete bridge applies only to earlier-revision servers)'')
                 [(''method'', JStr m), (''violation'', JStr ''missing-resultType'')]
           | JStr rt \<Rightarrow>
               if rt = ''input_required'' then decodeInputRequired metaParse m raw
               else if rt \<noteq> ''complete'' then
                 InvalidResultErr (SdkError UnsupportedResultType
                   (''Unsupported result type '' @ [CHR 0x27] @ rt @ [CHR 0x27] @ '' for '' @ m)
                   (JObj [(''resultType'', JStr rt), (''method'', JStr m)]))
               else
                 (case (if m \<in> set WIRE_RESULT_SCHEMA_METHODS then wireParse m rawv else None) of
                    Some problem \<Rightarrow> invalidResult (''Invalid result for '' @ m @ '': '' @ problem) [(''method'', JStr m)]
                  | None \<Rightarrow> Complete (JObj (odel raw ''resultType'')))
           | other \<Rightarrow>
               invalidResult (''Invalid result for '' @ m @ '': non-string resultType'')
                 [(''method'', JStr m), (''resultType'', other)])
      | _ \<Rightarrow> invalidResult (''Invalid result for '' @ m @ '': not an object'') [(''method'', JStr m)])"

subsection \<open>Envelopes\<close>

record envelope_material =
  em_protocolVersion :: string
  em_clientInfo :: js
  em_clientCapabilities :: js
  em_logLevel :: "string option"

definition outboundEnvelope2026 :: "envelope_material \<Rightarrow> obj" where
  "outboundEnvelope2026 material =
     [(PROTOCOL_VERSION_META_KEY, JStr (em_protocolVersion material)),
      (CLIENT_INFO_META_KEY, em_clientInfo material),
      (CLIENT_CAPABILITIES_META_KEY, em_clientCapabilities material)]
     @ (case em_logLevel material of None \<Rightarrow> [] | Some l \<Rightarrow> [(LOG_LEVEL_META_KEY, JStr l)])"

definition checkInboundEnvelope2026 :: "schema_issues \<Rightarrow> obj option \<Rightarrow> string option" where
  "checkInboundEnvelope2026 schemaIssues envelope =
     (case envelope of
        None \<Rightarrow> Some (''Request is missing the required _meta envelope for protocol revision 2026-07-28 ''
          @ ''(io.modelcontextprotocol/protocolVersion, io.modelcontextprotocol/clientCapabilities)'')
      | Some e \<Rightarrow>
          if schemaIssues e \<noteq> [] then
            Some (''Invalid _meta envelope for protocol revision 2026-07-28: '' @ join ''; '' (map snd (schemaIssues e)))
          else None)"

subsection \<open>Text fallback of tool results\<close>

text \<open>\<open>JSON.stringify\<close> of a value; a member that is undefined is dropped.\<close>

fun json_text :: "js \<Rightarrow> string" where
  "json_text (JStr s) = json_string (units s)"
| "json_text (JBool b) = (if b then ''true'' else ''false'')"
| "json_text (JNum (NInt n)) = show_int n"
| "json_text (JNum (NFrac t)) = t"
| "json_text (JArr vs) = ''['' @ join '','' (map json_text vs) @ '']''"
| "json_text (JObj o') = ''{'' @ join '',''
     (map (\<lambda>p. json_string (units (fst p)) @ '':'' @ json_text (snd p)) (filter (\<lambda>p. snd p \<noteq> JUndef) o')) @ ''}''"
| "json_text _ = ''null''"

definition isTextBlock :: "js \<Rightarrow> bool" where
  "isTextBlock c \<longleftrightarrow> getp c ''type'' = JStr ''text''"

definition contentOf :: "obj \<Rightarrow> js list" where
  "contentOf result = (case oget result ''content'' of JArr blocks \<Rightarrow> blocks | _ \<Rightarrow> [])"

definition appendTextFallbackForNonObject :: "obj \<Rightarrow> obj" where
  "appendTextFallbackForNonObject result =
     (let sc = oget result ''structuredContent'' in
      if sc = JUndef then result
      else if isPlainObject sc then result
      else if list_ex isTextBlock (contentOf result) then result
      else oset result ''content''
        (JArr (contentOf result @ [JObj [(''type'', JStr ''text''), (''text'', JStr (json_text sc))]])))"

subsection \<open>Facts about the encode steps\<close>

lemmas encode_steps = enforceDeletedFields_def stampResultType_def fillCacheFields_def stampServerInfoMeta_def

definition no_execution :: "js \<Rightarrow> bool" where
  "no_execution t \<longleftrightarrow> (case t of JObj o' \<Rightarrow> \<not> ohas o' ''execution'' | _ \<Rightarrow> True)"

definition deleted_absent :: "string \<Rightarrow> obj \<Rightarrow> bool" where
  "deleted_absent m o' \<longleftrightarrow>
     (case oget o' ''tools'' of JArr ts \<Rightarrow> m = ''tools/list'' \<longrightarrow> list_all no_execution ts | _ \<Rightarrow> True)
     \<and> (case oget o' ''capabilities'' of JObj caps \<Rightarrow> \<not> ohas caps ''tasks'' | _ \<Rightarrow> True)"

lemma enforce_deletes: "deleted_absent m (r_obj (enforceDeletedFields m r))"
proof -
  have e: "list_all no_execution (map (\<lambda>t. case t of JObj o' \<Rightarrow> if ohas o' ''execution'' then JObj (odel o' ''execution'') else t
                                        | _ \<Rightarrow> t) ts)" for ts
    by (auto simp: list_all_iff no_execution_def split: js.splits)
  have n: "\<not> list_ex (\<lambda>t. case t of JObj o' \<Rightarrow> ohas o' ''execution'' | _ \<Rightarrow> False) ts \<Longrightarrow> list_all no_execution ts" for ts
    by (auto simp: list_all_iff list_ex_iff no_execution_def split: js.splits)
  show ?thesis
    by (cases "oget (r_obj r) ''tools''"; cases "oget (r_obj r) ''capabilities''")
      (auto simp: deleted_absent_def enforceDeletedFields_def Let_def e dest: n)
qed

lemma enforce_id: "deleted_absent m (r_obj r) \<Longrightarrow> enforceDeletedFields m r = r"
proof -
  assume d: "deleted_absent m (r_obj r)"
  have n: "list_all no_execution ts \<Longrightarrow> \<not> list_ex (\<lambda>t. case t of JObj o' \<Rightarrow> ohas o' ''execution'' | _ \<Rightarrow> False) ts" for ts
    by (auto simp: list_all_iff list_ex_iff no_execution_def split: js.splits)
  show ?thesis using d
    by (cases "oget (r_obj r) ''tools''"; cases "oget (r_obj r) ''capabilities''")
      (auto simp: deleted_absent_def enforceDeletedFields_def Let_def dest: n)
qed

lemma enforce_other: "k \<notin> {''tools'', ''capabilities''} \<Longrightarrow>
    oget (r_obj (enforceDeletedFields m r)) k = oget (r_obj r) k"
  by (auto simp: enforceDeletedFields_def Let_def split: js.splits)

lemma enforce_hint [simp]: "r_hint (enforceDeletedFields m r) = r_hint r"
  by (simp add: enforceDeletedFields_def Let_def)

lemma stamp_Inr:
  assumes "stampResultType m r = Inr s"
  shows "r_hint s = r_hint r" "k \<noteq> ''resultType'' \<Longrightarrow> oget (r_obj s) k = oget (r_obj r) k"
    "oget (r_obj s) ''resultType'' = JStr ''complete''
     \<or> m \<in> set EXTENDED_RESULT_TYPE_METHODS \<and> oget (r_obj s) ''resultType'' = oget (r_obj r) ''resultType''"
  using assms by (auto simp: stampResultType_def Let_def split: if_splits)

lemma stamp_again: "stampResultType m r = Inr s \<Longrightarrow> oget (r_obj s') ''resultType'' = oget (r_obj s) ''resultType''
    \<Longrightarrow> stampResultType m s' = Inr s'"
  by (auto simp: stampResultType_def Let_def split: if_splits)

lemma fill_other: "k \<notin> {''ttlMs'', ''cacheScope''} \<Longrightarrow> oget (r_obj (fillCacheFields m r)) k = oget (r_obj r) k"
  by (auto simp: fillCacheFields_def Let_def)

lemma fill_hint [simp]: "r_hint (fillCacheFields m r) = None"
  by (simp add: fillCacheFields_def Let_def)

definition cache_filled :: "string \<Rightarrow> obj \<Rightarrow> bool" where
  "cache_filled m o' \<longleftrightarrow> (oget o' ''resultType'' = JStr ''complete'' \<and> isCacheableResultMethod m \<longrightarrow>
     isValidCacheTtlMs (oget o' ''ttlMs'') \<and> isValidCacheScope (oget o' ''cacheScope''))"

lemma resolved_valid [simp]: "isValidCacheTtlMs (resolveTtlMs h)" "isValidCacheScope (resolveCacheScope h)"
  by (auto simp: resolveTtlMs_def resolveCacheScope_def DEFAULT_CACHE_TTL_MS_def DEFAULT_CACHE_SCOPE_def
      isValidCacheTtlMs_def isValidCacheScope_def MAX_SAFE_INTEGER_def split: option.splits)

lemma fill_fills: "cache_filled m (r_obj (fillCacheFields m r))"
  by (auto simp: cache_filled_def fillCacheFields_def Let_def)

lemma oset_same: "ohas o' k \<Longrightarrow> oget o' k = v \<Longrightarrow> oset o' k v = o'"
  by (induction o') auto

lemma valid_present: "isValidCacheTtlMs (oget o' k) \<or> isValidCacheScope (oget o' k) \<Longrightarrow> ohas o' k"
  by (rule ohas_of_oget) (auto simp: isValidCacheTtlMs_def isValidCacheScope_def)

lemma fill_id: "cache_filled m (r_obj r) \<Longrightarrow> r_hint r = None \<Longrightarrow> fillCacheFields m r = r"
  using valid_present
  by (cases r) (auto simp: cache_filled_def fillCacheFields_def Let_def oset_same)

lemma identity_other: "k \<noteq> ''_meta'' \<Longrightarrow> oget (r_obj (stampServerInfoMeta si r)) k = oget (r_obj r) k"
  by (auto simp: stampServerInfoMeta_def split: option.splits js.splits)

lemma identity_hint [simp]: "r_hint (stampServerInfoMeta si r) = r_hint r"
  by (auto simp: stampServerInfoMeta_def split: option.splits js.splits)

definition identified :: "js option \<Rightarrow> obj \<Rightarrow> bool" where
  "identified si o' \<longleftrightarrow> (case si of None \<Rightarrow> True | Some info \<Rightarrow>
     oget o' ''_meta'' \<noteq> JUndef
     \<and> (isPlainObject (oget o' ''_meta'') \<longrightarrow> getp (oget o' ''_meta'') SERVER_INFO_META_KEY \<noteq> JUndef))"

lemma identity_stamps: "si \<noteq> Some JUndef \<Longrightarrow> identified si (r_obj (stampServerInfoMeta si r))"
  by (auto simp: identified_def stampServerInfoMeta_def split: option.splits js.splits)

lemma identity_id: "identified si (r_obj r) \<Longrightarrow> stampServerInfoMeta si r = r"
  by (auto simp: identified_def stampServerInfoMeta_def split: option.splits js.splits)

lemma deleted_absent_cong:
  "oget o' ''tools'' = oget o1 ''tools'' \<Longrightarrow> oget o' ''capabilities'' = oget o1 ''capabilities''
     \<Longrightarrow> deleted_absent m o' = deleted_absent m o1"
  by (simp add: deleted_absent_def)

lemma cache_filled_cong:
  "(\<And>k. k \<noteq> ''_meta'' \<Longrightarrow> oget o' k = oget o1 k) \<Longrightarrow> cache_filled m o' = cache_filled m o1"
  by (simp add: cache_filled_def)

text \<open>The parts of a successful encoding.\<close>

lemma encode_Inr:
  assumes "encodeResult2026 m r si = Inr w"
  obtains s where "stampResultType m (enforceDeletedFields m r) = Inr s"
    "w = stampServerInfoMeta si (fillCacheFields m s)"
  using assms by (auto simp: encodeResult2026_def split: sum.splits)

lemma encode_read:
  assumes "encodeResult2026 m r si = Inr w"
    and "k \<notin> {''tools'', ''capabilities'', ''resultType'', ''ttlMs'', ''cacheScope'', ''_meta''}"
  shows "oget (r_obj w) k = oget (r_obj r) k"
  using assms by (elim encode_Inr) (simp add: identity_other fill_other stamp_Inr(2) enforce_other)

definition wire_conforms :: "string \<Rightarrow> js option \<Rightarrow> wire_result \<Rightarrow> wire_result \<Rightarrow> bool" where
  "wire_conforms m si r w \<longleftrightarrow> r_hint w = None \<and> deleted_absent m (r_obj w) \<and> cache_filled m (r_obj w)
     \<and> identified si (r_obj w)
     \<and> (oget (r_obj w) ''resultType'' = JStr ''complete''
        \<or> m \<in> set EXTENDED_RESULT_TYPE_METHODS \<and> oget (r_obj w) ''resultType'' = oget (r_obj r) ''resultType'')"

lemma encode_conforms:
  assumes "encodeResult2026 m r si = Inr w" and "si \<noteq> Some JUndef"
  shows "wire_conforms m si r w"
  using assms(1)
proof (rule encode_Inr)
  fix s assume s: "stampResultType m (enforceDeletedFields m r) = Inr s"
    and w: "w = stampServerInfoMeta si (fillCacheFields m s)"
  have "deleted_absent m (r_obj w)"
    using enforce_deletes [of m r]
    by (simp add: w identity_other fill_other stamp_Inr(2) [OF s] cong: deleted_absent_cong)
  moreover have "cache_filled m (r_obj w)"
    using fill_fills [of m s] cache_filled_cong [of "r_obj w" "r_obj (fillCacheFields m s)" m]
    by (simp add: w identity_other)
  moreover have "identified si (r_obj w)" unfolding w by (rule identity_stamps [OF assms(2)])
  moreover have "oget (r_obj w) ''resultType'' = oget (r_obj s) ''resultType''"
    by (simp add: w identity_other fill_other)
  ultimately show ?thesis
    using stamp_Inr(3) [OF s] by (auto simp: wire_conforms_def w enforce_other)
qed

lemma encode_again:
  assumes "encodeResult2026 m r si = Inr w" and "si \<noteq> Some JUndef"
  shows "encodeResult2026 m w si = Inr w"
proof -
  obtain s where s: "stampResultType m (enforceDeletedFields m r) = Inr s"
    and w: "w = stampServerInfoMeta si (fillCacheFields m s)" using assms(1) by (rule encode_Inr)
  have c: "wire_conforms m si r w" using assms by (rule encode_conforms)
  have "stampResultType m w = Inr w"
    by (rule stamp_again [OF s]) (simp add: w identity_other fill_other)
  then show ?thesis
    using c by (simp add: encodeResult2026_def wire_conforms_def enforce_id fill_id identity_id)
qed

definition demo_result :: wire_result where
  "demo_result = \<lparr>r_obj = [(''tools'', JArr [JObj [(''name'', JStr ''t''), (''execution'', JObj [])]])],
     r_hint = Some \<lparr>ch_ttlMs = JNum (NInt 5), ch_cacheScope = JStr ''shared''\<rparr>\<rparr>"

definition demo_wire :: wire_result where
  "demo_wire = \<lparr>r_obj = [(''tools'', JArr [JObj [(''name'', JStr ''t'')]]), (''resultType'', JStr ''complete''),
     (''ttlMs'', JNum (NInt 5)), (''cacheScope'', JStr ''private''),
     (''_meta'', JObj [(SERVER_INFO_META_KEY, JStr ''srv'')])], r_hint = None\<rparr>"

lemma demo_encode: "encodeResult2026 ''tools/list'' demo_result (Some (JStr ''srv'')) = Inr demo_wire"
  by (simp add: encodeResult2026_def encode_steps demo_result_def demo_wire_def odel_def isCacheableResultMethod_def
      CACHEABLE_RESULT_METHODS_def isValidCacheTtlMs_def isValidCacheScope_def resolveTtlMs_def resolveCacheScope_def
      MAX_SAFE_INTEGER_def DEFAULT_CACHE_SCOPE_def)

text \<open>
  what crosses the 2026 wire. An encoded result carries no deleted vocabulary and no
  configured hint, a result type that is \<open>complete\<close> or the handler's own on a method that
  allows it, valid cache fields on every complete cacheable result, and the server's
  identity unless the handler put something in its place.
\<close>

theorem encoded_result_conforms:
  assumes "encodeResult2026 m r serverInfo = Inr w" and "serverInfo \<noteq> Some JUndef"
  shows "wire_conforms m serverInfo r w"
  using assms by (rule encode_conforms)

theorem encoded_result_conforms_witness:
  "wire_conforms ''tools/list'' (Some (JStr ''srv'')) demo_result demo_wire"
  by (rule encoded_result_conforms [OF demo_encode]) simp

text \<open>
  encoding is idempotent: a result relayed through a second server-side encode of the
  same identity is sent unchanged, handler-authored values winning over every stamp.
\<close>

theorem encode_idempotent:
  assumes "encodeResult2026 m r serverInfo = Inr w" and "serverInfo \<noteq> Some JUndef"
  shows "encodeResult2026 m w serverInfo = Inr w"
  using assms by (rule encode_again)

theorem encode_idempotent_witness:
  "encodeResult2026 ''tools/list'' demo_wire (Some (JStr ''srv'')) = Inr demo_wire"
  by (rule encode_idempotent [OF demo_encode]) simp

lemma decode_encoded_2026:
  assumes "encodeResult2026 m r si = Inr w" and "oget (r_obj w) ''resultType'' = JStr ''complete''"
    and "m \<in> set WIRE_RESULT_SCHEMA_METHODS \<longrightarrow> wireParse m (JObj (r_obj w)) = None"
  shows "decodeResult2026 wireParse metaParse m (JObj (r_obj w)) = Complete (JObj (odel (r_obj w) ''resultType''))"
  using assms by (simp add: decodeResult2026_def)



subsection \<open>The interface of a codec\<close>

text \<open>
  What the protocol layer relies on, whatever the era: an encoded result that the peer's
  parse accepts decodes to a complete result with the wire discriminator consumed.
\<close>

locale wire_codec =
  fixes enc :: "string \<Rightarrow> obj \<Rightarrow> err + obj" and dec :: "string \<Rightarrow> js \<Rightarrow> decoded_result"
    and accepts :: "string \<Rightarrow> js \<Rightarrow> bool"
  assumes dec_enc: "enc m r = Inr w \<Longrightarrow> oget r ''resultType'' = JUndef \<Longrightarrow> accepts m (JObj w)
    \<Longrightarrow> \<exists>v. dec m (JObj w) = Complete (JObj v) \<and> oget v ''resultType'' = JUndef"
    and enc_total: "oget r ''resultType'' = JUndef \<Longrightarrow> \<exists>w. enc m r = Inr w"
begin

lemma delivered: "oget r ''resultType'' = JUndef \<Longrightarrow> (\<And>w. accepts m w)
    \<Longrightarrow> \<exists>w v. enc m r = Inr w \<and> dec m (JObj w) = Complete (JObj v) \<and> oget v ''resultType'' = JUndef"
  using dec_enc enc_total by metis

text \<open>A relay: a second hop can always send on what the first delivered.\<close>

lemma relay: "oget r ''resultType'' = JUndef \<Longrightarrow> (\<And>w. accepts m w)
    \<Longrightarrow> \<exists>w v w' v'. enc m r = Inr w \<and> dec m (JObj w) = Complete (JObj v)
        \<and> enc m v = Inr w' \<and> dec m (JObj w') = Complete (JObj v')"
  using delivered by metis

end

definition enc2026 :: "js option \<Rightarrow> string \<Rightarrow> obj \<Rightarrow> err + obj" where
  "enc2026 si m r = map_sum id r_obj (encodeResult2026 m (plain_result r) si)"

lemma stamp_total: "oget (r_obj r) ''resultType'' = JUndef \<Longrightarrow> \<exists>w. encodeResult2026 m r si = Inr w"
  by (auto simp: encodeResult2026_def stampResultType_def Let_def enforce_other)

interpretation codec2026: wire_codec "enc2026 si" "decodeResult2026 wireParse metaParse"
    "\<lambda>m w. m \<in> set WIRE_RESULT_SCHEMA_METHODS \<longrightarrow> wireParse m w = None"
proof unfold_locales
  fix m r w
  assume e: "enc2026 si m r = Inr w" and r: "oget r ''resultType'' = JUndef"
    and a: "m \<in> set WIRE_RESULT_SCHEMA_METHODS \<longrightarrow> wireParse m (JObj w) = None"
  obtain w' where w: "encodeResult2026 m (plain_result r) si = Inr w'" "w = r_obj w'"
    using e by (cases "encodeResult2026 m (plain_result r) si") (auto simp: enc2026_def)
  obtain s where s: "stampResultType m (enforceDeletedFields m (plain_result r)) = Inr s"
    and w': "w' = stampServerInfoMeta si (fillCacheFields m s)" using w(1) by (rule encode_Inr)
  have "oget (r_obj s) ''resultType'' = JStr ''complete''"
    using s r by (auto simp: stampResultType_def Let_def enforce_other plain_result_def)
  then have "oget (r_obj w') ''resultType'' = JStr ''complete''" by (simp add: w' identity_other fill_other)
  then have "decodeResult2026 wireParse metaParse m (JObj w) = Complete (JObj (odel w ''resultType''))"
    unfolding w(2) using w(1) a [unfolded w(2)] by (intro decode_encoded_2026)
  then show "\<exists>v. decodeResult2026 wireParse metaParse m (JObj w) = Complete (JObj v) \<and> oget v ''resultType'' = JUndef"
    by simp
next
  fix m r
  assume "oget r ''resultType'' = JUndef"
  then show "\<exists>w. enc2026 si m r = Inr w"
    using stamp_total [of "plain_result r" m si] by (auto simp: enc2026_def plain_result_def)
qed

end
