(* ===== verification/LegacyCodec.thy ===== *)
theory LegacyCodec
  imports WireCodec
begin

text \<open>
  The 2025-era wire codec (wire/rev2025-11-25/codec.ts) and the envelope it puts around a
  tool's output schema when its root is not an object (wire/rev2025-11-25/legacyWrap.ts,
  validators/dialects.ts): the identity everywhere else.
\<close>

subsection \<open>The schema envelope\<close>

definition DRAFT_2019_09_URIS :: "string list" where
  "DRAFT_2019_09_URIS =
     [''https://json-schema.org/draft/2019-09/schema'', ''http://json-schema.org/draft/2019-09/schema'']"

definition dropTrailingHash :: "string \<Rightarrow> string" where
  "dropTrailingHash s = (if endsWith s ''#'' then butlast s else s)"

definition declares2019Dialect :: "js \<Rightarrow> bool" where
  "declares2019Dialect schema \<longleftrightarrow>
     (case schema of JStr s \<Rightarrow> dropTrailingHash s \<in> set DRAFT_2019_09_URIS | _ \<Rightarrow> False)"

datatype declared_dialect = D2020_12 | D2019_09 | Draft7

definition declaredDialect :: "obj \<Rightarrow> string \<Rightarrow> err + declared_dialect" where
  "declaredDialect schema remedy =
     (case oget schema ''$schema'' of
        JStr s \<Rightarrow>
          (let declared = dropTrailingHash s in
           if declared \<in> {''https://json-schema.org/draft/2020-12/schema'', ''http://json-schema.org/draft/2020-12/schema''}
           then Inr D2020_12
           else if declared \<in> set DRAFT_2019_09_URIS then Inr D2019_09
           else if declared \<in> {''https://json-schema.org/draft-07/schema'', ''http://json-schema.org/draft-07/schema'',
                              ''https://json-schema.org/draft-06/schema'', ''http://json-schema.org/draft-06/schema''}
           then Inr Draft7
           else Inl (PlainErr (''JSON Schema declares an unsupported dialect ($schema: '' @ take 200 s @ ''). ''
             @ ''The default validator supports JSON Schema 2020-12, 2019-09, draft-07, and draft-06; '' @ remedy)))
      | _ \<Rightarrow> Inr D2020_12)"

definition isNonObjectJsonSchemaRoot :: "obj \<Rightarrow> bool" where
  "isNonObjectJsonSchemaRoot json \<longleftrightarrow> oget json ''type'' \<noteq> JStr ''object''"

definition REF_REWRITE_DATA_POSITION_KEYS :: "string list" where
  "REF_REWRITE_DATA_POSITION_KEYS = [''const'', ''enum'', ''default'', ''examples'']"

definition REF_REWRITE_NAME_MAP_KEYS :: "string list" where
  "REF_REWRITE_NAME_MAP_KEYS =
     [''properties'', ''patternProperties'', ''$defs'', ''definitions'', ''dependentSchemas'', ''dependencies'']"

definition establishesNewBase :: "js \<Rightarrow> bool" where
  "establishesNewBase i \<longleftrightarrow> i \<noteq> JUndef \<and> \<not> (case i of JStr s \<Rightarrow> startsWith s ''#'' | _ \<Rightarrow> False)"

definition rewritePointer :: "string \<Rightarrow> string" where
  "rewritePointer v =
     (if v = ''#'' then ''#/properties/result''
      else if startsWith v ''#/'' then ''#/properties/result'' @ drop 1 v else v)"

text \<open>A \<open>$recursiveRef\<close> member that is converted rather than copied.\<close>

definition convertedMember :: "bool \<Rightarrow> string \<times> js \<Rightarrow> bool" where
  "convertedMember convertRecursiveRefs e \<longleftrightarrow> fst e = ''$recursiveRef'' \<and> snd e = JStr ''#'' \<and> convertRecursiveRefs"

definition emitConverted :: "obj \<Rightarrow> obj" where
  "emitConverted out =
     (if ohas out ''$ref'' then
        oset out ''allOf'' (JArr ((case oget out ''allOf'' of JArr vs \<Rightarrow> vs | _ \<Rightarrow> [])
          @ [JObj [(''$ref'', JStr ''#/properties/result'')]]))
      else oset out ''$ref'' (JStr ''#/properties/result''))"

fun rewriteRefs :: "bool \<Rightarrow> js \<Rightarrow> bool \<Rightarrow> js" where
  "rewriteRefs cv (JArr vs) parentIsNameMap = JArr (map (\<lambda>item. rewriteRefs cv item False) vs)"
| "rewriteRefs cv (JObj node) parentIsNameMap =
     (if \<not> parentIsNameMap \<and> establishesNewBase (oget node ''$id'') then JObj node
      else
        let out = map (\<lambda>e. (fst e,
              if parentIsNameMap then rewriteRefs cv (snd e) False
              else if (fst e = ''$ref'' \<or> fst e = ''$dynamicRef'') \<and> isStr (snd e)
                then JStr (rewritePointer (the (str_of (snd e))))
              else if fst e \<in> set REF_REWRITE_DATA_POSITION_KEYS then snd e
              else rewriteRefs cv (snd e) (fst e \<in> set REF_REWRITE_NAME_MAP_KEYS)))
            (filter (\<lambda>e. parentIsNameMap \<or> \<not> convertedMember cv e) node)
        in JObj (if \<not> parentIsNameMap \<and> list_ex (convertedMember cv) node then emitConverted out else out))"
| "rewriteRefs cv v parentIsNameMap = v"

definition convertsRecursiveRefs :: "obj \<Rightarrow> bool" where
  "convertsRecursiveRefs natural \<longleftrightarrow>
     declares2019Dialect (oget natural ''$schema'') \<and> oget natural ''$recursiveAnchor'' \<noteq> JBool True"

definition wrapOutputSchemaForLegacy :: "obj \<Rightarrow> obj" where
  "wrapOutputSchemaForLegacy natural =
     (let result = (if establishesNewBase (oget natural ''$id'') then JObj natural
                    else rewriteRefs (convertsRecursiveRefs natural) (JObj natural) False)
      in (case oget natural ''$schema'' of JStr s \<Rightarrow> [(''$schema'', JStr s)] | _ \<Rightarrow> [])
         @ [(''type'', JStr ''object''), (''properties'', JObj [(''result'', result)]),
            (''required'', JArr [JStr ''result''])])"

subsection \<open>The codec\<close>

definition toolNeedsLegacyWrap :: "js \<Rightarrow> bool" where
  "toolNeedsLegacyWrap t \<longleftrightarrow>
     (case getp t ''outputSchema'' of JObj s \<Rightarrow> isNonObjectJsonSchemaRoot s | _ \<Rightarrow> False)"

definition wrapTool :: "js \<Rightarrow> js" where
  "wrapTool t =
     (case (t, getp t ''outputSchema'') of
        (JObj o', JObj s) \<Rightarrow>
          if toolNeedsLegacyWrap t then JObj (oset o' ''outputSchema'' (JObj (wrapOutputSchemaForLegacy s))) else t
      | _ \<Rightarrow> t)"

definition encodeResult2025 :: "string \<Rightarrow> obj \<Rightarrow> obj" where
  "encodeResult2025 m result =
     (if m \<noteq> ''tools/list'' then result
      else
        (case oget result ''tools'' of
           JArr tools \<Rightarrow>
             if \<not> list_ex toolNeedsLegacyWrap tools then result
             else oset result ''tools'' (JArr (map wrapTool tools))
         | _ \<Rightarrow> result))"

definition decodeResult2025 :: "string \<Rightarrow> js \<Rightarrow> decoded_result" where
  "decodeResult2025 m rawv =
     (case rawv of
        JObj raw \<Rightarrow> if ohas raw ''resultType'' then Complete (JObj (odel raw ''resultType'')) else Complete rawv
      | _ \<Rightarrow> Complete rawv)"

definition projectCallToolResult2025 :: "obj \<Rightarrow> obj option \<Rightarrow> obj" where
  "projectCallToolResult2025 result advertisedOutputSchema =
     (let withText = appendTextFallbackForNonObject result; sc = oget withText ''structuredContent'' in
      if sc = JUndef then withText
      else
        let valueIsNonObject = (\<not> isPlainObject sc);
            schemaWrapped = (case advertisedOutputSchema of None \<Rightarrow> False | Some s \<Rightarrow> isNonObjectJsonSchemaRoot s)
        in if \<not> valueIsNonObject \<and> \<not> schemaWrapped then withText
           else oset withText ''structuredContent'' (JObj [(''result'', sc)]))"

subsection \<open>The two codecs as one function of the era\<close>

text \<open>\<open>codecForVersion(v).encodeResult\<close> and its siblings, by era.\<close>

definition encodeResult :: "wire_era \<Rightarrow> string \<Rightarrow> wire_result \<Rightarrow> js option \<Rightarrow> err + wire_result" where
  "encodeResult era m r serverInfo =
     (case era of
        Rev2025 \<Rightarrow> Inr (r\<lparr>r_obj := encodeResult2025 m (r_obj r)\<rparr>)
      | Rev2026 \<Rightarrow> encodeResult2026 m r serverInfo)"

definition decodeResult ::
  "wire_era \<Rightarrow> (string \<Rightarrow> js \<Rightarrow> string option) \<Rightarrow> (js \<Rightarrow> js option) \<Rightarrow> string \<Rightarrow> js \<Rightarrow> decoded_result" where
  "decodeResult era wireParse metaParse m rawv =
     (case era of Rev2025 \<Rightarrow> decodeResult2025 m rawv | Rev2026 \<Rightarrow> decodeResult2026 wireParse metaParse m rawv)"

definition projectCallToolResult :: "wire_era \<Rightarrow> obj \<Rightarrow> obj option \<Rightarrow> obj" where
  "projectCallToolResult era result advertised =
     (case era of Rev2025 \<Rightarrow> projectCallToolResult2025 result advertised
      | Rev2026 \<Rightarrow> appendTextFallbackForNonObject result)"

definition checkInboundEnvelope :: "wire_era \<Rightarrow> schema_issues \<Rightarrow> obj option \<Rightarrow> string option" where
  "checkInboundEnvelope era schemaIssues envelope =
     (case era of Rev2025 \<Rightarrow> None | Rev2026 \<Rightarrow> checkInboundEnvelope2026 schemaIssues envelope)"

subsection \<open>Facts\<close>

lemma encode2025_other: "k \<noteq> ''tools'' \<Longrightarrow> oget (encodeResult2025 m r) k = oget r k"
  by (auto simp: encodeResult2025_def split: js.splits)

lemma encode2025_keys: "okeys (encodeResult2025 m r) = okeys r"
proof (cases "oget r ''tools''")
  case (JArr ts)
  then have "ohas r ''tools''" by (intro ohas_of_oget) simp
  then show ?thesis using JArr by (simp add: encodeResult2025_def okeys_oset)
qed (simp_all add: encodeResult2025_def)

lemma wrapped_root: "oget (wrapOutputSchemaForLegacy s) ''type'' = JStr ''object''"
  by (auto simp: wrapOutputSchemaForLegacy_def Let_def split: js.splits)

lemma wrapTool_done: "\<not> toolNeedsLegacyWrap (wrapTool t)"
  by (auto simp: wrapTool_def toolNeedsLegacyWrap_def isNonObjectJsonSchemaRoot_def wrapped_root split: js.splits)

lemma fallback_keeps_content: "oget (appendTextFallbackForNonObject r) ''structuredContent'' = oget r ''structuredContent''"
  by (auto simp: appendTextFallbackForNonObject_def Let_def)

definition object_or_absent :: "js \<Rightarrow> bool" where
  "object_or_absent v \<longleftrightarrow> v = JUndef \<or> isPlainObject v"

definition object_root_tools :: "obj \<Rightarrow> bool" where
  "object_root_tools r \<longleftrightarrow> (case oget r ''tools'' of JArr ts \<Rightarrow> list_all (\<lambda>t. \<not> toolNeedsLegacyWrap t) ts | _ \<Rightarrow> True)"

lemma encode2025_roots: "object_root_tools (encodeResult2025 ''tools/list'' r)"
  by (cases "oget r ''tools''")
    (auto simp: object_root_tools_def encodeResult2025_def list_all_iff list_ex_iff wrapTool_done)

text \<open>
  the legacy wire shape. The 2025 encode never adds or removes a member and changes
  only a tool list; afterwards every advertised output schema has an object root, and every
  projected tool result has structured content that is absent or an object.
\<close>

theorem legacy_wire_shape:
  "okeys (encodeResult2025 m r) = okeys r
   \<and> (k \<noteq> ''tools'' \<longrightarrow> oget (encodeResult2025 m r) k = oget r k)
   \<and> object_root_tools (encodeResult2025 ''tools/list'' r)
   \<and> object_or_absent (oget (projectCallToolResult2025 r advertised) ''structuredContent'')"
  using encode2025_other [of k m r]
  by (auto simp: encode2025_keys encode2025_roots object_or_absent_def projectCallToolResult2025_def Let_def
      fallback_keeps_content)

theorem legacy_wire_shape_witness:
  "oget (encodeResult2025 ''tools/list'' [(''tools'', JArr []), (''nextCursor'', JStr ''c'')]) ''nextCursor'' = JStr ''c''"
  using legacy_wire_shape [of "''tools/list''" "[(''tools'', JArr []), (''nextCursor'', JStr ''c'')]" "''nextCursor''"]
  by simp

interpretation codec2025: wire_codec "\<lambda>m r. Inr (encodeResult2025 m r)" decodeResult2025 "\<lambda>_ _. True"
proof unfold_locales
  fix m r w
  assume "Inr (encodeResult2025 m r) = (Inr w :: err + obj)" and r: "oget r ''resultType'' = JUndef"
  then have "oget w ''resultType'' = JUndef" using encode2025_other [of "''resultType''" m r] by auto
  then show "\<exists>v. decodeResult2025 m (JObj w) = Complete (JObj v) \<and> oget v ''resultType'' = JUndef"
    by (simp add: decodeResult2025_def)
qed simp

subsection \<open>References survive the envelope\<close>

text \<open>
  Resolution of a JSON Pointer, given as its unescaped tokens, and the fragment text of a
  pointer. The escaping of a token plays no role in the rewrite, which only prepends.
\<close>

fun resolvePointer :: "js \<Rightarrow> string list \<Rightarrow> js option" where
  "resolvePointer v [] = Some v"
| "resolvePointer (JObj o') (t # ts) = (if ohas o' t then resolvePointer (oget o' t) ts else None)"
| "resolvePointer (JArr vs) (t # ts) =
     (case List.find (\<lambda>i. digits i = t) [0..<length vs] of Some i \<Rightarrow> resolvePointer (vs ! i) ts | None \<Rightarrow> None)"
| "resolvePointer v (t # ts) = None"

definition fragment :: "(string \<Rightarrow> string) \<Rightarrow> string list \<Rightarrow> string" where
  "fragment esc ts = ''#'' @ concat (map (\<lambda>t. ''/'' @ esc t) ts)"

lemma rewritePointer_fragment:
  "esc ''properties'' = ''properties'' \<Longrightarrow> esc ''result'' = ''result''
     \<Longrightarrow> rewritePointer (fragment esc ts) = fragment esc (''properties'' # ''result'' # ts)"
  by (cases ts) (simp_all add: rewritePointer_def fragment_def startsWith_def)

lemma oget_mapped: "ohas o' k \<Longrightarrow> oget (map (\<lambda>e. (fst e, f e)) o') k = f (k, oget o' k)"
  by (induction o') auto

lemma ohas_mapped [simp]: "ohas (map (\<lambda>e. (fst e, f e)) o') k = ohas o' k"
  by (induction o') auto

lemma no_conversion [simp]: "\<not> convertedMember False e"
  by (simp add: convertedMember_def)

lemma find_index: "List.find P [0..<n] = Some i \<Longrightarrow> i < n"
  using find_Some_mem by fastforce

lemma resolve_string: "resolvePointer (JStr s) ts = Some (JObj n) \<Longrightarrow> False"
  by (cases ts) simp_all

text \<open>Where a node of the original schema ends up: unchanged or rewritten in some position.\<close>

definition relocated :: "js \<Rightarrow> js \<Rightarrow> bool" where
  "relocated n n' \<longleftrightarrow> n' = n \<or> n' = rewriteRefs False n True \<or> n' = rewriteRefs False n False"

lemma resolve_rewritten:
  "resolvePointer v ts = Some (JObj n) \<Longrightarrow> \<exists>n'. resolvePointer (rewriteRefs False v p) ts = Some n' \<and> relocated (JObj n) n'"
proof (induction v ts arbitrary: p rule: resolvePointer.induct)
  case (1 v)
  then show ?case by (cases p) (auto simp: relocated_def)
next
  case (2 o' t ts)
  then have h: "ohas o' t" and r: "resolvePointer (oget o' t) ts = Some (JObj n)" by (auto split: if_splits)
  note IH = 2(1) [OF h r]
  show ?case
  proof (cases "\<not> p \<and> establishesNewBase (oget o' ''$id'')")
    case True
    then show ?thesis using h r by (auto simp: relocated_def)
  next
    case False
    have nostr: "\<not> isStr (oget o' t)" using r resolve_string by (cases "oget o' t") auto
    let ?f = "\<lambda>e. if p then rewriteRefs False (snd e) False
              else if (fst e = ''$ref'' \<or> fst e = ''$dynamicRef'') \<and> isStr (snd e)
                then JStr (rewritePointer (the (str_of (snd e))))
              else if fst e \<in> set REF_REWRITE_DATA_POSITION_KEYS then snd e
              else rewriteRefs False (snd e) (fst e \<in> set REF_REWRITE_NAME_MAP_KEYS)"
    have eq: "rewriteRefs False (JObj o') p = JObj (map (\<lambda>e. (fst e, ?f e)) o')"
      using False by (cases p) (simp_all add: list_ex_iff)
    have "resolvePointer (rewriteRefs False (JObj o') p) (t # ts) = resolvePointer (?f (t, oget o' t)) ts"
      unfolding eq using h by (simp add: oget_mapped)
    then show ?thesis using IH r nostr by (auto simp: relocated_def)
  qed
next
  case (3 vs t ts)
  then obtain i where i: "List.find (\<lambda>i. digits i = t) [0..<length vs] = Some i"
    and r: "resolvePointer (vs ! i) ts = Some (JObj n)" by (auto split: option.splits)
  show ?case using 3(1) [OF i r] i find_index [OF i] by simp
qed simp_all



end
