(* ===== verification/ClientCapabilities.thy ===== *)
theory ClientCapabilities
  imports Guards
begin

text \<open>
  Client-capability requirements (shared/clientCapabilityRequirements.ts): what an embedded
  input request requires and which of the required capabilities a client did not declare.
  A capability set is an object; an absent declaration is \<open>None\<close>.
\<close>

subsection \<open>Building an object from the entries of another\<close>

text \<open>
  The loop shape both levels of \<open>missingClientCapabilities\<close> have: over the entries of an
  object, put a value computed from the entry into a fresh object or skip the entry.
\<close>

definition collect :: "(string \<Rightarrow> js \<Rightarrow> js option) \<Rightarrow> obj \<Rightarrow> obj" where
  "collect f o' = fold (\<lambda>(k, v) acc. case f k v of None \<Rightarrow> acc | Some x \<Rightarrow> oset acc k x) o' []"

lemma oset_absent: "\<not> ohas o' k \<Longrightarrow> oset o' k v = o' @ [(k, v)]"
  by (induction o') auto

definition pick :: "(string \<Rightarrow> js \<Rightarrow> js option) \<Rightarrow> string \<times> js \<Rightarrow> obj" where
  "pick f e = (case f (fst e) (snd e) of None \<Rightarrow> [] | Some x \<Rightarrow> [(fst e, x)])"

lemma pick_key: "e' \<in> set (pick f e) \<Longrightarrow> fst e' = fst e"
  by (auto simp: pick_def split: option.splits)

lemma collect_eq: "owf o' \<Longrightarrow> collect f o' = concat (map (pick f) o')"
proof (induction o' rule: rev_induct)
  case (snoc e o')
  have "\<not> ohas (concat (map (pick f) o')) (fst e)"
    using snoc.prems by (auto simp: ohas_okeys okeys_def owf_def rev_image_eqI dest!: pick_key)
  moreover obtain k v where e: "e = (k, v)" by (cases e)
  ultimately show ?case using snoc
    by (auto simp: collect_def owf_def okeys_def pick_def [of f "(k, v)"] oset_absent split: option.splits)
qed (simp add: collect_def)

lemma collect_empty: "owf o' \<Longrightarrow> collect f o' = [] \<longleftrightarrow> list_all (\<lambda>(k, v). f k v = None) o'"
  by (auto simp: collect_eq pick_def list_all_iff split: option.splits)

lemma collect_mem: "owf o' \<Longrightarrow> (k, x) \<in> set (collect f o') \<longleftrightarrow> (\<exists>v. (k, v) \<in> set o' \<and> f k v = Some x)"
  by (force simp: collect_eq pick_def split: option.splits)

lemma distinct_picks: "distinct (map fst o') \<Longrightarrow> distinct (map fst (concat (map (pick f) o')))"
proof (induction o')
  case (Cons e o')
  have "fst e \<notin> fst ` set (concat (map (pick f) o'))"
    using Cons.prems by (auto simp: rev_image_eqI dest!: pick_key)
  then show ?case using Cons
    by (auto simp: pick_def split: option.splits)
qed simp

lemma owf_collect: "owf o' \<Longrightarrow> owf (collect f o')"
  by (simp add: collect_eq owf_def okeys_def distinct_picks)

lemma collect_twice:
  assumes "owf o'" and "\<And>k v x. (k, v) \<in> set o' \<Longrightarrow> f k v = Some x \<Longrightarrow> g k x = Some x"
  shows "collect g (collect f o') = collect f o'"
proof -
  have "\<And>e. e \<in> set o' \<Longrightarrow> concat (map (pick g) (pick f e)) = pick f e"
    using assms(2) by (auto simp: pick_def split: option.splits)
  then have "concat (map (pick g) (concat (map (pick f) o'))) = concat (map (pick f) o')"
    by (induction o') auto
  then show ?thesis using assms(1) owf_collect [OF assms(1), of f] by (simp add: collect_eq)
qed

subsection \<open>The operations\<close>

definition isImpliedCapabilityMember :: "string \<Rightarrow> string \<Rightarrow> obj \<Rightarrow> bool" where
  "isImpliedCapabilityMember capability member declaredValue \<longleftrightarrow>
     capability = ''elicitation'' \<and> member = ''form''
     \<and> oget declaredValue ''form'' = JUndef \<and> oget declaredValue ''url'' = JUndef"

definition requiredClientCapabilitiesForInputRequest :: "string \<Rightarrow> js \<Rightarrow> obj option" where
  "requiredClientCapabilitiesForInputRequest m params =
     (if m = ''elicitation/create'' then
        (if getp params ''mode'' = JStr ''url'' then Some [(''elicitation'', JObj [(''url'', JObj [])])]
         else Some [(''elicitation'', JObj [(''form'', JObj [])])])
      else if m = ''sampling/createMessage'' then
        (if params \<noteq> JUndef \<and> (getp params ''tools'' \<noteq> JUndef \<or> getp params ''toolChoice'' \<noteq> JUndef)
         then Some [(''sampling'', JObj [(''tools'', JObj [])])]
         else Some [(''sampling'', JObj [])])
      else if m = ''roots/list'' then Some [(''roots'', JObj [])]
      else None)"

text \<open>The static per-method table is empty at this commit.\<close>

definition REQUIRED_CLIENT_CAPABILITIES_BY_METHOD :: "(string \<times> obj) list" where
  "REQUIRED_CLIENT_CAPABILITIES_BY_METHOD = []"

definition requiredClientCapabilitiesForRequest :: "string \<Rightarrow> obj option" where
  "requiredClientCapabilitiesForRequest m = map_of REQUIRED_CLIENT_CAPABILITIES_BY_METHOD m"

definition missingMember :: "string \<Rightarrow> obj \<Rightarrow> string \<Rightarrow> js \<Rightarrow> js option" where
  "missingMember capability declaredValue member memberRequirement =
     (if memberRequirement \<noteq> JUndef \<and> oget declaredValue member = JUndef
         \<and> \<not> isImpliedCapabilityMember capability member declaredValue
      then Some memberRequirement else None)"

definition missingCapability :: "obj option \<Rightarrow> string \<Rightarrow> js \<Rightarrow> js option" where
  "missingCapability declared capability requirement =
     (if requirement = JUndef then None
      else
        (let declaredValue = (case declared of None \<Rightarrow> JUndef | Some d \<Rightarrow> oget d capability) in
         if declaredValue = JUndef then Some requirement
         else
           (case (requirement, declaredValue) of
              (JObj members, JObj dv) \<Rightarrow>
                (let missingMembers = collect (missingMember capability dv) members in
                 if 0 < length (okeys missingMembers) then Some (JObj missingMembers) else None)
            | _ \<Rightarrow> None)))"

definition missingClientCapabilities :: "obj \<Rightarrow> obj option \<Rightarrow> obj option" where
  "missingClientCapabilities required declared =
     (let missing = collect (missingCapability declared) required in
      if 0 < length (okeys missing) then Some missing else None)"

subsection \<open>What counts as declared\<close>

text \<open>
  The documented reading: a capability is declared when its key is present and, where the
  requirement names members, each named member is present under it, a bare
  \<open>elicitation\<close> object standing for its form member.
\<close>

definition member_declared :: "string \<Rightarrow> obj \<Rightarrow> string \<Rightarrow> bool" where
  "member_declared capability dv member \<longleftrightarrow>
     oget dv member \<noteq> JUndef \<or> isImpliedCapabilityMember capability member dv"

definition capability_declared :: "obj option \<Rightarrow> string \<Rightarrow> js \<Rightarrow> bool" where
  "capability_declared declared capability requirement \<longleftrightarrow>
     (case declared of None \<Rightarrow> False | Some d \<Rightarrow>
        (case oget d capability of
           JUndef \<Rightarrow> False
         | JObj dv \<Rightarrow>
             (case requirement of
                JObj members \<Rightarrow> list_all (\<lambda>(k, r). r = JUndef \<or> member_declared capability dv k) members
              | _ \<Rightarrow> True)
         | _ \<Rightarrow> True))"

definition caps_wf :: "obj \<Rightarrow> bool" where
  "caps_wf o' \<longleftrightarrow> owf o' \<and> list_all (\<lambda>(k, v). case v of JObj members \<Rightarrow> owf members | _ \<Rightarrow> True) o'"

lemma missingMember_None: "missingMember c dv k r = None \<longleftrightarrow> r = JUndef \<or> member_declared c dv k"
  by (auto simp: missingMember_def member_declared_def)

lemma missingCapability_None:
  assumes "case r of JObj members \<Rightarrow> owf members | _ \<Rightarrow> True"
  shows "missingCapability declared c r = None \<longleftrightarrow> r = JUndef \<or> capability_declared declared c r"
  using assms
  by (auto simp: missingCapability_def capability_declared_def Let_def okeys_def collect_empty missingMember_None
      split: option.splits js.splits)

lemma missingCapability_again:
  assumes "case r of JObj members \<Rightarrow> owf members | _ \<Rightarrow> True" and "missingCapability declared c r = Some x"
  shows "missingCapability declared c x = Some x"
proof -
  have "collect (missingMember c dv) (collect (missingMember c dv) ms) = collect (missingMember c dv) ms"
    if "owf ms" for dv ms
    by (rule collect_twice [OF that]) (auto simp: missingMember_def split: if_splits)
  then show ?thesis using assms
    by (auto simp: missingCapability_def Let_def okeys_def split: if_splits option.splits js.splits)
qed

lemma missing_None: "missingClientCapabilities required declared = None
    \<longleftrightarrow> collect (missingCapability declared) required = []"
  by (simp add: missingClientCapabilities_def okeys_def Let_def)

lemma caps_wf_entry: "caps_wf o' \<Longrightarrow> (k, v) \<in> set o' \<Longrightarrow> case v of JObj members \<Rightarrow> owf members | _ \<Rightarrow> True"
  by (auto simp: caps_wf_def list_all_iff)

text \<open>
  the check is exact. Nothing is reported missing precisely when every requirement is
  declared; what is reported names only required capabilities that are not declared and,
  checked against the same declaration, is itself missing in full.
\<close>

theorem missing_capabilities_exact:
  assumes "caps_wf required"
  shows "(case missingClientCapabilities required declared of
            None \<Rightarrow> list_all (\<lambda>(c, r). r = JUndef \<or> capability_declared declared c r) required
          | Some m \<Rightarrow> m \<noteq> []
              \<and> list_all (\<lambda>(c, x). list_ex (\<lambda>(c', r). c' = c \<and> \<not> capability_declared declared c r) required) m
              \<and> missingClientCapabilities m declared = Some m)"
proof -
  have wf: "owf required" using assms by (simp add: caps_wf_def)
  note entry = caps_wf_entry [OF assms]
  let ?m = "collect (missingCapability declared) required"
  show ?thesis
  proof (cases "?m = []")
    case True
    then have "list_all (\<lambda>(c, r). missingCapability declared c r = None) required"
      using collect_empty [OF wf] by simp
    then show ?thesis using True entry missing_None [of required declared]
      by (fastforce simp: missingCapability_None list_all_iff)
  next
    case False
    then have m: "missingClientCapabilities required declared = Some ?m"
      by (simp add: missingClientCapabilities_def okeys_def Let_def)
    have "list_ex (\<lambda>(c', r). c' = c \<and> \<not> capability_declared declared c r) required"
      if "(c, x) \<in> set ?m" for c x
    proof -
      obtain r where r: "(c, r) \<in> set required" "missingCapability declared c r = Some x"
        using \<open>(c, x) \<in> set ?m\<close> collect_mem [OF wf] by blast
      then have "\<not> capability_declared declared c r"
        using missingCapability_None [OF entry [OF r(1)], of declared c] by simp
      with r(1) show ?thesis by (force simp: list_ex_iff)
    qed
    moreover have "collect (missingCapability declared) ?m = ?m"
      by (rule collect_twice [OF wf]) (rule missingCapability_again [OF entry])
    ultimately show ?thesis using False m
      by (auto simp: list_all_iff missingClientCapabilities_def okeys_def Let_def)
  qed
qed

theorem missing_capabilities_exact_witness:
  "missingClientCapabilities [(''elicitation'', JObj [(''url'', JObj [])]), (''roots'', JObj [])]
     (Some [(''elicitation'', JObj []), (''roots'', JObj [])]) = Some [(''elicitation'', JObj [(''url'', JObj [])])]
   \<and> missingClientCapabilities [(''elicitation'', JObj [(''url'', JObj [])])]
     (Some [(''elicitation'', JObj []), (''roots'', JObj [])]) = Some [(''elicitation'', JObj [(''url'', JObj [])])]"
proof -
  let ?r = "[(''elicitation'', JObj [(''url'', JObj [])]), (''roots'', JObj [])]"
  let ?d = "Some [(''elicitation'', JObj []), (''roots'', JObj [])]"
  have wf: "caps_wf ?r" by (simp add: caps_wf_def owf_def okeys_def)
  have c: "missingClientCapabilities ?r ?d = Some [(''elicitation'', JObj [(''url'', JObj [])])]"
    by (simp add: missingClientCapabilities_def collect_def missingCapability_def missingMember_def
        isImpliedCapabilityMember_def okeys_def)
  show ?thesis using missing_capabilities_exact [OF wf, of ?d] c by simp
qed

end
