(* ===== verification/Lift.thy ===== *)
theory Lift
  imports LegacyCodec ClientCapabilities
begin

text \<open>
  Pure parts of the protocol layer (shared/protocol.ts): the lift of wire-only material out
  of inbound messages, the merge of an outgoing message with the per-request envelope, and
  the merge of capability objects.
\<close>

definition RESERVED_ENVELOPE_META_KEYS :: "string list" where
  "RESERVED_ENVELOPE_META_KEYS =
     [PROTOCOL_VERSION_META_KEY, CLIENT_INFO_META_KEY, CLIENT_CAPABILITIES_META_KEY, LOG_LEVEL_META_KEY]"

definition RETRY_PARAMS_KEYS :: "string list" where
  "RETRY_PARAMS_KEYS = [''inputResponses'', ''requestState'']"

record lifted_material =
  lm_envelope :: "obj option"
  lm_inputResponses :: js
  lm_requestState :: js

definition nothing_lifted :: lifted_material where
  "nothing_lifted = \<lparr>lm_envelope = None, lm_inputResponses = JUndef, lm_requestState = JUndef\<rparr>"

text \<open>The two effects of the loop over the envelope keys: what is kept and what is removed.\<close>

definition envelopeOf :: "string list \<Rightarrow> obj \<Rightarrow> obj" where
  "envelopeOf keys meta = foldl (\<lambda>acc key. oset acc key (oget meta key)) [] keys"

definition without :: "string list \<Rightarrow> obj \<Rightarrow> obj" where
  "without keys o' = foldl odel o' keys"

definition liftWireOnlyMaterial :: "js \<Rightarrow> message_kind \<Rightarrow> js \<times> lifted_material" where
  "liftWireOnlyMaterial message kind =
     (case (message, getp message ''params'') of
        (JObj msg, JObj params) \<Rightarrow>
          (let meta = oget params ''_meta'';
               envelopeKeys = (case meta of JObj mt \<Rightarrow> filter (ohas mt) RESERVED_ENVELOPE_META_KEYS | _ \<Rightarrow> []);
               retryKeys = (if kind = K_request then filter (ohas params) RETRY_PARAMS_KEYS else [])
           in if length envelopeKeys = 0 \<and> length retryKeys = 0 then (message, nothing_lifted)
              else
                let mt = or_else (obj_of meta) [];
                    nextMeta = without envelopeKeys mt;
                    params1 = (if 0 < length envelopeKeys then
                                 (if 0 < length (okeys nextMeta) then oset params ''_meta'' (JObj nextMeta)
                                  else odel params ''_meta'')
                               else params)
                in (JObj (oset msg ''params'' (JObj (without retryKeys params1))),
                    \<lparr>lm_envelope = (if 0 < length envelopeKeys then Some (envelopeOf envelopeKeys mt) else None),
                     lm_inputResponses = (if ''inputResponses'' \<in> set retryKeys then oget params1 ''inputResponses'' else JUndef),
                     lm_requestState = (if ''requestState'' \<in> set retryKeys then oget params1 ''requestState'' else JUndef)\<rparr>))
      | _ \<Rightarrow> (message, nothing_lifted))"

text \<open>
  \<open>_envelopeOutbound\<close>: the auto-attached envelope under the user's own \<open>_meta\<close> keys. The
  spread of a missing \<open>_meta\<close> is empty.
\<close>

definition envelopeOutbound :: "obj option \<Rightarrow> js \<Rightarrow> js" where
  "envelopeOutbound envelope message =
     (case (envelope, message) of
        (Some env, JObj msg) \<Rightarrow>
          (let params = or_else (obj_of (oget msg ''params'')) [];
               userMeta = or_else (obj_of (oget params ''_meta'')) []
           in JObj (oset msg ''params'' (JObj (oset params ''_meta'' (JObj (ospread env userMeta))))))
      | _ \<Rightarrow> message)"

definition mergeCapabilities :: "obj \<Rightarrow> obj \<Rightarrow> obj" where
  "mergeCapabilities base additional =
     fold (\<lambda>(k, addValue) result.
         if addValue = JUndef then result
         else oset result k
           (case (oget result k, addValue) of
              (JObj b, JObj a) \<Rightarrow> JObj (ospread b a)
            | _ \<Rightarrow> addValue))
       additional base"

subsection \<open>Facts\<close>

lemma oget_without: "oget (without ks o') k = (if k \<in> set ks then JUndef else oget o' k)"
  by (induction ks arbitrary: o') (auto simp: without_def)

lemma ohas_without: "ohas (without ks o') k \<longleftrightarrow> k \<notin> set ks \<and> ohas o' k"
  by (induction ks arbitrary: o') (auto simp: without_def)

lemma without_Nil [simp]: "without [] o' = o'"
  by (simp add: without_def)

lemma envelopeOf_acc:
  "oget (foldl (\<lambda>acc key. oset acc key (oget meta key)) acc ks) k = (if k \<in> set ks then oget meta k else oget acc k)"
  by (induction ks arbitrary: acc) auto

lemma oget_envelopeOf: "oget (envelopeOf ks meta) k = (if k \<in> set ks then oget meta k else JUndef)"
  by (simp add: envelopeOf_def envelopeOf_acc)

text \<open>What a handler may see of the params after the lift.\<close>

definition wire_free :: "message_kind \<Rightarrow> js \<Rightarrow> bool" where
  "wire_free kind params \<longleftrightarrow>
     (case getp params ''_meta'' of JObj mt \<Rightarrow> list_all (\<lambda>k. \<not> ohas mt k) RESERVED_ENVELOPE_META_KEYS | _ \<Rightarrow> True)
     \<and> (case params of JObj p \<Rightarrow> kind = K_request \<longrightarrow> list_all (\<lambda>k. \<not> ohas p k) RETRY_PARAMS_KEYS | _ \<Rightarrow> True)"

lemma lift_cases:
  obtains (plain) "liftWireOnlyMaterial m kind = (m, nothing_lifted)" "wire_free kind (getp m ''params'')"
  | (lifted) msg params meta envelopeKeys retryKeys params1 where
      "m = JObj msg" "oget msg ''params'' = JObj params" "meta = or_else (obj_of (oget params ''_meta'')) []"
      "envelopeKeys = filter (ohas meta) RESERVED_ENVELOPE_META_KEYS"
      "retryKeys = (if kind = K_request then filter (ohas params) RETRY_PARAMS_KEYS else [])"
      "params1 = (if 0 < length envelopeKeys then
                    (if 0 < length (okeys (without envelopeKeys meta))
                     then oset params ''_meta'' (JObj (without envelopeKeys meta)) else odel params ''_meta'')
                  else params)"
      "liftWireOnlyMaterial m kind = (JObj (oset msg ''params'' (JObj (without retryKeys params1))),
         \<lparr>lm_envelope = (if 0 < length envelopeKeys then Some (envelopeOf envelopeKeys meta) else None),
          lm_inputResponses = (if ''inputResponses'' \<in> set retryKeys then oget params1 ''inputResponses'' else JUndef),
          lm_requestState = (if ''requestState'' \<in> set retryKeys then oget params1 ''requestState'' else JUndef)\<rparr>)"
proof (cases "\<exists>msg params. m = JObj msg \<and> oget msg ''params'' = JObj params")
  case False
  then have "liftWireOnlyMaterial m kind = (m, nothing_lifted)"
    by (cases m; cases "getp m ''params''") (auto simp: liftWireOnlyMaterial_def)
  moreover have "wire_free kind (getp m ''params'')"
    using False by (cases m; cases "getp m ''params''") (auto simp: wire_free_def)
  ultimately show thesis by (rule plain)
next
  case True
  then obtain msg params where m: "m = JObj msg" "oget msg ''params'' = JObj params" by blast
  define meta where "meta = or_else (obj_of (oget params ''_meta'')) []"
  define envelopeKeys where "envelopeKeys = filter (ohas meta) RESERVED_ENVELOPE_META_KEYS"
  define retryKeys where "retryKeys = (if kind = K_request then filter (ohas params) RETRY_PARAMS_KEYS else [])"
  have ek: "(case oget params ''_meta'' of JObj mt \<Rightarrow> filter (ohas mt) RESERVED_ENVELOPE_META_KEYS | _ \<Rightarrow> []) = envelopeKeys"
    by (cases "oget params ''_meta''") (simp_all add: envelopeKeys_def meta_def)
  show thesis
  proof (cases "length envelopeKeys = 0 \<and> length retryKeys = 0")
    case True
    have "wire_free kind (JObj params)"
      using True by (cases "oget params ''_meta''")
        (auto simp: wire_free_def envelopeKeys_def retryKeys_def meta_def filter_empty_iff list_all_iff split: if_splits)
    then show thesis
      using True m ek plain by (simp add: liftWireOnlyMaterial_def retryKeys_def [symmetric])
  next
    case False
    show thesis
      by (rule lifted [OF m meta_def envelopeKeys_def retryKeys_def refl])
        (use False m ek in \<open>simp add: liftWireOnlyMaterial_def retryKeys_def [symmetric] meta_def Let_def\<close>)
  qed
qed

lemma reserved_not_retry: "k \<in> set RETRY_PARAMS_KEYS \<Longrightarrow> k \<noteq> ''_meta''"
  by (auto simp: RETRY_PARAMS_KEYS_def)

lemma oget_empty_keys: "okeys o' = [] \<Longrightarrow> oget o' k = JUndef"
  by (simp add: okeys_def)

lemma getp_meta: "getp v k = oget (or_else (obj_of v) []) k"
  by (cases v) simp_all

definition lift_exact :: "message_kind \<Rightarrow> js \<Rightarrow> js \<Rightarrow> lifted_material \<Rightarrow> string \<Rightarrow> bool" where
  "lift_exact kind m m' l k \<longleftrightarrow>
     wire_free kind (getp m' ''params'')
     \<and> (k \<noteq> ''params'' \<longrightarrow> getp m' k = getp m k)
     \<and> (k \<notin> set RETRY_PARAMS_KEYS \<and> k \<noteq> ''_meta'' \<longrightarrow> getp (getp m' ''params'') k = getp (getp m ''params'') k)
     \<and> getp (getp (getp m ''params'') ''_meta'') k
         = (if k \<in> set RESERVED_ENVELOPE_META_KEYS then oget (or_else (lm_envelope l) []) k
            else getp (getp (getp m' ''params'') ''_meta'') k)
     \<and> (kind = K_request \<longrightarrow> lm_inputResponses l = getp (getp m ''params'') ''inputResponses''
                         \<and> lm_requestState l = getp (getp m ''params'') ''requestState'')"

lemma wire_free_plain:
  assumes "wire_free kind (getp m ''params'')" shows "lift_exact kind m m nothing_lifted k"
proof -
  have "k \<in> set RESERVED_ENVELOPE_META_KEYS \<Longrightarrow> getp (getp (getp m ''params'') ''_meta'') k = JUndef"
    using assms by (cases "getp (getp m ''params'') ''_meta''") (auto simp: wire_free_def list_all_iff oget_absent)
  moreover have "kind = K_request \<Longrightarrow> k' \<in> set RETRY_PARAMS_KEYS \<Longrightarrow> getp (getp m ''params'') k' = JUndef" for k'
    using assms by (cases "getp m ''params''") (auto simp: wire_free_def list_all_iff oget_absent)
  ultimately show ?thesis
    using assms by (auto simp: lift_exact_def nothing_lifted_def RETRY_PARAMS_KEYS_def)
qed

lemma lift_is_exact: "lift_exact kind m (fst (liftWireOnlyMaterial m kind)) (snd (liftWireOnlyMaterial m kind)) k"
proof (cases rule: lift_cases [of m kind])
  case plain
  then show ?thesis using wire_free_plain by simp
next
  case (lifted msg params meta ek rk p1)
  have rk: "set rk \<subseteq> set RETRY_PARAMS_KEYS" "kind = K_request \<Longrightarrow> k' \<in> set RETRY_PARAMS_KEYS \<Longrightarrow> k' \<notin> set rk \<Longrightarrow> \<not> ohas params k'"
    for k' using lifted(5) by auto
  have ek: "k' \<in> set ek \<longleftrightarrow> k' \<in> set RESERVED_ENVELOPE_META_KEYS \<and> ohas meta k'" for k' using lifted(4) by auto
  have "''_meta'' \<notin> set rk" using rk(1) reserved_not_retry by blast
  have p1: "k' \<noteq> ''_meta'' \<Longrightarrow> oget p1 k' = oget params k' \<and> ohas p1 k' = ohas params k'" for k' using lifted(6) by auto
  have p1m: "getp (oget p1 ''_meta'') k' = (if k' \<in> set ek then JUndef else oget meta k')" for k'
  proof (cases "ek = []")
    case True
    then show ?thesis using lifted(3,6) by (simp add: getp_meta)
  next
    case False
    then show ?thesis using oget_empty_keys [of "without ek meta" k'] by (auto simp: lifted(6) oget_without)
  qed
  have notin: "k' \<in> set RESERVED_ENVELOPE_META_KEYS \<Longrightarrow> case oget p1 ''_meta'' of JObj mt \<Rightarrow> \<not> ohas mt k' | _ \<Rightarrow> True" for k'
  proof (cases "ek = []")
    case True
    assume "k' \<in> set RESERVED_ENVELOPE_META_KEYS"
    then have "\<not> ohas meta k'" using ek True by auto
    then show ?thesis using True lifted(3,6) by (cases "oget params ''_meta''") simp_all
  next
    case False
    assume "k' \<in> set RESERVED_ENVELOPE_META_KEYS"
    then show ?thesis using False ek by (auto simp: lifted(6) ohas_without)
  qed
  have wf: "wire_free kind (JObj (without rk p1))"
    using notin rk p1 reserved_not_retry \<open>''_meta'' \<notin> set rk\<close>
    by (auto simp: wire_free_def oget_without ohas_without list_all_iff split: js.splits)
  have m: "getp m ''params'' = JObj params" using lifted(1,2) by simp
  have meta: "getp (getp (JObj params) ''_meta'') k' = oget meta k'" for k' by (simp add: lifted(3) getp_meta)
  have env: "oget (or_else (if 0 < length ek then Some (envelopeOf ek meta) else None) []) k' = (if k' \<in> set ek then oget meta k' else JUndef)" for k'
    by (simp add: oget_envelopeOf)
  have reserved: "k \<in> set RESERVED_ENVELOPE_META_KEYS \<Longrightarrow> k \<notin> set ek \<Longrightarrow> oget meta k = JUndef"
    using ek by (simp add: oget_absent)
  have retry: "k' \<in> set RETRY_PARAMS_KEYS \<Longrightarrow> kind = K_request \<Longrightarrow>
      (if k' \<in> set rk then oget p1 k' else JUndef) = oget params k'" for k'
    using rk(2) p1 reserved_not_retry by (auto simp: oget_absent)
  have rest: "k \<noteq> ''params'' \<Longrightarrow> getp (JObj (oset msg ''params'' v)) k = getp m k" for v using lifted(1) by simp
  let ?m' = "JObj (oset msg ''params'' (JObj (without rk p1)))"
  have p': "getp ?m' ''params'' = JObj (without rk p1)" by simp
  have c3: "k \<notin> set RETRY_PARAMS_KEYS \<and> k \<noteq> ''_meta'' \<Longrightarrow> getp (JObj (without rk p1)) k = getp (JObj params) k"
    using rk(1) p1 [of k] by (auto simp: oget_without)
  have c4: "getp (getp (JObj (without rk p1)) ''_meta'') k = (if k \<in> set ek then JUndef else oget meta k)"
    using p1m [of k] \<open>''_meta'' \<notin> set rk\<close> by (simp add: oget_without)
  have ir: "''inputResponses'' \<in> set RETRY_PARAMS_KEYS" "''requestState'' \<in> set RETRY_PARAMS_KEYS"
    by (simp_all add: RETRY_PARAMS_KEYS_def)
  show ?thesis unfolding lifted(7) fst_conv snd_conv lift_exact_def m p' lifted_material.select_convs
  proof (intro conjI impI)
    show "wire_free kind (JObj (without rk p1))" by (rule wf)
    show "k \<noteq> ''params'' \<Longrightarrow> getp ?m' k = getp m k" by (rule rest)
    show "k \<notin> set RETRY_PARAMS_KEYS \<and> k \<noteq> ''_meta'' \<Longrightarrow> getp (JObj (without rk p1)) k = getp (JObj params) k" by (rule c3)
    show "getp (getp (JObj params) ''_meta'') k = (if k \<in> set RESERVED_ENVELOPE_META_KEYS
        then oget (or_else (if 0 < length ek then Some (envelopeOf ek meta) else None) []) k
        else getp (getp (JObj (without rk p1)) ''_meta'') k)"
      unfolding meta env c4 using ek [of k] reserved by auto
    show "kind = K_request \<Longrightarrow> (if ''inputResponses'' \<in> set rk then oget p1 ''inputResponses'' else JUndef) = getp (JObj params) ''inputResponses''"
      using retry [OF ir(1)] by simp
    show "kind = K_request \<Longrightarrow> (if ''requestState'' \<in> set rk then oget p1 ''requestState'' else JUndef) = getp (JObj params) ''requestState''"
      using retry [OF ir(2)] by simp
  qed
qed

text \<open>
  the lift hides the wire and loses nothing. No handler sees a reserved envelope key
  or, on requests, a retry member; every lifted value is the one received, and everything
  else in the message is untouched.
\<close>

theorem lift_hides_wire_material:
  "lift_exact kind message (fst (liftWireOnlyMaterial message kind)) (snd (liftWireOnlyMaterial message kind)) k"
  by (rule lift_is_exact)

text \<open>
  what an outgoing message carries. With an envelope, a user-supplied \<open>_meta\<close> key wins
  over the attached one, which is present otherwise, and no other member changes; without an
  envelope the message is sent as it is.
\<close>

theorem envelope_outbound_precedence:
  assumes "owf (or_else (obj_of (getp (getp (JObj msg) ''params'') ''_meta'')) [])"
  shows "envelopeOutbound None (JObj msg) = JObj msg
    \<and> getp (getp (getp (envelopeOutbound (Some env) (JObj msg)) ''params'') ''_meta'') k
        = (if ohas (or_else (obj_of (getp (getp (JObj msg) ''params'') ''_meta'')) []) k
           then getp (getp (getp (JObj msg) ''params'') ''_meta'') k else oget env k)
    \<and> (k \<noteq> ''params'' \<longrightarrow> getp (envelopeOutbound (Some env) (JObj msg)) k = oget msg k)
    \<and> (k \<noteq> ''_meta'' \<longrightarrow> getp (getp (envelopeOutbound (Some env) (JObj msg)) ''params'') k = getp (oget msg ''params'') k)"
proof -
  have p: "oget (or_else (obj_of v) []) x = getp v x" for v x by (simp add: getp_meta)
  show ?thesis using assms by (simp add: envelopeOutbound_def Let_def oget_ospread_wf p)
qed

theorem envelope_outbound_precedence_witness:
  "getp (getp (getp (envelopeOutbound (Some [(''a'', JNull), (''b'', JNull)])
      (JObj [(''params'', JObj [(''_meta'', JObj [(''a'', JBool True)])])])) ''params'') ''_meta'') ''a'' = JBool True"
  using envelope_outbound_precedence
    [of "[(''params'', JObj [(''_meta'', JObj [(''a'', JBool True)])])]" "[(''a'', JNull), (''b'', JNull)]" "''a''"]
  by (simp add: owf_def okeys_def)

end
