(* ===== verification/InputRequiredDriver.thy ===== *)
theory InputRequiredDriver
  imports WireCodec
begin

text \<open>
  Multi-round-trip requests on the client (shared/inputRequiredDriver.ts,
  shared/inputRequiredEngine.ts): the auto-fulfilment loop, the dispatch of one embedded
  request, the split of response entries and the options of a retry leg.

  The loop's surroundings are a function from the round to what happens in it: the order in
  which concurrent dispatches settle, their outcomes, the outcome of the pacing sleep, the
  clock and the answer to the retry. The loop returns its outcome and the steps it took.
\<close>

subsection \<open>Response entries\<close>

definition acceptedEntry :: "js \<Rightarrow> bool" where
  "acceptedEntry entry \<longleftrightarrow>
     (case entry of JObj o' \<Rightarrow> \<not> ohas o' ''method'' \<and> \<not> ohas o' ''result'' | _ \<Rightarrow> False)"

definition partitionInputResponses :: "js \<Rightarrow> obj \<times> string list" where
  "partitionInputResponses inputResponses =
     (case inputResponses of
        JObj ents \<Rightarrow>
          fold (\<lambda>(key, entry) (accepted, dropped).
              if \<not> acceptedEntry entry then (accepted, dropped @ [key]) else (oset accepted key entry, dropped))
            ents ([], [])
      | _ \<Rightarrow> ([], []))"

subsection \<open>Dispatching one embedded request\<close>

definition INPUT_REQUEST_METHODS_2026 :: "string list" where
  "INPUT_REQUEST_METHODS_2026 = [''elicitation/create'', ''sampling/createMessage'', ''roots/list'']"

definition hasInputRequestMethod :: "wire_era \<Rightarrow> string \<Rightarrow> bool" where
  "hasInputRequestMethod era m \<longleftrightarrow> era = Rev2026 \<and> m \<in> set INPUT_REQUEST_METHODS_2026"

text \<open>The request the registered handler is called with; its outcome is the handler's.\<close>

definition synthesizedRequest :: "string \<Rightarrow> string \<Rightarrow> js \<Rightarrow> js" where
  "synthesizedRequest key m params =
     JObj ([(''jsonrpc'', JStr ''2.0''), (''id'', JStr key), (''method'', JStr m)]
       @ (if isPlainObject params then [(''params'', params)] else []))"

definition dispatchInputRequest ::
  "(string \<Rightarrow> (js \<Rightarrow> err + js) option) \<Rightarrow> wire_era \<Rightarrow> string \<Rightarrow> js \<Rightarrow> err + js" where
  "dispatchInputRequest getRequestHandler era key entry =
     (case getp entry ''method'' of
        JStr m \<Rightarrow>
          if \<not> hasInputRequestMethod era m then
            Inl (SdkError InvalidResult
              (''Invalid input request '' @ sq key @ '': '' @ sq m @ '' is not an embedded request the '' @ wireEraName era
               @ '' revision defines (expected elicitation/create, sampling/createMessage, or roots/list)'')
              (JObj [(''key'', JStr key), (''method'', JStr m)]))
          else
            (case getRequestHandler m of
               None \<Rightarrow>
                 Inl (SdkError CapabilityNotSupported
                   (''Cannot fulfil input request '' @ sq key @ '': no handler is registered for '' @ sq m @ '' on this client. ''
                    @ ''Declare the corresponding capability and register a handler, or handle input_required results manually.'')
                   (JObj [(''key'', JStr key), (''method'', JStr m)]))
             | Some handler \<Rightarrow> handler (synthesizedRequest key m (getp entry ''params'')))
      | _ \<Rightarrow>
          Inl (SdkError InvalidResult
            (''Invalid input request '' @ sq key @ '': each inputRequests entry must be an embedded request object with a method'')
            (JObj [(''key'', JStr key)])))"

subsection \<open>The loop\<close>

record driver_config =
  dc_autoFulfill :: bool
  dc_maxRounds :: nat

definition resolveInputRequiredDriverConfig :: "bool option \<Rightarrow> nat option \<Rightarrow> driver_config" where
  "resolveInputRequiredDriverConfig autoFulfill maxRounds =
     \<lparr>dc_autoFulfill = or_else autoFulfill True, dc_maxRounds = or_else maxRounds 10\<rparr>"

record payload =
  pl_inputRequests :: obj
  pl_requestState :: "string option"

record leg_options =
  lo_timeout :: "int option"
  lo_maxTotalTimeout :: "int option"

record round_env =
  re_settleOrder :: "obj \<Rightarrow> obj"
  re_dispatch :: "string \<Rightarrow> js \<Rightarrow> err + js"
  re_sleep :: "err option"
  re_now :: int
  re_retry :: "js \<Rightarrow> leg_options \<Rightarrow> err + js"

datatype driver_step =
    ProgressStep nat
  | DispatchStep string
  | SleepStep nat
  | RetryStep js leg_options

record driver_call =
  dv_config :: driver_config
  dv_method :: string
  dv_params :: js
  dv_timeout :: "int option"
  dv_maxTotalTimeout :: "int option"
  dv_startedAt :: int

definition REQUEST_STATE_ONLY_LEG_PACING_MS :: nat where
  "REQUEST_STATE_ONLY_LEG_PACING_MS = 250"

text \<open>\<open>{ ...originalParams, ... }\<close>: the spread of an absent value is empty.\<close>

definition params_obj :: "js \<Rightarrow> obj" where
  "params_obj p = or_else (obj_of p) []"

definition buildInputRequiredRetryParams :: "js \<Rightarrow> obj option \<Rightarrow> string option \<Rightarrow> js" where
  "buildInputRequiredRetryParams originalParams responses requestState =
     (let hasResponses = (case responses of None \<Rightarrow> False | Some r \<Rightarrow> 0 < length (okeys r)) in
      if \<not> hasResponses \<and> requestState = None then originalParams
      else
        let withResponses = (if hasResponses then oset (params_obj originalParams) ''inputResponses'' (JObj (the responses))
                             else params_obj originalParams)
        in JObj (case requestState of None \<Rightarrow> withResponses
                 | Some s \<Rightarrow> oset withResponses ''requestState'' (JStr s)))"

definition inputRequiredRoundsExceededMessage :: "string \<Rightarrow> nat \<Rightarrow> string" where
  "inputRequiredRoundsExceededMessage m maxRounds =
     ''Multi-round-trip request '' @ sq m @ '' still required input after ''
     @ digits maxRounds @ '' rounds (inputRequired.maxRounds)''"

text \<open>
  \<open>Promise.all\<close> over the entries: the rejection that settles first, or the values in entry
  order. \<open>Object.fromEntries\<close> builds the response object.
\<close>

definition fulfilAll :: "round_env \<Rightarrow> obj \<Rightarrow> err + obj" where
  "fulfilAll env ents =
     (case List.find (\<lambda>(key, entry). isl (re_dispatch env key entry))
         (re_settleOrder env ents) of
        Some (key, entry) \<Rightarrow> Inl (projl (re_dispatch env key entry))
      | None \<Rightarrow> Inr (fold (\<lambda>(key, entry) acc. oset acc key (projr (re_dispatch env key entry))) ents []))"

definition roundsExceeded :: "driver_call \<Rightarrow> payload \<Rightarrow> err" where
  "roundsExceeded call p =
     SdkError InputRequiredRoundsExceeded
       (inputRequiredRoundsExceededMessage (dv_method call) (dc_maxRounds (dv_config call)))
       (JObj [(''rounds'', JNum (NInt (int (dc_maxRounds (dv_config call))))),
              (''lastResult'', JObj ([(''inputRequests'', JObj (pl_inputRequests p))]
                 @ (case pl_requestState p of None \<Rightarrow> [] | Some s \<Rightarrow> [(''requestState'', JStr s)])))])"

definition budgetExceeded :: "int \<Rightarrow> int \<Rightarrow> err" where
  "budgetExceeded budget elapsed =
     SdkError RequestTimeout ''Maximum total timeout exceeded''
       (JObj [(''maxTotalTimeout'', JNum (NInt budget)), (''totalElapsed'', JNum (NInt elapsed))])"

text \<open>The payload of a further \<open>input_required\<close> answer.\<close>

definition payloadOf :: "js \<Rightarrow> payload" where
  "payloadOf result =
     \<lparr>pl_inputRequests = or_else (obj_of (getp result ''inputRequests'')) [],
      pl_requestState = str_of (getp result ''requestState'')\<rparr>"

text \<open>The first half of a round: fulfil the embedded requests, or pace.\<close>

definition gatherResponses :: "round_env \<Rightarrow> payload \<Rightarrow> (err + obj option) \<times> driver_step list" where
  "gatherResponses env p =
     (let ents = pl_inputRequests p in
      if 0 < length ents then
        (case fulfilAll env ents of Inl e \<Rightarrow> Inl e | Inr r \<Rightarrow> Inr (Some r),
         map (\<lambda>e. DispatchStep (fst e)) ents)
      else
        (case re_sleep env of Some e \<Rightarrow> Inl e | None \<Rightarrow> Inr None,
         [SleepStep REQUEST_STATE_ONLY_LEG_PACING_MS]))"

text \<open>The options of the retry leg, with what is left of the total budget.\<close>

definition legOptions :: "driver_call \<Rightarrow> int \<Rightarrow> err + leg_options" where
  "legOptions call now =
     (case dv_maxTotalTimeout call of
        None \<Rightarrow> Inr \<lparr>lo_timeout = dv_timeout call, lo_maxTotalTimeout = None\<rparr>
      | Some budget \<Rightarrow>
          (let totalElapsed = now - dv_startedAt call; remaining = budget - totalElapsed in
           if remaining \<le> 0 then Inl (budgetExceeded budget totalElapsed)
           else Inr \<lparr>lo_timeout = dv_timeout call, lo_maxTotalTimeout = Some remaining\<rparr>))"

function runInputRequiredDriver ::
  "driver_call \<Rightarrow> (nat \<Rightarrow> round_env) \<Rightarrow> payload \<Rightarrow> nat \<Rightarrow> (err + js) \<times> driver_step list" where
  "runInputRequiredDriver call env p round0 =
     (let round = round0 + 1 in
      if dc_maxRounds (dv_config call) < round then (Inl (roundsExceeded call p), [])
      else
        (case gatherResponses (env round) p of
           (Inl e, steps) \<Rightarrow> (Inl e, ProgressStep round # steps)
         | (Inr responses, steps) \<Rightarrow>
             (case legOptions call (re_now (env round)) of
                Inl e \<Rightarrow> (Inl e, ProgressStep round # steps)
              | Inr opts \<Rightarrow>
                  (let params = buildInputRequiredRetryParams (dv_params call) responses (pl_requestState p);
                       steps' = ProgressStep round # steps @ [RetryStep params opts]
                   in (case re_retry (env round) params opts of
                         Inl e \<Rightarrow> (Inl e, steps')
                       | Inr result \<Rightarrow>
                           if isInputRequiredResult result then
                             (case runInputRequiredDriver call env (payloadOf result) round of
                                (out, rest) \<Rightarrow> (out, steps' @ rest))
                           else (Inr result, steps'))))))"
  by pat_completeness auto

termination
  by (relation "measure (\<lambda>(call, env, p, round). dc_maxRounds (dv_config call) - round)") auto

declare runInputRequiredDriver.simps [simp del]

text \<open>\<open>runInputRequiredFlow\<close> starts the loop at round 0 with the decoded payload.\<close>

definition runInputRequiredFlow ::
  "driver_call \<Rightarrow> (nat \<Rightarrow> round_env) \<Rightarrow> obj \<Rightarrow> string option \<Rightarrow> (err + js) \<times> driver_step list" where
  "runInputRequiredFlow call env inputRequests requestState =
     runInputRequiredDriver call env \<lparr>pl_inputRequests = inputRequests, pl_requestState = requestState\<rparr> 0"

definition manualInputRequiredValue :: "obj \<Rightarrow> string option \<Rightarrow> js option \<Rightarrow> js" where
  "manualInputRequiredValue inputRequests requestState meta =
     JObj ([(''resultType'', JStr ''input_required''), (''inputRequests'', JObj inputRequests)]
       @ (case requestState of None \<Rightarrow> [] | Some s \<Rightarrow> [(''requestState'', JStr s)])
       @ (case meta of None \<Rightarrow> [] | Some v \<Rightarrow> [(''_meta'', v)]))"

subsection \<open>Facts about the loop\<close>

fun retries :: "driver_step list \<Rightarrow> (js \<times> leg_options) list" where
  "retries [] = []"
| "retries (RetryStep params opts # ss) = (params, opts) # retries ss"
| "retries (s # ss) = retries ss"

fun progressed :: "driver_step list \<Rightarrow> nat list" where
  "progressed [] = []"
| "progressed (ProgressStep n # ss) = n # progressed ss"
| "progressed (s # ss) = progressed ss"

lemma retries_append [simp]: "retries (a @ b) = retries a @ retries b"
  by (induction a rule: retries.induct) auto

lemma progressed_append [simp]: "progressed (a @ b) = progressed a @ progressed b"
  by (induction a rule: progressed.induct) auto

lemma gather_steps [simp]:
  "gatherResponses e p = (x, steps) \<Longrightarrow> retries steps = []"
  "gatherResponses e p = (x, steps) \<Longrightarrow> progressed steps = []"
proof -
  have "retries (map (\<lambda>e. DispatchStep (fst e)) es) = []" "progressed (map (\<lambda>e. DispatchStep (fst e)) es) = []"
    for es :: obj
    by (induction es) auto
  then show "gatherResponses e p = (x, steps) \<Longrightarrow> retries steps = []"
    "gatherResponses e p = (x, steps) \<Longrightarrow> progressed steps = []"
    by (auto simp: gatherResponses_def Let_def split: if_splits)
qed

text \<open>The shapes a run can have: capped, failed before the retry, or one retry and maybe more.\<close>

lemma run_cases:
  fixes call env p r0
  defines "M \<equiv> dc_maxRounds (dv_config call)"
  obtains (capped) "M \<le> r0" "runInputRequiredDriver call env p r0 = (Inl (roundsExceeded call p), [])"
  | (failed) e steps where "r0 < M" "retries steps = []" "progressed steps = []"
      "runInputRequiredDriver call env p r0 = (Inl e, ProgressStep (Suc r0) # steps)"
  | (answered) responses opts params out steps where "r0 < M" "retries steps = []" "progressed steps = []"
      "legOptions call (re_now (env (Suc r0))) = Inr opts"
      "params = buildInputRequiredRetryParams (dv_params call) responses (pl_requestState p)"
      "runInputRequiredDriver call env p r0 = (out, ProgressStep (Suc r0) # steps @ [RetryStep params opts])"
      "out = re_retry (env (Suc r0)) params opts"
      "\<forall>x. out = Inr x \<longrightarrow> \<not> isInputRequiredResult x"
  | (again) responses opts params result out steps rest where "r0 < M" "retries steps = []" "progressed steps = []"
      "legOptions call (re_now (env (Suc r0))) = Inr opts"
      "params = buildInputRequiredRetryParams (dv_params call) responses (pl_requestState p)"
      "re_retry (env (Suc r0)) params opts = Inr result" "isInputRequiredResult result"
      "runInputRequiredDriver call env (payloadOf result) (Suc r0) = (out, rest)"
      "runInputRequiredDriver call env p r0 = (out, (ProgressStep (Suc r0) # steps @ [RetryStep params opts]) @ rest)"
proof (cases "M \<le> r0")
  case True
  then show thesis using capped by (simp add: runInputRequiredDriver.simps [of call env p r0] M_def)
next
  case False
  then have r0: "r0 < M" by simp
  obtain g steps where g: "gatherResponses (env (Suc r0)) p = (g, steps)" by (cases "gatherResponses (env (Suc r0)) p")
  note s = gather_steps [OF g]
  have eq: "runInputRequiredDriver call env p r0 =
      (case g of Inl e \<Rightarrow> (Inl e, ProgressStep (Suc r0) # steps)
       | Inr responses \<Rightarrow>
           (case legOptions call (re_now (env (Suc r0))) of
              Inl e \<Rightarrow> (Inl e, ProgressStep (Suc r0) # steps)
            | Inr opts \<Rightarrow>
                (let params = buildInputRequiredRetryParams (dv_params call) responses (pl_requestState p);
                     steps' = ProgressStep (Suc r0) # steps @ [RetryStep params opts]
                 in (case re_retry (env (Suc r0)) params opts of
                       Inl e \<Rightarrow> (Inl e, steps')
                     | Inr result \<Rightarrow>
                         if isInputRequiredResult result then
                           (case runInputRequiredDriver call env (payloadOf result) (Suc r0) of
                              (out, rest) \<Rightarrow> (out, steps' @ rest))
                         else (Inr result, steps')))))"
    using r0 by (subst runInputRequiredDriver.simps) (simp add: g M_def Let_def split: sum.split)
  show thesis
  proof (cases g)
    case (Inl e)
    then show thesis using failed r0 s eq by simp
  next
    case (Inr responses)
    show thesis
    proof (cases "legOptions call (re_now (env (Suc r0)))")
      case (Inl e)
      then show thesis using failed r0 s eq Inr by simp
    next
      case opts: (Inr opts)
      define params where "params = buildInputRequiredRetryParams (dv_params call) responses (pl_requestState p)"
      show thesis
      proof (cases "re_retry (env (Suc r0)) params opts")
        case (Inl e)
        show thesis
          by (rule answered [OF r0 s opts params_def, of "Inl e"])
            (simp_all add: eq Inr opts Inl params_def [symmetric] Let_def)
      next
        case res: (Inr result)
        show thesis
        proof (cases "isInputRequiredResult result")
          case True
          obtain out rest where run: "runInputRequiredDriver call env (payloadOf result) (Suc r0) = (out, rest)" by fastforce
          show thesis
            by (rule again [OF r0 s opts params_def res True run])
              (simp add: eq Inr opts res True run params_def [symmetric] Let_def)
        next
          case False
          then show thesis
            by (intro answered [OF r0 s opts params_def, of "Inr result"])
              (simp_all add: eq Inr opts res params_def [symmetric] Let_def)
        qed
      qed
    qed
  qed
qed

definition within_budget :: "driver_call \<Rightarrow> leg_options \<Rightarrow> bool" where
  "within_budget call opts \<longleftrightarrow> lo_timeout opts = dv_timeout call \<and>
     (case dv_maxTotalTimeout call of None \<Rightarrow> lo_maxTotalTimeout opts = None
      | Some budget \<Rightarrow> (case lo_maxTotalTimeout opts of None \<Rightarrow> False | Some left \<Rightarrow> 0 < left))"

lemma legOptions_within: "legOptions call now = Inr opts \<Longrightarrow> within_budget call opts"
  by (auto simp: legOptions_def within_budget_def Let_def split: option.splits if_splits)

lemma run_bounds:
  "length (retries (snd (runInputRequiredDriver call env p r0))) \<le> dc_maxRounds (dv_config call) - r0
   \<and> (\<exists>n. n \<le> dc_maxRounds (dv_config call) \<and>
        progressed (snd (runInputRequiredDriver call env p r0)) = [Suc r0..<Suc n])
   \<and> list_all (within_budget call) (map snd (retries (snd (runInputRequiredDriver call env p r0))))"
proof (induction "dc_maxRounds (dv_config call) - r0" arbitrary: r0 p rule: less_induct)
  case less
  show ?case
  proof (cases rule: run_cases [of call r0 env p])
    case capped
    then show ?thesis by (intro conjI exI [of _ 0]) auto
  next
    case (failed e steps)
    then show ?thesis by (intro conjI exI [of _ "Suc r0"]) auto
  next
    case (answered responses opts params out steps)
    then show ?thesis using legOptions_within [OF answered(4)] by (intro conjI exI [of _ "Suc r0"]) auto
  next
    case (again responses opts params result out steps rest)
    have m: "dc_maxRounds (dv_config call) - Suc r0 < dc_maxRounds (dv_config call) - r0" using again(1) by simp
    note IH = less [OF m, of "payloadOf result", unfolded again(8)]
    obtain n where n: "n \<le> dc_maxRounds (dv_config call)" "progressed rest = [Suc (Suc r0)..<Suc n]"
      using IH by auto
    have "Suc r0 # [Suc (Suc r0)..<Suc n] = [Suc r0..<Suc (max n (Suc r0))]"
      by (cases "Suc r0 \<le> n") (auto simp: upt_rec max_def)
    moreover have "max n (Suc r0) \<le> dc_maxRounds (dv_config call)" using n(1) again(1) by simp
    ultimately have "\<exists>n. n \<le> dc_maxRounds (dv_config call) \<and>
        progressed (snd (runInputRequiredDriver call env p r0)) = [Suc r0..<Suc n]"
      by (intro exI [of _ "max n (Suc r0)"]) (simp only: again(3,9) n(2) snd_conv progressed_append progressed.simps append.simps append_Nil simp_thms)
    moreover have "length (retries rest) \<le> dc_maxRounds (dv_config call) - Suc r0"
      "list_all (within_budget call) (map snd (retries rest))" using IH by simp_all
    ultimately show ?thesis using again(1,2) legOptions_within [OF again(4)] by (simp add: again(9))
  qed
qed


text \<open>The payload the retry with a given index answers: the first one, or the previous leg's answer.\<close>

definition answeredPayload :: "(nat \<Rightarrow> round_env) \<Rightarrow> payload \<Rightarrow> nat \<Rightarrow> (js \<times> leg_options) list \<Rightarrow> nat \<Rightarrow> payload" where
  "answeredPayload env p r0 rs i =
     (case i of 0 \<Rightarrow> p
      | Suc j \<Rightarrow> payloadOf (projr (re_retry (env (Suc (r0 + j))) (fst (rs ! j)) (snd (rs ! j)))))"

definition echoes :: "driver_call \<Rightarrow> payload \<Rightarrow> js \<Rightarrow> bool" where
  "echoes call p params \<longleftrightarrow> getp params ''requestState''
     = (case pl_requestState p of Some s \<Rightarrow> JStr s | None \<Rightarrow> getp (dv_params call) ''requestState'')"

lemma params_obj_get: "oget (params_obj v) k = getp v k"
  by (cases v) (simp_all add: params_obj_def)

lemma retry_params_echo: "echoes call p (buildInputRequiredRetryParams (dv_params call) responses (pl_requestState p))"
  by (auto simp: echoes_def buildInputRequiredRetryParams_def Let_def params_obj_get split: option.split)

lemma retry_params_keep:
  "k \<notin> {''inputResponses'', ''requestState''} \<Longrightarrow>
     getp (buildInputRequiredRetryParams orig responses st) k = getp orig k"
  by (auto simp: buildInputRequiredRetryParams_def Let_def params_obj_get split: option.split)

abbreviation run_retries :: "driver_call \<Rightarrow> (nat \<Rightarrow> round_env) \<Rightarrow> payload \<Rightarrow> nat \<Rightarrow> (js \<times> leg_options) list" where
  "run_retries call env p r0 \<equiv> retries (snd (runInputRequiredDriver call env p r0))"

lemma run_echoes:
  "i < length (run_retries call env p r0) \<Longrightarrow>
     echoes call (answeredPayload env p r0 (run_retries call env p r0) i) (fst (run_retries call env p r0 ! i))
     \<and> (k \<notin> {''inputResponses'', ''requestState''} \<longrightarrow>
          getp (fst (run_retries call env p r0 ! i)) k = getp (dv_params call) k)"
proof (induction i arbitrary: p r0)
  case 0
  show ?case
    by (rule run_cases [of call r0 env p])
      (use 0 in \<open>auto simp: answeredPayload_def retry_params_echo retry_params_keep\<close>)
next
  case (Suc i)
  show ?case
  proof (cases rule: run_cases [of call r0 env p])
    case (again responses opts params result out steps rest)
    let ?rest = "run_retries call env (payloadOf result) (Suc r0)"
    have rs: "run_retries call env p r0 = (params, opts) # ?rest"
      using again(2,8) by (simp add: again(9))
    have "answeredPayload env p r0 ((params, opts) # ?rest) (Suc i) = answeredPayload env (payloadOf result) (Suc r0) ?rest i"
      using again(6) by (cases i) (simp_all add: answeredPayload_def)
    then show ?thesis using Suc.IH [of "payloadOf result" "Suc r0"] Suc.prems
      unfolding rs by simp
  qed (use Suc.prems in auto)
qed

text \<open>
  the opaque state is echoed byte for byte. Each retry carries the \<open>requestState\<close> of
  the answer it follows (the caller's own member when there was none) and every other
  member of the original parameters unchanged.
\<close>

theorem retries_echo_state:
  assumes "rs = retries (snd (runInputRequiredFlow call env reqs st))" and "i < length rs"
  shows "echoes call (answeredPayload env \<lparr>pl_inputRequests = reqs, pl_requestState = st\<rparr> 0 rs i) (fst (rs ! i))
    \<and> (k \<notin> {''inputResponses'', ''requestState''} \<longrightarrow> getp (fst (rs ! i)) k = getp (dv_params call) k)"
  using run_echoes [of i call env "\<lparr>pl_inputRequests = reqs, pl_requestState = st\<rparr>" 0 k] assms
  by (simp add: runInputRequiredFlow_def)

definition demo_call :: driver_call where
  "demo_call = \<lparr>dv_config = \<lparr>dc_autoFulfill = True, dc_maxRounds = 3\<rparr>, dv_method = ''tools/call'',
     dv_params = JObj [(''name'', JStr ''t'')], dv_timeout = None, dv_maxTotalTimeout = None, dv_startedAt = 0\<rparr>"

definition demo_env :: "nat \<Rightarrow> round_env" where
  "demo_env n = \<lparr>re_settleOrder = (\<lambda>e. e), re_dispatch = (\<lambda>_ _. Inr JNull), re_sleep = None, re_now = 0,
     re_retry = (\<lambda>_ _. if n = 1 then Inr (JObj [(''resultType'', JStr ''input_required''), (''requestState'', JStr ''s2'')])
                        else Inr (JObj []))\<rparr>"

lemma demo_retries: "map fst (retries (snd (runInputRequiredFlow demo_call demo_env [] (Some ''s1''))))
    = [JObj [(''name'', JStr ''t''), (''requestState'', JStr ''s1'')], JObj [(''name'', JStr ''t''), (''requestState'', JStr ''s2'')]]"
  by (simp add: runInputRequiredFlow_def runInputRequiredDriver.simps demo_call_def demo_env_def gatherResponses_def
      legOptions_def buildInputRequiredRetryParams_def params_obj_def isInputRequiredResult_def payloadOf_def)

theorem retries_echo_state_witness:
  "echoes demo_call (answeredPayload demo_env \<lparr>pl_inputRequests = [], pl_requestState = Some ''s1''\<rparr> 0
       (retries (snd (runInputRequiredFlow demo_call demo_env [] (Some ''s1'')))) 1)
     (fst (retries (snd (runInputRequiredFlow demo_call demo_env [] (Some ''s1''))) ! 1))"
  by (rule conjunct1 [OF retries_echo_state [OF refl, where k = "''name''"]])
    (use arg_cong [OF demo_retries, of length] in simp)

end
