(* ===== verification/ProtocolOutbound.thy ===== *)
theory ProtocolOutbound
  imports Lift InputRequiredDriver
begin

text \<open>
  The state of a \<open>Protocol\<close> instance and its outbound half (shared/protocol.ts): sending a
  request, matching responses, progress and timeouts, cancellation, notifications with
  debouncing, and the teardown on close.

  A pending request is the promise and the closure the code keeps for it: its phase, the
  \<open>responseReceived\<close> flag and whether the caller's signal was aborted. The maps of the
  class are lists in insertion order. Promise reactions (\<open>finally\<close>) run to completion before
  the next event. Every operation returns the new state and the calls it makes outwards.
\<close>

subsection \<open>\<open>Number(v)\<close> for message ids and progress tokens\<close>

definition radixDigit :: "nat \<Rightarrow> nat option" where
  "radixDigit u =
     (if 48 \<le> u \<and> u \<le> 57 then Some (u - 48) else if 97 \<le> u \<and> u \<le> 102 then Some (u - 87)
      else if 65 \<le> u \<and> u \<le> 70 then Some (u - 55) else None)"

definition radixValue :: "nat \<Rightarrow> ustr \<Rightarrow> nat option" where
  "radixValue base us =
     (if us \<noteq> [] \<and> list_all (\<lambda>u. case radixDigit u of None \<Rightarrow> False | Some d \<Rightarrow> d < base) us
      then Some (foldl (\<lambda>acc u. acc * base + the (radixDigit u)) 0 us) else None)"

definition splitSign :: "ustr \<Rightarrow> bool \<times> ustr" where
  "splitSign us = (case us of [] \<Rightarrow> (False, []) | c # cs \<Rightarrow>
     if c = 45 then (True, cs) else if c = 43 then (False, cs) else (False, us))"

text \<open>A decimal literal: sign, digits as a number, power of ten.\<close>

definition decimalLiteral :: "ustr \<Rightarrow> (bool \<times> nat \<times> int) option" where
  "decimalLiteral us =
     (let neg = fst (splitSign us); s = snd (splitSign us);
          mant = takeWhile (\<lambda>u. u \<noteq> 101 \<and> u \<noteq> 69) s; erest = dropWhile (\<lambda>u. u \<noteq> 101 \<and> u \<noteq> 69) s;
          ip = takeWhile (\<lambda>u. u \<noteq> 46) mant; frest = dropWhile (\<lambda>u. u \<noteq> 46) mant; fp = drop 1 frest;
          eneg = fst (splitSign (drop 1 erest)); eds = snd (splitSign (drop 1 erest))
      in if list_all digit_unit (ip @ fp) \<and> ip @ fp \<noteq> [] \<and> (erest = [] \<or> eds \<noteq> [] \<and> list_all digit_unit eds)
         then Some (neg, digits_value (ip @ fp),
                (if eneg then - int (digits_value eds) else int (digits_value eds)) - int (length fp))
         else None)"

definition numberOfText :: "ustr \<Rightarrow> dbl option" where
  "numberOfText raw =
     (let us = utrim raw in
      if us = [] then Some (Fin False 0 0)
      else if take 2 us \<in> {[48, 120], [48, 88]} then map_option (\<lambda>n. nearest_double False n 1) (radixValue 16 (drop 2 us))
      else if take 2 us \<in> {[48, 111], [48, 79]} then map_option (\<lambda>n. nearest_double False n 1) (radixValue 8 (drop 2 us))
      else if take 2 us \<in> {[48, 98], [48, 66]} then map_option (\<lambda>n. nearest_double False n 1) (radixValue 2 (drop 2 us))
      else if snd (splitSign us) = units ''Infinity'' then Some (Inf (fst (splitSign us)))
      else map_option (\<lambda>(neg, n, x). nearest_double neg (n * 10 ^ nat x) (10 ^ nat (- x))) (decimalLiteral us))"

text \<open>The message id a double is, if it is a natural number.\<close>

definition natOfDouble :: "dbl \<Rightarrow> nat option" where
  "natOfDouble d =
     (case d of
        Fin neg m e \<Rightarrow>
          (if neg \<and> m \<noteq> 0 then None
           else if 0 \<le> e then Some (m * 2 ^ nat e)
           else if m mod 2 ^ nat (- e) = 0 then Some (m div 2 ^ nat (- e)) else None)
      | Inf _ \<Rightarrow> None)"

definition messageIdOf :: "js \<Rightarrow> nat option" where
  "messageIdOf v =
     (case v of
        JNum (NInt n) \<Rightarrow> if 0 \<le> n then Some (nat n) else None
      | JStr s \<Rightarrow> Option.bind (numberOfText (units s)) natOfDouble
      | _ \<Rightarrow> None)"

subsection \<open>State\<close>

record timeout_info =
  ti_fireAt :: int
  ti_startTime :: int
  ti_timeout :: int
  ti_maxTotalTimeout :: "int option"
  ti_resetTimeoutOnProgress :: bool

datatype phase = Waiting | Validating js | Delegated | Resolved js | Rejected err

record request_rec =
  rq_method :: string
  rq_codec :: wire_era
  rq_phase :: phase
  rq_received :: bool
  rq_aborted :: bool
  rq_allowInputRequired :: bool
  rq_streamCloseCancels :: bool

record inbound_task =
  tk_id :: js
  tk_method :: string
  tk_codec :: wire_era
  tk_transport :: "nat option"
  tk_aborted :: bool
  tk_done :: bool

record proto_state =
  ps_transport :: "(nat \<times> bool) option"
  ps_requestMessageId :: nat
  ps_requests :: "nat \<rightharpoonup> request_rec"
  ps_responseHandlers :: "nat list"
  ps_progressHandlers :: "nat list"
  ps_timeoutInfo :: "(nat \<times> timeout_info) list"
  ps_pendingDebounced :: "string list"
  ps_microtasks :: "(string \<times> js) list"
  ps_negotiated :: "string option"
  ps_abortControllers :: "(js \<times> nat) list"
  ps_tasks :: "nat \<rightharpoonup> inbound_task"
  ps_nextTask :: nat
  ps_requestHandlers :: "string list"
  ps_customSchemaMethods :: "string list"
  ps_notificationHandlers :: "string list"
  ps_builtinNotifications :: "string list"

text \<open>
  What the instance is configured with and what its subclass overrides: the envelope of the
  negotiated version, the capability assertions, the drop consult, the identity.
\<close>

record proto_config =
  pc_enforceStrict :: bool
  pc_supportedVersions :: "string list"
  pc_debounced :: "string list"
  pc_metaEnvelope :: "string option \<Rightarrow> obj option"
  pc_assertCapability :: "string \<Rightarrow> err option"
  pc_assertNotification :: "string \<Rightarrow> err option"
  pc_shouldDrop :: "js \<Rightarrow> bool"
  pc_serverInfo :: "js option"
  pc_fallbackRequest :: bool
  pc_fallbackNotification :: bool
  pc_schemaIssues :: schema_issues
  pc_wireParse :: "string \<Rightarrow> js \<Rightarrow> string option"
  pc_metaParse :: "js \<Rightarrow> js option"

datatype effect =
    SendMsg nat js
  | AbortStream nat
  | OnError string
  | CallProgress nat js
  | CallNotification string js
  | StartHandler nat js lifted_material "obj option" "string list"
  | OnClose

type_synonym 'a outcome = "'a \<times> proto_state \<times> effect list"

definition initial_state :: proto_state where
  "initial_state =
     \<lparr>ps_transport = None, ps_requestMessageId = 0, ps_requests = Map.empty, ps_responseHandlers = [],
      ps_progressHandlers = [], ps_timeoutInfo = [], ps_pendingDebounced = [], ps_microtasks = [],
      ps_negotiated = None, ps_abortControllers = [], ps_tasks = Map.empty, ps_nextTask = 0,
      ps_requestHandlers = [''ping''], ps_customSchemaMethods = [],
      ps_notificationHandlers = [''notifications/cancelled'', ''notifications/progress''],
      ps_builtinNotifications = [''notifications/cancelled'', ''notifications/progress'']\<rparr>"

definition negotiatedCodec :: "proto_state \<Rightarrow> wire_era" where
  "negotiatedCodec st = codecForVersion (ps_negotiated st)"

definition resolveOutboundCodec :: "proto_state \<Rightarrow> string \<Rightarrow> wire_era" where
  "resolveOutboundCodec st m =
     (if ps_negotiated st = None then or_else (bootstrapOutboundCodec m) (negotiatedCodec st)
      else negotiatedCodec st)"

definition assertOutboundRequestInEra :: "wire_era \<Rightarrow> string \<Rightarrow> err option" where
  "assertOutboundRequestInEra codec m =
     (if isSpecRequestMethod m \<and> \<not> hasRequestMethod codec m then
        Some (SdkError MethodNotSupportedByProtocolVersion
          (''Method '' @ sq m @ '' is not supported by the negotiated protocol version (wire era '' @ wireEraName codec @ '')'')
          (JObj [(''method'', JStr m), (''era'', JStr (wireEraName codec))]))
      else None)"

subsection \<open>Settling a request\<close>

fun unsettled :: "phase \<Rightarrow> bool" where
  "unsettled Waiting = True"
| "unsettled (Validating _) = True"
| "unsettled _ = False"

definition set_phase :: "nat \<Rightarrow> phase \<Rightarrow> proto_state \<Rightarrow> proto_state" where
  "set_phase i p st =
     (case ps_requests st i of
        None \<Rightarrow> st
      | Some rq \<Rightarrow> st\<lparr>ps_requests := (ps_requests st)(i \<mapsto> rq\<lparr>rq_phase := p\<rparr>)\<rparr>)"

definition cleanupTimeout :: "nat \<Rightarrow> proto_state \<Rightarrow> proto_state" where
  "cleanupTimeout i st = st\<lparr>ps_timeoutInfo := AList.delete i (ps_timeoutInfo st)\<rparr>"

definition dropProgress :: "nat \<Rightarrow> proto_state \<Rightarrow> proto_state" where
  "dropProgress i st = st\<lparr>ps_progressHandlers := removeAll i (ps_progressHandlers st)\<rparr>"

definition dropResponseHandler :: "nat \<Rightarrow> proto_state \<Rightarrow> proto_state" where
  "dropResponseHandler i st = st\<lparr>ps_responseHandlers := removeAll i (ps_responseHandlers st)\<rparr>"

text \<open>
  \<open>resolve\<close> or \<open>reject\<close>: the first one wins, and the \<open>finally\<close> block drops the response
  handler and the timer.
\<close>

definition settle :: "nat \<Rightarrow> phase \<Rightarrow> proto_state \<Rightarrow> proto_state" where
  "settle i p st =
     (case ps_requests st i of
        None \<Rightarrow> st
      | Some rq \<Rightarrow>
          if unsettled (rq_phase rq) then cleanupTimeout i (dropResponseHandler i (set_phase i p st)) else st)"

subsection \<open>Sending a request\<close>

datatype abort_reason = ReasonErr err | ReasonVal js

definition errName :: "err \<Rightarrow> string" where
  "errName e =
     (case e of SdkError _ m _ \<Rightarrow> ''SdkError: '' @ m | ProtocolErr p \<Rightarrow> ''ProtocolError: '' @ pe_message p
      | PlainErr m \<Rightarrow> ''Error: '' @ m | TypeErr m \<Rightarrow> ''TypeError: '' @ m | RangeErr m \<Rightarrow> ''RangeError: '' @ m
      | SyntaxErr m \<Rightarrow> ''SyntaxError: '' @ m)"

definition reasonText :: "abort_reason \<Rightarrow> string" where
  "reasonText r = (case r of ReasonErr e \<Rightarrow> errName e | ReasonVal v \<Rightarrow> jsString v)"

text \<open>\<open>reason instanceof SdkError ? reason : new SdkError(RequestTimeout, String(reason))\<close>.\<close>

definition reasonError :: "abort_reason \<Rightarrow> err" where
  "reasonError r =
     (case r of ReasonErr (SdkError c m d) \<Rightarrow> SdkError c m d
      | _ \<Rightarrow> SdkError RequestTimeout (reasonText r) JUndef)"

record request_options =
  op_onprogress :: bool
  op_timeout :: "int option"
  op_maxTotalTimeout :: "int option"
  op_resetTimeoutOnProgress :: bool
  op_allowInputRequired :: bool
  op_aborted :: "abort_reason option"

definition DEFAULT_REQUEST_TIMEOUT_MSEC :: int where
  "DEFAULT_REQUEST_TIMEOUT_MSEC = 60000"

definition jsonrpcRequest :: "string \<Rightarrow> js \<Rightarrow> nat \<Rightarrow> bool \<Rightarrow> js" where
  "jsonrpcRequest m params i onprogress =
     (let request = [(''method'', JStr m)] @ (if params = JUndef then [] else [(''params'', params)])
                    @ [(''jsonrpc'', JStr ''2.0''), (''id'', JNum (NInt (int i)))];
          meta = or_else (obj_of (getp params ''_meta'')) []
      in JObj (if onprogress then
                 oset request ''params'' (JObj (oset (params_obj params) ''_meta''
                   (JObj (oset meta ''progressToken'' (JNum (NInt (int i)))))))
               else request))"

text \<open>\<open>_requestWithSchemaViaCodec\<close>; the caller's clock reading is an argument.\<close>

definition requestViaCodec ::
  "proto_config \<Rightarrow> wire_era \<Rightarrow> string \<Rightarrow> js \<Rightarrow> request_options \<Rightarrow> int \<Rightarrow> proto_state \<Rightarrow> (err + nat) outcome" where
  "requestViaCodec cfg codec m params opts now st =
     (case ps_transport st of
        None \<Rightarrow> (Inl (PlainErr ''Not connected''), st, [])
      | Some (t, hasPerRequestStream) \<Rightarrow>
          (case (if pc_enforceStrict cfg then pc_assertCapability cfg m else None) of
             Some e \<Rightarrow> (Inl e, st, [])
           | None \<Rightarrow>
               (case op_aborted opts of
                  Some reason \<Rightarrow> (Inl (reasonError reason), st, [])
                | None \<Rightarrow>
                    (let messageId = ps_requestMessageId st;
                         outbound = envelopeOutbound (pc_metaEnvelope cfg (ps_negotiated st))
                           (jsonrpcRequest m params messageId (op_onprogress opts));
                         timeout = or_else (op_timeout opts) DEFAULT_REQUEST_TIMEOUT_MSEC
                     in (Inr messageId,
                         st\<lparr>ps_requestMessageId := messageId + 1,
                            ps_progressHandlers := ps_progressHandlers st @ (if op_onprogress opts then [messageId] else []),
                            ps_requests := (ps_requests st)(messageId \<mapsto>
                              \<lparr>rq_method = m, rq_codec = codec, rq_phase = Waiting, rq_received = False, rq_aborted = False,
                               rq_allowInputRequired = op_allowInputRequired opts,
                               rq_streamCloseCancels = (codec = Rev2026 \<and> hasPerRequestStream)\<rparr>),
                            ps_responseHandlers := ps_responseHandlers st @ [messageId],
                            ps_timeoutInfo := ps_timeoutInfo st @ [(messageId,
                              \<lparr>ti_fireAt = now + timeout, ti_startTime = now, ti_timeout = timeout,
                               ti_maxTotalTimeout = op_maxTotalTimeout opts,
                               ti_resetTimeoutOnProgress = op_resetTimeoutOnProgress opts\<rparr>)]\<rparr>,
                         [SendMsg t outbound])))))"

text \<open>\<open>request(request, schemaOrOptions)\<close>, with or without an explicit result schema.\<close>

definition requestOp ::
  "proto_config \<Rightarrow> bool \<Rightarrow> string \<Rightarrow> js \<Rightarrow> request_options \<Rightarrow> int \<Rightarrow> proto_state \<Rightarrow> (err + nat) outcome" where
  "requestOp cfg explicitSchema m params opts now st =
     (let codec = resolveOutboundCodec st m;
          gate = (if explicitSchema \<and> isExtensionReusedRequestMethod m then None else assertOutboundRequestInEra codec m)
      in case gate of
           Some e \<Rightarrow> (Inl e, st, [])
         | None \<Rightarrow>
             if \<not> explicitSchema \<and> \<not> hasResultMethod codec m then
               (Inl (TypeErr (sq m @ '' is not a spec method; pass a result schema as the second argument to request().'')), st, [])
             else requestViaCodec cfg codec m params opts now st)"

subsection \<open>Cancellation, timeouts, send failures\<close>

definition cancelledNotification :: "nat \<Rightarrow> string \<Rightarrow> js" where
  "cancelledNotification i reason =
     JObj [(''jsonrpc'', JStr ''2.0''), (''method'', JStr ''notifications/cancelled''),
           (''params'', JObj [(''requestId'', JNum (NInt (int i))), (''reason'', JStr reason)])]"

definition cancelOp :: "proto_config \<Rightarrow> nat \<Rightarrow> abort_reason \<Rightarrow> proto_state \<Rightarrow> proto_state \<times> effect list" where
  "cancelOp cfg i reason st =
     (case ps_requests st i of
        None \<Rightarrow> (st, [])
      | Some rq \<Rightarrow>
          if rq_received rq then (st, [])
          else
            (settle i (Rejected (reasonError reason)) (dropProgress i st),
             if rq_streamCloseCancels rq then [AbortStream i]
             else if rq_method rq \<noteq> ''initialize'' then
               (case ps_transport st of
                  None \<Rightarrow> []
                | Some (t, _) \<Rightarrow>
                    [SendMsg t (envelopeOutbound (pc_metaEnvelope cfg (ps_negotiated st))
                       (cancelledNotification i (reasonText reason)))])
             else []))"

definition timeoutFired :: "proto_config \<Rightarrow> nat \<Rightarrow> proto_state \<Rightarrow> proto_state \<times> effect list" where
  "timeoutFired cfg i st =
     (case map_of (ps_timeoutInfo st) i of
        None \<Rightarrow> (st, [])
      | Some info \<Rightarrow>
          cancelOp cfg i (ReasonErr (SdkError RequestTimeout ''Request timed out''
            (JObj [(''timeout'', JNum (NInt (ti_timeout info)))]))) st)"

text \<open>The caller's signal aborts: the flag is visible to the response handler from then on.\<close>

definition signalAborted :: "proto_config \<Rightarrow> nat \<Rightarrow> abort_reason \<Rightarrow> proto_state \<Rightarrow> proto_state \<times> effect list" where
  "signalAborted cfg i reason st =
     (case ps_requests st i of
        None \<Rightarrow> (st, [])
      | Some rq \<Rightarrow>
          (let st1 = st\<lparr>ps_requests := (ps_requests st)(i \<mapsto> rq\<lparr>rq_aborted := True\<rparr>)\<rparr>
           in if unsettled (rq_phase rq) then cancelOp cfg i reason st1 else (st1, [])))"

definition sendFailed :: "nat \<Rightarrow> err \<Rightarrow> proto_state \<Rightarrow> proto_state" where
  "sendFailed i e st = settle i (Rejected e) (dropProgress i st)"

subsection \<open>Responses\<close>

text \<open>The response handler of a pending request, called with an error or a response's result.\<close>

definition handleResponse :: "proto_config \<Rightarrow> nat \<Rightarrow> err + js \<Rightarrow> proto_state \<Rightarrow> proto_state" where
  "handleResponse cfg i response st =
     (case ps_requests st i of
        None \<Rightarrow> st
      | Some rq \<Rightarrow>
          if rq_aborted rq then st
          else
            (let st1 = st\<lparr>ps_requests := (ps_requests st)(i \<mapsto> rq\<lparr>rq_received := True\<rparr>)\<rparr> in
             case response of
               Inl e \<Rightarrow> settle i (Rejected e) st1
             | Inr result \<Rightarrow>
                 (case decodeResult (rq_codec rq) (pc_wireParse cfg) (pc_metaParse cfg) (rq_method rq) result of
                    InvalidResultErr e \<Rightarrow> settle i (Rejected e) st1
                  | InputRequired reqs rs meta \<Rightarrow>
                      if rq_allowInputRequired rq then settle i (Resolved (manualInputRequiredValue reqs rs meta)) st1
                      else settle i Delegated st1
                  | Complete v \<Rightarrow> if unsettled (rq_phase rq) then set_phase i (Validating v) st1 else st1)))"

definition onresponse :: "proto_config \<Rightarrow> js \<Rightarrow> proto_state \<Rightarrow> proto_state \<times> effect list" where
  "onresponse cfg response st =
     (case messageIdOf (getp response ''id'') of
        None \<Rightarrow> (st, [OnError (''Received a response for an unknown message ID: '' @ json_text response)])
      | Some i \<Rightarrow>
          if i \<notin> set (ps_responseHandlers st) then
            (st, [OnError (''Received a response for an unknown message ID: '' @ json_text response)])
          else
            (let st1 = dropProgress i (cleanupTimeout i (dropResponseHandler i st));
                 e = getp response ''error''
             in (handleResponse cfg i
                   (if isJSONRPCResultResponse response then Inr (getp response ''result'')
                    else Inl (ProtocolErr (fromError
                      (case getp e ''code'' of JNum (NInt c) \<Rightarrow> c | _ \<Rightarrow> 0)
                      (or_else (str_of (getp e ''message'')) []) (getp e ''data''))))
                   st1, [])))"

text \<open>Schema validation of a complete result, and the end of a delegated flow.\<close>

definition validationDone :: "nat \<Rightarrow> string + js \<Rightarrow> proto_state \<Rightarrow> proto_state" where
  "validationDone i verdict st =
     (case ps_requests st i of
        None \<Rightarrow> st
      | Some rq \<Rightarrow>
          (case rq_phase rq of
             Validating _ \<Rightarrow>
               settle i (case verdict of
                   Inl problem \<Rightarrow> Rejected (SdkError InvalidResult (''Invalid result for '' @ rq_method rq @ '': '' @ problem) JUndef)
                 | Inr v \<Rightarrow> Resolved v) st
           | _ \<Rightarrow> st))"

definition delegationDone :: "nat \<Rightarrow> err + js \<Rightarrow> proto_state \<Rightarrow> proto_state" where
  "delegationDone i out st =
     (case ps_requests st i of
        None \<Rightarrow> st
      | Some rq \<Rightarrow>
          if rq_phase rq = Delegated
          then set_phase i (case out of Inl e \<Rightarrow> Rejected e | Inr v \<Rightarrow> Resolved v) st else st)"

subsection \<open>Progress\<close>

definition resetTimeout :: "nat \<Rightarrow> int \<Rightarrow> proto_state \<Rightarrow> err + proto_state" where
  "resetTimeout i now st =
     (case map_of (ps_timeoutInfo st) i of
        None \<Rightarrow> Inr st
      | Some info \<Rightarrow>
          (let totalElapsed = now - ti_startTime info in
           case ti_maxTotalTimeout info of
             Some mx \<Rightarrow>
               if mx \<noteq> 0 \<and> mx \<le> totalElapsed then Inl (budgetExceeded mx totalElapsed)
               else Inr (st\<lparr>ps_timeoutInfo := AList.update i (info\<lparr>ti_fireAt := now + ti_timeout info\<rparr>) (ps_timeoutInfo st)\<rparr>)
           | None \<Rightarrow>
               Inr (st\<lparr>ps_timeoutInfo := AList.update i (info\<lparr>ti_fireAt := now + ti_timeout info\<rparr>) (ps_timeoutInfo st)\<rparr>)))"

definition onprogress :: "proto_config \<Rightarrow> js \<Rightarrow> int \<Rightarrow> proto_state \<Rightarrow> proto_state \<times> effect list" where
  "onprogress cfg notification now st =
     (let params = params_obj (getp notification ''params''); rest = JObj (odel params ''progressToken'') in
      case messageIdOf (oget params ''progressToken'') of
        None \<Rightarrow> (st, [OnError (''Received a progress notification for an unknown token: '' @ json_text notification)])
      | Some i \<Rightarrow>
          if i \<notin> set (ps_progressHandlers st) then
            (st, [OnError (''Received a progress notification for an unknown token: '' @ json_text notification)])
          else if i \<in> set (ps_responseHandlers st)
                  \<and> (case map_of (ps_timeoutInfo st) i of None \<Rightarrow> False | Some info \<Rightarrow> ti_resetTimeoutOnProgress info) then
            (case resetTimeout i now st of
               Inl e \<Rightarrow> (handleResponse cfg i (Inl e) (cleanupTimeout i (dropProgress i (dropResponseHandler i st))), [])
             | Inr st' \<Rightarrow> (st', [CallProgress i rest]))
          else (st, [CallProgress i rest]))"

subsection \<open>Notifications\<close>

definition notificationMessage :: "string \<Rightarrow> js \<Rightarrow> js" where
  "notificationMessage m params =
     JObj ([(''jsonrpc'', JStr ''2.0''), (''method'', JStr m)] @ (if params = JUndef then [] else [(''params'', params)]))"

definition notificationOp ::
  "proto_config \<Rightarrow> string \<Rightarrow> js \<Rightarrow> bool \<Rightarrow> proto_state \<Rightarrow> err option outcome" where
  "notificationOp cfg m params related st =
     (let codec = resolveOutboundCodec st m in
      case ps_transport st of
        None \<Rightarrow> (Some (SdkError NotConnected ''Not connected'' JUndef), st, [])
      | Some (t, _) \<Rightarrow>
          if isSpecNotificationMethod m \<and> \<not> hasNotificationMethod codec m then
            (Some (SdkError MethodNotSupportedByProtocolVersion
               (''Notification '' @ sq m @ '' is not supported by the negotiated protocol version (wire era '' @ wireEraName codec @ '')'')
               (JObj [(''method'', JStr m), (''era'', JStr (wireEraName codec))])), st, [])
          else
            (case pc_assertNotification cfg m of
               Some e \<Rightarrow> (Some e, st, [])
             | None \<Rightarrow>
                 (let message = envelopeOutbound (pc_metaEnvelope cfg (ps_negotiated st)) (notificationMessage m params);
                      canDebounce = (m \<in> set (pc_debounced cfg) \<and> \<not> truthy params \<and> \<not> related)
                  in if canDebounce then
                       (if m \<in> set (ps_pendingDebounced st) then (None, st, [])
                        else (None, st\<lparr>ps_pendingDebounced := ps_pendingDebounced st @ [m],
                                       ps_microtasks := ps_microtasks st @ [(m, message)]\<rparr>, []))
                     else (None, st, [SendMsg t message]))))"

text \<open>The scheduled microtask of a debounced notification.\<close>

definition debounceTick :: "proto_state \<Rightarrow> proto_state \<times> effect list" where
  "debounceTick st =
     (case ps_microtasks st of
        [] \<Rightarrow> (st, [])
      | (m, message) # rest \<Rightarrow>
          (st\<lparr>ps_microtasks := rest, ps_pendingDebounced := removeAll m (ps_pendingDebounced st)\<rparr>,
           case ps_transport st of None \<Rightarrow> [] | Some (t, _) \<Rightarrow> [SendMsg t message]))"

subsection \<open>Connecting and closing\<close>

definition connectOp :: "nat \<Rightarrow> bool \<Rightarrow> proto_state \<Rightarrow> proto_state" where
  "connectOp t hasPerRequestStream st = st\<lparr>ps_transport := Some (t, hasPerRequestStream)\<rparr>"

definition connectionClosed :: err where
  "connectionClosed = SdkError ConnectionClosed ''Connection closed'' JUndef"

text \<open>\<open>controller.abort\<close> of the task a request id is registered for.\<close>

definition abortTask :: "nat \<Rightarrow> proto_state \<Rightarrow> proto_state" where
  "abortTask n st =
     (case ps_tasks st n of
        None \<Rightarrow> st
      | Some tk \<Rightarrow> st\<lparr>ps_tasks := (ps_tasks st)(n \<mapsto> tk\<lparr>tk_aborted := True\<rparr>)\<rparr>)"

definition oncloseOp :: "proto_config \<Rightarrow> proto_state \<Rightarrow> proto_state \<times> effect list" where
  "oncloseOp cfg st =
     (let st1 = st\<lparr>ps_responseHandlers := [], ps_progressHandlers := [], ps_pendingDebounced := [],
                   ps_timeoutInfo := [], ps_abortControllers := [], ps_transport := None\<rparr>;
          st2 = fold (\<lambda>i. handleResponse cfg i (Inl connectionClosed)) (ps_responseHandlers st) st1;
          st3 = fold (\<lambda>e. abortTask (snd e)) (ps_abortControllers st) st2
      in (st3, [OnClose]))"

end
