(* ===== verification/ProtocolInbound.thy ===== *)
theory ProtocolInbound
  imports ProtocolOutbound
begin

text \<open>
  The inbound half of a \<open>Protocol\<close> instance (shared/protocol.ts): routing a message, the
  gates of a request in their order, the start and the end of a handler, notifications,
  cancellation by the peer, and the registration of handlers.

  A handler runs outside the model: \<open>StartHandler\<close> hands it the request and its lifted
  material, and \<open>handlerDone\<close> is called with what its promise settles to.
\<close>

definition toEra :: "wire_era \<Rightarrow> string" where
  "toEra e = wireEraName e"

definition errorResponse :: "js \<Rightarrow> int \<Rightarrow> string \<Rightarrow> js \<Rightarrow> js" where
  "errorResponse i c message data =
     JObj [(''jsonrpc'', JStr ''2.0''), (''id'', i),
       (''error'', JObj ([(''code'', JNum (NInt c)), (''message'', JStr message)]
          @ (if data = JUndef then [] else [(''data'', data)])))]"

text \<open>\<open>capturedTransport?.send(...)\<close>.\<close>

definition sendTo :: "nat option \<Rightarrow> js \<Rightarrow> effect list" where
  "sendTo t message = (case t of None \<Rightarrow> [] | Some n \<Rightarrow> [SendMsg n message])"

definition capturedTransport :: "proto_state \<Rightarrow> nat option" where
  "capturedTransport st = map_option fst (ps_transport st)"

definition eraMismatchResponse :: "proto_config \<Rightarrow> js \<Rightarrow> message_classification \<Rightarrow> js" where
  "eraMismatchResponse cfg i c =
     (let requested = or_else (mc_revision c) (toEra (classifiedWireEra c)) in
      errorResponse i (pcode UnsupportedProtocolVersion) (''Unsupported protocol version: '' @ requested)
        (JObj [(''supported'', JArr (map JStr (pc_supportedVersions cfg))), (''requested'', JStr requested)]))"

text \<open>The registry gate: a spec method the era does not define, unless a task-extension name with a schema.\<close>

definition methodGated :: "proto_state \<Rightarrow> string \<Rightarrow> bool" where
  "methodGated st m \<longleftrightarrow> isSpecRequestMethod m \<and> \<not> hasRequestMethod (negotiatedCodec st) m
     \<and> \<not> (isExtensionReusedRequestMethod m \<and> m \<in> set (ps_customSchemaMethods st))"

definition hasHandler :: "proto_config \<Rightarrow> proto_state \<Rightarrow> string \<Rightarrow> bool" where
  "hasHandler cfg st m \<longleftrightarrow> m \<in> set (ps_requestHandlers st) \<or> pc_fallbackRequest cfg"

text \<open>The answer of the first gate a request fails, or \<open>None\<close> when a handler is to run.\<close>

definition gateResponse :: "proto_config \<Rightarrow> proto_state \<Rightarrow> js \<Rightarrow> lifted_material \<Rightarrow> message_classification option \<Rightarrow> js option" where
  "gateResponse cfg st request lifted classification =
     (let i = getp request ''id''; m = methodOf request; codec = negotiatedCodec st in
      if (case classification of None \<Rightarrow> False | Some c \<Rightarrow> classifiedWireEra c \<noteq> codec) then
        Some (eraMismatchResponse cfg i (the classification))
      else if methodGated st m then Some (errorResponse i (pcode MethodNotFound) ''Method not found'' JUndef)
      else if \<not> hasHandler cfg st m then Some (errorResponse i (pcode MethodNotFound) ''Method not found'' JUndef)
      else
        (case checkInboundEnvelope codec (pc_schemaIssues cfg) (lm_envelope lifted) of
           Some problem \<Rightarrow> Some (errorResponse i (pcode InvalidParams) problem JUndef)
         | None \<Rightarrow> None))"

text \<open>The report that goes with an era mismatch.\<close>

definition gateReport :: "proto_state \<Rightarrow> string \<Rightarrow> message_classification option \<Rightarrow> effect list" where
  "gateReport st m classification =
     (case classification of
        None \<Rightarrow> []
      | Some c \<Rightarrow>
          if classifiedWireEra c \<noteq> negotiatedCodec st then
            [OnError (''Era mismatch on inbound request '' @ sq m @ '': classified as '' @ toEra (classifiedWireEra c)
               @ '' but this instance serves '' @ toEra (negotiatedCodec st))]
          else [])"

text \<open>\<open>_requestHandlerAbortControllers.set(id, controller)\<close>: a repeated id replaces the entry.\<close>

definition onrequest ::
  "proto_config \<Rightarrow> js \<Rightarrow> message_classification option \<Rightarrow> proto_state \<Rightarrow> proto_state \<times> effect list" where
  "onrequest cfg rawRequest classification st =
     (let request = fst (liftWireOnlyMaterial rawRequest K_request);
          lifted = snd (liftWireOnlyMaterial rawRequest K_request);
          m = methodOf request; t = capturedTransport st in
      if classification = None \<and> pc_shouldDrop cfg rawRequest then
        (st, [OnError (''Dropped inbound request '' @ sq (methodOf rawRequest) @ '': not servable on this connection's protocol era'')])
      else
        (case gateResponse cfg st request lifted classification of
           Some response \<Rightarrow> (st, gateReport st m classification @ sendTo t response)
         | None \<Rightarrow>
             (let n = ps_nextTask st;
                  partitioned = (if lm_inputResponses lifted = JUndef then None
                                 else Some (partitionInputResponses (lm_inputResponses lifted)))
              in (st\<lparr>ps_nextTask := n + 1,
                     ps_abortControllers := AList.update (getp request ''id'') n (ps_abortControllers st),
                     ps_tasks := (ps_tasks st)(n \<mapsto>
                       \<lparr>tk_id = getp request ''id'', tk_method = m, tk_codec = negotiatedCodec st, tk_transport = t,
                        tk_aborted = False, tk_done = False\<rparr>)\<rparr>,
                  [StartHandler n request lifted (map_option fst partitioned)
                     (or_else (map_option snd partitioned) [])]))))"

subsection \<open>The end of a handler\<close>

definition thrownCode :: "err \<Rightarrow> int" where
  "thrownCode e =
     (case e of ProtocolErr p \<Rightarrow> if isSafeInteger (JNum (NInt (pe_code p))) then pe_code p else pcode InternalError
      | _ \<Rightarrow> pcode InternalError)"

definition errMessage :: "err \<Rightarrow> string" where
  "errMessage e =
     (case e of SdkError _ m _ \<Rightarrow> m | ProtocolErr p \<Rightarrow> pe_message p | PlainErr m \<Rightarrow> m | TypeErr m \<Rightarrow> m
      | RangeErr m \<Rightarrow> m | SyntaxErr m \<Rightarrow> m)"

definition errData :: "err \<Rightarrow> js" where
  "errData e = (case e of SdkError _ _ d \<Rightarrow> d | ProtocolErr p \<Rightarrow> pe_data p | _ \<Rightarrow> JUndef)"

text \<open>What a settled handler answers, by the codec of the era that served it.\<close>

definition taskResponse :: "proto_config \<Rightarrow> inbound_task \<Rightarrow> err + wire_result \<Rightarrow> effect list" where
  "taskResponse cfg tk out =
     (case out of
        Inl e \<Rightarrow>
          sendTo (tk_transport tk) (errorResponse (tk_id tk) (encodeErrorCode (thrownCode e)) (errMessage e) (errData e))
      | Inr result \<Rightarrow>
          (case encodeResult (tk_codec tk) (tk_method tk) result (pc_serverInfo cfg) of
             Inl e \<Rightarrow>
               OnError (''Failed to encode result for '' @ tk_method tk @ '': '' @ errName e)
               # sendTo (tk_transport tk) (errorResponse (tk_id tk) (pcode InternalError) ''Internal error'' JUndef)
           | Inr encoded \<Rightarrow>
               sendTo (tk_transport tk)
                 (JObj [(''result'', JObj (r_obj encoded)), (''jsonrpc'', JStr ''2.0''), (''id'', tk_id tk)])))"

definition handlerDone :: "proto_config \<Rightarrow> nat \<Rightarrow> err + wire_result \<Rightarrow> proto_state \<Rightarrow> proto_state \<times> effect list" where
  "handlerDone cfg n out st =
     (case ps_tasks st n of
        None \<Rightarrow> (st, [])
      | Some tk \<Rightarrow>
          if tk_done tk then (st, [])
          else
            (st\<lparr>ps_tasks := (ps_tasks st)(n \<mapsto> tk\<lparr>tk_done := True\<rparr>),
                ps_abortControllers :=
                  (if map_of (ps_abortControllers st) (tk_id tk) = Some n
                   then AList.delete (tk_id tk) (ps_abortControllers st) else ps_abortControllers st)\<rparr>,
             if tk_aborted tk then [] else taskResponse cfg tk out))"

subsection \<open>Notifications and cancellation\<close>

definition oncancel :: "js \<Rightarrow> proto_state \<Rightarrow> proto_state" where
  "oncancel notification st =
     (let requestId = getp (getp notification ''params'') ''requestId'' in
      if requestId = JUndef then st
      else (case map_of (ps_abortControllers st) requestId of None \<Rightarrow> st | Some n \<Rightarrow> abortTask n st))"

text \<open>
  Delivery to the registered handler: the two the constructor installs act on the instance
  while nobody has replaced them, any other is called. The schema validation of the built-in ones is \<open>valid\<close>.
\<close>

definition deliverNotification ::
  "proto_config \<Rightarrow> (js \<Rightarrow> string option) \<Rightarrow> js \<Rightarrow> int \<Rightarrow> proto_state \<Rightarrow> proto_state \<times> effect list" where
  "deliverNotification cfg valid notification now st =
     (let m = methodOf notification in
      case valid notification of
        Some problem \<Rightarrow> (st, [OnError (''Uncaught error in notification handler: Error: '' @ problem)])
      | None \<Rightarrow>
          if m \<notin> set (ps_builtinNotifications st) then (st, [CallNotification m notification])
          else if m = ''notifications/cancelled'' then (oncancel notification st, [])
          else if m = ''notifications/progress'' then onprogress cfg notification now st
          else (st, [CallNotification m notification]))"

definition onnotification ::
  "proto_config \<Rightarrow> (js \<Rightarrow> string option) \<Rightarrow> js \<Rightarrow> message_classification option \<Rightarrow> int \<Rightarrow> proto_state
     \<Rightarrow> proto_state \<times> effect list" where
  "onnotification cfg valid rawNotification classification now st =
     (let notification = fst (liftWireOnlyMaterial rawNotification K_notification);
          m = methodOf notification; codec = negotiatedCodec st in
      if classification = None \<and> pc_shouldDrop cfg rawNotification then (st, [])
      else if (case classification of None \<Rightarrow> False | Some c \<Rightarrow> classifiedWireEra c \<noteq> codec) then
        (st, [OnError (''Era mismatch on inbound notification '' @ sq m @ '': classified as ''
           @ toEra (classifiedWireEra (the classification)) @ '' but this instance serves '' @ toEra codec)])
      else if isSpecNotificationMethod m \<and> \<not> hasNotificationMethod codec m then (st, [])
      else if m \<in> set (ps_notificationHandlers st) then deliverNotification cfg valid notification now st
      else if pc_fallbackNotification cfg then (st, [CallNotification m notification])
      else (st, []))"

text \<open>The transport's \<open>onmessage\<close>.\<close>

definition onmessage ::
  "proto_config \<Rightarrow> (js \<Rightarrow> string option) \<Rightarrow> js \<Rightarrow> message_classification option \<Rightarrow> int \<Rightarrow> proto_state
     \<Rightarrow> proto_state \<times> effect list" where
  "onmessage cfg valid message classification now st =
     (if isJSONRPCResultResponse message \<or> isJSONRPCErrorResponse message then onresponse cfg message st
      else if isJSONRPCRequest message then onrequest cfg message classification st
      else if isJSONRPCNotification message then onnotification cfg valid message classification now st
      else (st, [OnError (''Unknown message type: '' @ json_text message)]))"

subsection \<open>Registration\<close>

text \<open>
  \<open>setRequestHandler\<close>: \<open>schemas\<close> says whether schemas were passed, \<open>handler\<close> whether the
  handler argument of that form is there.
\<close>

definition setRequestHandler ::
  "(string \<Rightarrow> err option) \<Rightarrow> string \<Rightarrow> bool \<Rightarrow> bool \<Rightarrow> proto_state \<Rightarrow> err + proto_state" where
  "setRequestHandler assertCapability m schemas handler st =
     (case assertCapability m of
        Some e \<Rightarrow> Inl e
      | None \<Rightarrow>
          if \<not> schemas \<and> \<not> isSpecRequestMethod m then
            Inl (TypeErr (sq m @ '' is not a spec request method; pass schemas as the second argument to setRequestHandler().''))
          else if schemas \<and> \<not> handler then Inl (TypeErr ''setRequestHandler: handler is required'')
          else Inr (st\<lparr>ps_customSchemaMethods :=
                        (if schemas then List.insert m (ps_customSchemaMethods st) else removeAll m (ps_customSchemaMethods st)),
                      ps_requestHandlers := List.insert m (ps_requestHandlers st)\<rparr>))"

definition removeRequestHandler :: "string \<Rightarrow> proto_state \<Rightarrow> proto_state" where
  "removeRequestHandler m st =
     st\<lparr>ps_requestHandlers := removeAll m (ps_requestHandlers st),
        ps_customSchemaMethods := removeAll m (ps_customSchemaMethods st)\<rparr>"

definition assertCanSetRequestHandler :: "string \<Rightarrow> proto_state \<Rightarrow> err option" where
  "assertCanSetRequestHandler m st =
     (if m \<in> set (ps_requestHandlers st)
      then Some (PlainErr (''A request handler for '' @ m @ '' already exists, which would be overridden'')) else None)"

definition setNotificationHandler :: "string \<Rightarrow> bool \<Rightarrow> bool \<Rightarrow> proto_state \<Rightarrow> err + proto_state" where
  "setNotificationHandler m schemas handler st =
     (if \<not> schemas \<and> \<not> isSpecNotificationMethod m then
        Inl (TypeErr (sq m @ '' is not a spec notification method; pass schemas as the second argument to setNotificationHandler().''))
      else if schemas \<and> \<not> handler then Inl (TypeErr ''setNotificationHandler: handler is required'')
      else Inr (st\<lparr>ps_notificationHandlers := List.insert m (ps_notificationHandlers st),
                      ps_builtinNotifications := removeAll m (ps_builtinNotifications st)\<rparr>))"

definition removeNotificationHandler :: "string \<Rightarrow> proto_state \<Rightarrow> proto_state" where
  "removeNotificationHandler m st =
     st\<lparr>ps_notificationHandlers := removeAll m (ps_notificationHandlers st),
        ps_builtinNotifications := removeAll m (ps_builtinNotifications st)\<rparr>"

definition setNegotiatedProtocolVersion :: "string option \<Rightarrow> proto_state \<Rightarrow> proto_state" where
  "setNegotiatedProtocolVersion v st = st\<lparr>ps_negotiated := v\<rparr>"

subsection \<open>Which code answers a request\<close>

definition responseCode :: "js \<Rightarrow> js" where
  "responseCode r = getp (getp r ''error'') ''code''"

lemma responseCode_error [simp]: "responseCode (errorResponse i c m d) = JNum (NInt c)"
  by (simp add: responseCode_def errorResponse_def)

definition wrongEra :: "proto_state \<Rightarrow> message_classification option \<Rightarrow> bool" where
  "wrongEra st cls \<longleftrightarrow> (case cls of None \<Rightarrow> False | Some c \<Rightarrow> classifiedWireEra c \<noteq> negotiatedCodec st)"

text \<open>The code of the first gate a lifted request fails.\<close>

definition firstFailure :: "proto_config \<Rightarrow> proto_state \<Rightarrow> js \<Rightarrow> lifted_material \<Rightarrow> message_classification option \<Rightarrow> int option" where
  "firstFailure cfg st request lifted cls =
     (if wrongEra st cls then Some (pcode UnsupportedProtocolVersion)
      else if methodGated st (methodOf request) \<or> \<not> hasHandler cfg st (methodOf request) then Some (pcode MethodNotFound)
      else if checkInboundEnvelope (negotiatedCodec st) (pc_schemaIssues cfg) (lm_envelope lifted) \<noteq> None
      then Some (pcode InvalidParams) else None)"

definition answers :: "js \<Rightarrow> int \<Rightarrow> js \<Rightarrow> bool" where
  "answers request c r \<longleftrightarrow> getp r ''id'' = getp request ''id'' \<and> responseCode r = JNum (NInt c)"

lemma answers_error [simp]: "answers request c (errorResponse (getp request ''id'') c m d)"
  by (simp add: answers_def) (simp add: errorResponse_def)

lemma gateResponse_failure:
  "(case gateResponse cfg st request lifted cls of
      None \<Rightarrow> firstFailure cfg st request lifted cls = None
    | Some r \<Rightarrow> \<exists>c. firstFailure cfg st request lifted cls = Some c \<and> answers request c r)"
  by (auto simp: gateResponse_def firstFailure_def wrongEra_def Let_def eraMismatchResponse_def split: option.split)

definition sentOf :: "effect list \<Rightarrow> (nat \<times> js) list" where
  "sentOf effs = concat (map (\<lambda>e. case e of SendMsg t r \<Rightarrow> [(t, r)] | _ \<Rightarrow> []) effs)"

lemma sentOf_simps [simp]:
  "sentOf [] = []" "sentOf (a @ b) = sentOf a @ sentOf b" "sentOf (SendMsg t r # b) = (t, r) # sentOf b"
  "sentOf (OnError m # b) = sentOf b" "sentOf (StartHandler n rq l x y # b) = sentOf b"
  "sentOf (AbortStream i # b) = sentOf b" "sentOf (CallProgress i v # b) = sentOf b"
  "sentOf (CallNotification m v # b) = sentOf b" "sentOf (OnClose # b) = sentOf b"
  by (simp_all add: sentOf_def)

lemma sentOf_report [simp]: "sentOf (gateReport st m cls) = []"
  by (auto simp: gateReport_def split: option.split)

text \<open>
  C7: the precedence of the gates. A classification of another era outranks everything,
  method existence (registry, then handler) outranks the envelope, and a request that fails
  several gates is answered once, by the first, with its own id; one that fails none starts
  a handler and is not answered yet.
\<close>

theorem request_gate_precedence:
  assumes "ps_transport st = Some (t, stream)" and "\<not> (cls = None \<and> pc_shouldDrop cfg raw)"
    and "request = fst (liftWireOnlyMaterial raw K_request)" and "lifted = snd (liftWireOnlyMaterial raw K_request)"
  shows "case firstFailure cfg st request lifted cls of
      Some c \<Rightarrow> fst (onrequest cfg raw cls st) = st
        \<and> (\<exists>r. sentOf (snd (onrequest cfg raw cls st)) = [(t, r)] \<and> answers request c r)
    | None \<Rightarrow> sentOf (snd (onrequest cfg raw cls st)) = []
        \<and> ps_nextTask (fst (onrequest cfg raw cls st)) = Suc (ps_nextTask st)"
proof (cases "gateResponse cfg st request lifted cls")
  case None
  then show ?thesis using gateResponse_failure [of cfg st request lifted cls] assms
    by (auto simp: onrequest_def Let_def)
next
  case (Some r)
  then obtain c where "firstFailure cfg st request lifted cls = Some c" "answers request c r"
    using gateResponse_failure [of cfg st request lifted cls] by auto
  then show ?thesis using Some assms
    by (auto simp: onrequest_def Let_def capturedTransport_def sendTo_def)
qed

definition demo_config :: proto_config where
  "demo_config = \<lparr>pc_enforceStrict = False, pc_supportedVersions = [''2025-11-25''],
     pc_debounced = [''notifications/tools/list_changed''],
     pc_metaEnvelope = (\<lambda>_. None), pc_assertCapability = (\<lambda>_. None), pc_assertNotification = (\<lambda>_. None),
     pc_shouldDrop = (\<lambda>_. False), pc_serverInfo = None, pc_fallbackRequest = False, pc_fallbackNotification = False,
     pc_schemaIssues = (\<lambda>_. []), pc_wireParse = (\<lambda>_ _. None), pc_metaParse = (\<lambda>_. None)\<rparr>"

theorem request_gate_precedence_witness:
  "\<exists>r. sentOf (snd (onrequest demo_config (JObj [(''id'', JNum (NInt 7)), (''method'', JStr ''server/discover'')]) None
     (connectOp 0 False initial_state))) = [(0, r)] \<and> answers (JObj [(''id'', JNum (NInt 7))]) (-32601) r"
proof -
  let ?raw = "JObj [(''id'', JNum (NInt 7)), (''method'', JStr ''server/discover'')]"
  let ?st = "connectOp 0 False initial_state"
  have l: "liftWireOnlyMaterial ?raw K_request = (?raw, nothing_lifted)"
    by (simp add: liftWireOnlyMaterial_def)
  have g: "methodGated ?st ''server/discover''"
    by (simp add: methodGated_def registry_defs negotiatedCodec_def connectOp_def initial_state_def codecForVersion_def)
  have f: "firstFailure demo_config ?st ?raw nothing_lifted None = Some (-32601)"
    using g by (simp add: firstFailure_def wrongEra_def methodOf_def)
  show ?thesis
    using request_gate_precedence [of ?st 0 False None demo_config ?raw ?raw nothing_lifted] f l
    by (simp add: connectOp_def demo_config_def answers_def)
qed

end
