(* ===== verification/ProtocolInvariant.thy ===== *)
theory ProtocolInvariant
  imports ProtocolInbound
begin

text \<open>
  The protocol instance as a transition system: one step per event of the event loop, the
  reachable states, and the invariant of the request bookkeeping, from which the properties
  of pending requests follow.
\<close>

subsection \<open>Steps\<close>

inductive pstep :: "proto_config \<Rightarrow> proto_state \<Rightarrow> effect list \<Rightarrow> proto_state \<Rightarrow> bool" for cfg where
  ev_connect: "pstep cfg st [] (connectOp t stream st)"
| ev_negotiate: "pstep cfg st [] (setNegotiatedProtocolVersion v st)"
| ev_request: "requestOp cfg explicit m params opts now st = (r, st', eff) \<Longrightarrow> pstep cfg st eff st'"
| ev_message: "onmessage cfg valid msg cls now st = (st', eff) \<Longrightarrow> pstep cfg st eff st'"
| ev_timeout: "map_of (ps_timeoutInfo st) i = Some info \<Longrightarrow> ti_fireAt info \<le> now
    \<Longrightarrow> timeoutFired cfg i st = (st', eff) \<Longrightarrow> pstep cfg st eff st'"
| ev_abort: "signalAborted cfg i reason st = (st', eff) \<Longrightarrow> pstep cfg st eff st'"
| ev_sendFailed: "pstep cfg st [] (sendFailed i e st)"
| ev_validated: "pstep cfg st [] (validationDone i verdict st)"
| ev_delegated: "pstep cfg st [] (delegationDone i out st)"
| ev_notify: "notificationOp cfg m params related st = (r, st', eff) \<Longrightarrow> pstep cfg st eff st'"
| ev_tick: "debounceTick st = (st', eff) \<Longrightarrow> pstep cfg st eff st'"
| ev_handler: "handlerDone cfg n result st = (st', eff) \<Longrightarrow> pstep cfg st eff st'"
| ev_close: "oncloseOp cfg st = (st', eff) \<Longrightarrow> pstep cfg st eff st'"
| ev_register: "setRequestHandler assertCap m schemas handler st = Inr st' \<Longrightarrow> pstep cfg st [] st'"
| ev_unregister: "pstep cfg st [] (removeRequestHandler m st)"
| ev_listen: "setNotificationHandler m schemas handler st = Inr st' \<Longrightarrow> pstep cfg st [] st'"
| ev_unlisten: "pstep cfg st [] (removeNotificationHandler m st)"

inductive reachable :: "proto_config \<Rightarrow> proto_state \<Rightarrow> bool" for cfg where
  start: "reachable cfg initial_state"
| step: "reachable cfg st \<Longrightarrow> pstep cfg st eff st' \<Longrightarrow> reachable cfg st'"

inductive_cases pstep_cases: "pstep cfg st eff st'"

subsection \<open>The invariant\<close>

definition waiting :: "proto_state \<Rightarrow> nat set" where
  "waiting st = {i. \<exists>rq. ps_requests st i = Some rq \<and> rq_phase rq = Waiting}"

definition timers :: "proto_state \<Rightarrow> nat set" where
  "timers st = fst ` set (ps_timeoutInfo st)"

text \<open>
  The maps agree with the waiting requests, except for the requests \<open>X\<close> an operation has
  taken out of the maps and is about to settle.
\<close>

definition maps_ok :: "nat set \<Rightarrow> proto_state \<Rightarrow> bool" where
  "maps_ok X st \<longleftrightarrow> distinct (ps_responseHandlers st) \<and> set (ps_responseHandlers st) = waiting st - X
     \<and> distinct (map fst (ps_timeoutInfo st)) \<and> timers st = set (ps_responseHandlers st)
     \<and> set (ps_progressHandlers st) \<subseteq> set (ps_responseHandlers st)
     \<and> (ps_responseHandlers st \<noteq> [] \<longrightarrow> ps_transport st \<noteq> None)"

definition flags_ok :: "proto_state \<Rightarrow> bool" where
  "flags_ok st \<longleftrightarrow> (\<forall>i rq. ps_requests st i = Some rq \<and> rq_phase rq = Waiting \<longrightarrow> \<not> rq_received rq \<and> \<not> rq_aborted rq)"

definition ids_ok :: "proto_state \<Rightarrow> bool" where
  "ids_ok st \<longleftrightarrow> (\<forall>i. ps_requests st i \<noteq> None \<longrightarrow> i < ps_requestMessageId st)"

definition proto_inv :: "proto_state \<Rightarrow> bool" where
  "proto_inv st \<longleftrightarrow> maps_ok {} st \<and> flags_ok st \<and> ids_ok st"

text \<open>Two states with the same request bookkeeping.\<close>

definition same_books :: "proto_state \<Rightarrow> proto_state \<Rightarrow> bool" where
  "same_books st st' \<longleftrightarrow> ps_requests st' = ps_requests st \<and> ps_requestMessageId st' = ps_requestMessageId st
     \<and> ps_responseHandlers st' = ps_responseHandlers st \<and> ps_progressHandlers st' = ps_progressHandlers st
     \<and> ps_timeoutInfo st' = ps_timeoutInfo st \<and> (ps_transport st \<noteq> None \<longrightarrow> ps_transport st' \<noteq> None)"

lemma same_books_inv: "same_books st st' \<Longrightarrow> proto_inv st \<Longrightarrow> proto_inv st'"
  by (auto simp: same_books_def proto_inv_def maps_ok_def flags_ok_def ids_ok_def waiting_def timers_def)

lemma same_books_refl [simp]: "same_books st st"
  by (simp add: same_books_def)

lemma waiting_upd: "waiting (st\<lparr>ps_requests := (ps_requests st)(i \<mapsto> rq)\<rparr>)
    = (if rq_phase rq = Waiting then insert i (waiting st) else waiting st - {i})"
  by (auto simp: waiting_def)

lemma waiting_drop [simp]:
  "waiting (cleanupTimeout i st) = waiting st" "waiting (dropProgress i st) = waiting st"
  "waiting (dropResponseHandler i st) = waiting st"
  by (simp_all add: waiting_def cleanupTimeout_def dropProgress_def dropResponseHandler_def)

lemma flags_drop [simp]:
  "flags_ok (cleanupTimeout i st) = flags_ok st" "flags_ok (dropProgress i st) = flags_ok st"
  "flags_ok (dropResponseHandler i st) = flags_ok st"
  by (simp_all add: flags_ok_def cleanupTimeout_def dropProgress_def dropResponseHandler_def)

lemma ids_drop [simp]:
  "ids_ok (cleanupTimeout i st) = ids_ok st" "ids_ok (dropProgress i st) = ids_ok st"
  "ids_ok (dropResponseHandler i st) = ids_ok st"
  by (simp_all add: ids_ok_def cleanupTimeout_def dropProgress_def dropResponseHandler_def)

lemmas drop_defs = cleanupTimeout_def dropProgress_def dropResponseHandler_def

lemma delete_keys [simp]: "fst ` set (AList.delete i al) = fst ` set al - {i}"
proof -
  have "set (map fst (AList.delete i al)) = set (removeAll i (map fst al))" by (simp only: AList.delete_keys)
  then show ?thesis by simp
qed

lemma drop_fields [simp]:
  "ps_responseHandlers (dropResponseHandler i st) = removeAll i (ps_responseHandlers st)"
  "ps_responseHandlers (cleanupTimeout i st) = ps_responseHandlers st"
  "ps_responseHandlers (dropProgress i st) = ps_responseHandlers st"
  "ps_progressHandlers (dropResponseHandler i st) = ps_progressHandlers st"
  "ps_progressHandlers (cleanupTimeout i st) = ps_progressHandlers st"
  "ps_progressHandlers (dropProgress i st) = removeAll i (ps_progressHandlers st)"
  "ps_timeoutInfo (dropResponseHandler i st) = ps_timeoutInfo st"
  "ps_timeoutInfo (cleanupTimeout i st) = AList.delete i (ps_timeoutInfo st)"
  "ps_timeoutInfo (dropProgress i st) = ps_timeoutInfo st"
  "ps_transport (dropResponseHandler i st) = ps_transport st"
  "ps_transport (cleanupTimeout i st) = ps_transport st"
  "ps_transport (dropProgress i st) = ps_transport st"
  "ps_requests (dropResponseHandler i st) = ps_requests st"
  "ps_requests (cleanupTimeout i st) = ps_requests st"
  "ps_requests (dropProgress i st) = ps_requests st"
  by (simp_all add: drop_defs)

lemma drop_timers [simp]:
  "timers (cleanupTimeout i st) = timers st - {i}" "timers (dropResponseHandler i st) = timers st"
  "timers (dropProgress i st) = timers st"
  by (simp_all add: timers_def)

subsection \<open>The operations on one request\<close>

lemma settle_maps:
  assumes "maps_ok X st" and "i \<notin> set (ps_progressHandlers st)" and "p \<noteq> Waiting"
  shows "maps_ok (X - {i}) (settle i p st)"
proof (cases "ps_requests st i")
  case None
  then have "i \<notin> waiting st" by (simp add: waiting_def)
  with assms None show ?thesis by (auto simp: settle_def maps_ok_def)
next
  case (Some rq)
  show ?thesis
  proof (cases "unsettled (rq_phase rq)")
    case False
    then have "i \<notin> waiting st" using Some by (auto simp: waiting_def)
    with assms Some False show ?thesis by (auto simp: settle_def maps_ok_def)
  next
    case True
    define st1 where "st1 = set_phase i p st"
    have s: "settle i p st = cleanupTimeout i (dropResponseHandler i st1)"
      using Some True by (simp add: settle_def st1_def)
    have w: "waiting st1 = waiting st - {i}" using Some assms(3) by (simp add: st1_def set_phase_def waiting_upd)
    have f: "ps_responseHandlers st1 = ps_responseHandlers st" "ps_timeoutInfo st1 = ps_timeoutInfo st"
      "ps_progressHandlers st1 = ps_progressHandlers st" "ps_transport st1 = ps_transport st"
      using Some by (simp_all add: st1_def set_phase_def)
    have r: "ps_responseHandlers (settle i p st) = removeAll i (ps_responseHandlers st)"
      "ps_timeoutInfo (settle i p st) = AList.delete i (ps_timeoutInfo st)" "timers (settle i p st) = timers st - {i}"
      "ps_progressHandlers (settle i p st) = ps_progressHandlers st" "ps_transport (settle i p st) = ps_transport st"
      "waiting (settle i p st) = waiting st - {i}"
      unfolding s by (simp_all add: f w) (simp add: timers_def f)
    have m: "distinct (ps_responseHandlers st)" "set (ps_responseHandlers st) = waiting st - X"
      "distinct (map fst (ps_timeoutInfo st))" "timers st = set (ps_responseHandlers st)"
      "set (ps_progressHandlers st) \<subseteq> set (ps_responseHandlers st)"
      "ps_responseHandlers st \<noteq> [] \<longrightarrow> ps_transport st \<noteq> None"
      using assms(1) unfolding maps_ok_def by blast+
    show ?thesis unfolding maps_ok_def r
      using m assms(2) by (auto simp: distinct_removeAll AList.distinct_delete)
  qed
qed

lemma settle_flags: "flags_ok st \<Longrightarrow> p \<noteq> Waiting \<Longrightarrow> flags_ok (settle i p st)"
  by (auto simp: settle_def set_phase_def split: option.split) (auto simp: flags_ok_def)

lemma settle_ids: "ids_ok st \<Longrightarrow> ids_ok (settle i p st)"
  by (auto simp: settle_def set_phase_def split: option.split) (auto simp: ids_ok_def)

lemma drop_maps: "maps_ok X st \<Longrightarrow> maps_ok (insert i X) (dropProgress i (cleanupTimeout i (dropResponseHandler i st)))"
  by (auto simp: maps_ok_def distinct_removeAll AList.distinct_delete)

lemma dropProgress_maps: "maps_ok X st \<Longrightarrow> maps_ok X (dropProgress i st)"
  by (auto simp: maps_ok_def)

text \<open>Marking a request as answered or aborted, on its way to being settled.\<close>

definition mark :: "nat \<Rightarrow> request_rec \<Rightarrow> proto_state \<Rightarrow> proto_state" where
  "mark i rq st = st\<lparr>ps_requests := (ps_requests st)(i \<mapsto> rq)\<rparr>"

lemma mark_maps:
  "ps_requests st i = Some rq \<Longrightarrow> rq_phase rq' = rq_phase rq \<Longrightarrow> maps_ok X st \<Longrightarrow> maps_ok X (mark i rq' st)"
  by (auto simp: maps_ok_def waiting_def mark_def timers_def)

lemma mark_ids: "ps_requests st i = Some rq \<Longrightarrow> ids_ok st \<Longrightarrow> ids_ok (mark i rq' st)"
  by (auto simp: ids_ok_def mark_def)

lemma mark_progress [simp]: "ps_progressHandlers (mark i rq st) = ps_progressHandlers st"
  by (simp add: mark_def)

lemma mark_dropProgress: "dropProgress i (mark j rq st) = mark j rq (dropProgress i st)"
  by (cases st) (simp add: mark_def dropProgress_def)

text \<open>Settling a marked request: only the other requests' flags matter.\<close>

lemma settle_marked_flags:
  assumes "flags_ok st" and "p \<noteq> Waiting" and "unsettled (rq_phase rq)"
  shows "flags_ok (settle i p (mark i rq st))"
  using assms
  by (auto simp: settle_def mark_def set_phase_def) (auto simp: flags_ok_def)

lemma mark_flags: "flags_ok st \<Longrightarrow> rq_phase rq \<noteq> Waiting \<Longrightarrow> flags_ok (mark i rq st)"
  by (auto simp: flags_ok_def mark_def)

definition books_ok :: "nat set \<Rightarrow> proto_state \<Rightarrow> bool" where
  "books_ok X st \<longleftrightarrow> maps_ok X st \<and> flags_ok st \<and> ids_ok st"

lemma settle_books:
  "books_ok X st \<Longrightarrow> i \<notin> set (ps_progressHandlers st) \<Longrightarrow> p \<noteq> Waiting \<Longrightarrow> books_ok (X - {i}) (settle i p st)"
  by (simp add: books_ok_def settle_maps settle_flags settle_ids)

lemma settle_marked_books:
  assumes "books_ok X st" and "ps_requests st i = Some rq" and "rq_phase rq' = rq_phase rq"
    and "i \<notin> set (ps_progressHandlers st)" and "p \<noteq> Waiting" and "unsettled (rq_phase rq)"
  shows "books_ok (X - {i}) (settle i p (mark i rq' st))"
  using assms
  by (simp add: books_ok_def settle_maps mark_maps settle_ids mark_ids settle_marked_flags)

lemma set_phase_books:
  assumes "books_ok X st" and "ps_requests st i = Some rq" and "i \<in> X \<or> i \<notin> waiting st" and "p \<noteq> Waiting"
  shows "books_ok (X - {i}) (set_phase i p st)"
proof -
  have "waiting (set_phase i p st) = waiting st - {i}" using assms by (simp add: set_phase_def waiting_upd)
  moreover have "flags_ok (set_phase i p st)" "ids_ok (set_phase i p st)"
    using assms by (auto simp: books_ok_def flags_ok_def ids_ok_def set_phase_def)
  moreover have f: "ps_responseHandlers (set_phase i p st) = ps_responseHandlers st"
    "ps_timeoutInfo (set_phase i p st) = ps_timeoutInfo st" "timers (set_phase i p st) = timers st"
    "ps_progressHandlers (set_phase i p st) = ps_progressHandlers st" "ps_transport (set_phase i p st) = ps_transport st"
    using assms(2) by (simp_all add: set_phase_def timers_def)
  ultimately show ?thesis using assms(1,3) unfolding books_ok_def maps_ok_def f by auto
qed

text \<open>The response handler of a request that is out of the maps or already settled.\<close>

lemma handleResponse_books:
  assumes b: "books_ok X st" and p: "i \<notin> set (ps_progressHandlers st)" and x: "i \<in> X \<or> i \<notin> waiting st"
  shows "books_ok (X - {i}) (handleResponse cfg i response st)"
proof (cases "ps_requests st i")
  case None
  then have "i \<notin> waiting st" by (simp add: waiting_def)
  with None b show ?thesis by (auto simp: handleResponse_def books_ok_def maps_ok_def)
next
  case (Some rq)
  define rq' where "rq' = rq\<lparr>rq_received := True\<rparr>"
  have ph: "rq_phase rq' = rq_phase rq" by (simp add: rq'_def)
  have shrink: "books_ok X s \<Longrightarrow> i \<notin> waiting s \<Longrightarrow> books_ok (X - {i}) s" for s
    by (auto simp: books_ok_def maps_ok_def)
  show ?thesis
  proof (cases "rq_aborted rq")
    case True
    then have "i \<notin> waiting st" using b Some by (auto simp: books_ok_def flags_ok_def waiting_def)
    with shrink b Some True show ?thesis by (simp add: handleResponse_def)
  next
    case False
    show ?thesis
    proof (cases "unsettled (rq_phase rq)")
      case True
      have s: "q \<noteq> Waiting \<Longrightarrow> books_ok (X - {i}) (settle i q (mark i rq' st))" for q
        using settle_marked_books [OF b Some ph p _ True] .
      have v: "books_ok (X - {i}) (set_phase i (Validating w) (mark i rq' st))" for w
      proof -
        have "set_phase i (Validating w) (mark i rq' st) = mark i (rq'\<lparr>rq_phase := Validating w\<rparr>) (set_phase i (Validating w) st)"
          using Some by (simp add: set_phase_def mark_def)
        moreover have b2: "books_ok (X - {i}) (set_phase i (Validating w) st)"
          by (rule set_phase_books [OF b Some x]) simp
        moreover have "ps_requests (set_phase i (Validating w) st) i = Some (rq\<lparr>rq_phase := Validating w\<rparr>)"
          using Some by (simp add: set_phase_def)
        ultimately show ?thesis by (simp add: books_ok_def mark_maps mark_ids mark_flags)
      qed
      show ?thesis using Some False True s v
        by (auto simp: handleResponse_def Let_def rq'_def mark_def [symmetric] split: sum.split decoded_result.split)
    next
      case settled: False
      have n: "i \<notin> waiting st" using settled Some by (auto simp: waiting_def)
      have m: "books_ok X (mark i rq' st)"
        using b Some settled ph by (auto simp: books_ok_def mark_maps mark_ids intro!: mark_flags)
      have "i \<notin> waiting (mark i rq' st)" using settled ph by (auto simp: waiting_def mark_def)
      then have m': "books_ok (X - {i}) (mark i rq' st)" using shrink m by blast
      have "settle i q (mark i rq' st) = mark i rq' st" for q using settled ph by (simp add: settle_def mark_def)
      then show ?thesis using Some False settled m'
        by (auto simp: handleResponse_def Let_def rq'_def mark_def [symmetric] split: sum.split decoded_result.split)
    qed
  qed
qed

lemma books_inv: "proto_inv st = books_ok {} st"
  by (simp add: proto_inv_def books_ok_def)

lemma drop_books: "books_ok X st \<Longrightarrow> books_ok (insert i X) (dropProgress i (cleanupTimeout i (dropResponseHandler i st)))"
  by (simp add: books_ok_def drop_maps)

lemma drop_commute: "cleanupTimeout i (dropProgress i (dropResponseHandler i st)) = dropProgress i (cleanupTimeout i (dropResponseHandler i st))"
  by (simp add: drop_defs)

lemma dropProgress_books: "books_ok X st \<Longrightarrow> books_ok X (dropProgress i st)"
  by (simp add: books_ok_def dropProgress_maps)

lemma settled_inv: "books_ok {} st \<Longrightarrow> i \<notin> set (ps_progressHandlers st) \<Longrightarrow> p \<noteq> Waiting \<Longrightarrow> books_ok {} (settle i p st)"
  using settle_books [of "{}" st i p] by simp

lemma respond_dropped:
  "books_ok {} st \<Longrightarrow> books_ok {} (handleResponse cfg i response (dropProgress i (cleanupTimeout i (dropResponseHandler i st))))"
  using handleResponse_books [of "insert i {}" "dropProgress i (cleanupTimeout i (dropResponseHandler i st))" i cfg response]
    drop_books [of "{}" st i] by simp

subsection \<open>The operations of the instance\<close>

lemma cancel_books: "books_ok {} st \<Longrightarrow> books_ok {} (fst (cancelOp cfg i reason st))"
  by (auto simp: cancelOp_def intro!: settled_inv dropProgress_books split: option.split)

lemma timeout_books: "books_ok {} st \<Longrightarrow> books_ok {} (fst (timeoutFired cfg i st))"
  by (auto simp: timeoutFired_def cancel_books split: option.split)

lemma abort_books:
  assumes "books_ok {} st" shows "books_ok {} (fst (signalAborted cfg i reason st))"
proof (cases "ps_requests st i")
  case None
  with assms show ?thesis by (simp add: signalAborted_def)
next
  case (Some rq)
  define rq' where "rq' = rq\<lparr>rq_aborted := True\<rparr>"
  have ph: "rq_phase rq' = rq_phase rq" by (simp add: rq'_def)
  show ?thesis
  proof (cases "rq_phase rq = Waiting")
    case True
    then have "\<not> rq_received rq" using assms Some by (auto simp: books_ok_def flags_ok_def)
    then have "fst (signalAborted cfg i reason st) = settle i (Rejected (reasonError reason)) (mark i rq' (dropProgress i st))"
      using Some True
      by (simp add: signalAborted_def cancelOp_def Let_def mark_dropProgress [symmetric]) (simp add: mark_def rq'_def)
    moreover have "books_ok {} (settle i (Rejected (reasonError reason)) (mark i rq' (dropProgress i st)))"
      using settle_marked_books [OF dropProgress_books [OF assms, where i = i], where i = i and rq = rq and rq' = rq'
          and p = "Rejected (reasonError reason)"] Some ph True by simp
    ultimately show ?thesis by simp
  next
    case False
    have m: "books_ok {} (mark i rq' st)"
      using assms Some False ph by (auto simp: books_ok_def mark_maps mark_ids intro!: mark_flags)
    then show ?thesis using Some cancel_books [OF m]
      by (auto simp: signalAborted_def Let_def rq'_def [symmetric] mark_def [symmetric])
  qed
qed

lemma sendFailed_books: "books_ok {} st \<Longrightarrow> books_ok {} (sendFailed i e st)"
  unfolding sendFailed_def by (intro settled_inv dropProgress_books) simp_all

lemma validating_progress:
  "books_ok {} st \<Longrightarrow> ps_requests st i = Some rq \<Longrightarrow> rq_phase rq \<noteq> Waiting \<Longrightarrow> i \<notin> set (ps_progressHandlers st)"
  by (auto simp: books_ok_def maps_ok_def waiting_def)

lemma validation_books: "books_ok {} st \<Longrightarrow> books_ok {} (validationDone i verdict st)"
  by (auto simp: validationDone_def intro!: settled_inv dest: validating_progress split: option.split phase.split sum.split)

lemma delegation_books:
  assumes "books_ok {} st" shows "books_ok {} (delegationDone i out st)"
proof (cases "ps_requests st i")
  case (Some rq)
  show ?thesis
  proof (cases "rq_phase rq = Delegated")
    case True
    then have "i \<notin> waiting st" using Some by (auto simp: waiting_def)
    then have "q \<noteq> Waiting \<Longrightarrow> books_ok {} (set_phase i q st)" for q
      using set_phase_books [OF assms Some] by simp
    then show ?thesis using Some True by (auto simp: delegationDone_def split: sum.split)
  qed (use assms Some in \<open>simp add: delegationDone_def\<close>)
qed (use assms in \<open>simp add: delegationDone_def\<close>)

lemma response_books: "books_ok {} st \<Longrightarrow> books_ok {} (fst (onresponse cfg response st))"
  by (auto simp: onresponse_def Let_def respond_dropped split: option.split)

lemma same_books_books: "same_books st st' \<Longrightarrow> books_ok {} st \<Longrightarrow> books_ok {} st'"
  using same_books_inv by (simp add: books_inv)

lemma reset_books: "books_ok {} st \<Longrightarrow> resetTimeout i now st = Inr st' \<Longrightarrow> i \<in> timers st \<Longrightarrow> books_ok {} st'"
proof -
  assume b: "books_ok {} st" and r: "resetTimeout i now st = Inr st'" and i: "i \<in> timers st"
  have "books_ok {} (st\<lparr>ps_timeoutInfo := AList.update i v (ps_timeoutInfo st)\<rparr>)" for v
    using b i by (auto simp: books_ok_def maps_ok_def flags_ok_def ids_ok_def waiting_def timers_def
        AList.distinct_update AList.dom_update)
  then show "books_ok {} st'" using r b
    by (auto simp: resetTimeout_def Let_def split: option.splits if_splits)
qed

lemma progress_books: "books_ok {} st \<Longrightarrow> books_ok {} (fst (onprogress cfg n now st))"
proof -
  assume b: "books_ok {} st"
  have tm: "i \<in> set (ps_responseHandlers st) \<Longrightarrow> i \<in> timers st" for i
    using b by (auto simp: books_ok_def maps_ok_def)
  have "books_ok {} (handleResponse cfg i (Inl e) (cleanupTimeout i (dropProgress i (dropResponseHandler i st))))" for i e
    using respond_dropped [OF b] by (simp add: drop_commute)
  then show "books_ok {} (fst (onprogress cfg n now st))"
    using b by (auto simp: onprogress_def Let_def intro: reset_books tm split: option.split sum.split)
qed

lemma request_books:
  assumes b: "books_ok {} st" and r: "requestViaCodec cfg codec m params opts now st = (res, st', eff)"
  shows "books_ok {} st'"
proof -
  let ?n = "ps_requestMessageId st"
  have fresh: "ps_requests st ?n = None" "?n \<notin> waiting st"
    using b by (auto simp: books_ok_def ids_ok_def waiting_def)
  then have fresh': "?n \<notin> set (ps_responseHandlers st)" "?n \<notin> timers st" "?n \<notin> fst ` set (ps_timeoutInfo st)"
    using b by (auto simp: books_ok_def maps_ok_def timers_def [symmetric])
  have new: "books_ok {} (st\<lparr>ps_requestMessageId := Suc ?n, ps_progressHandlers := ps_progressHandlers st @ pr,
      ps_requests := (ps_requests st)(?n \<mapsto> rq), ps_responseHandlers := ps_responseHandlers st @ [?n],
      ps_timeoutInfo := ps_timeoutInfo st @ [(?n, info)]\<rparr>)" (is "books_ok {} ?new")
    if rq: "rq_phase rq = Waiting" "\<not> rq_received rq" "\<not> rq_aborted rq" and pr: "set pr \<subseteq> {?n}"
      and t: "ps_transport st \<noteq> None" for rq pr info
  proof -
    have w: "waiting ?new = insert ?n (waiting st)" using rq by (auto simp: waiting_def)
    have tm: "timers ?new = insert ?n (timers st)" by (auto simp: timers_def)
    have "maps_ok {} ?new" unfolding maps_ok_def w tm
      using b fresh' pr t by (auto simp: books_ok_def maps_ok_def timers_def [symmetric])
    moreover have "flags_ok ?new" using b rq by (auto simp: books_ok_def flags_ok_def)
    moreover have "ids_ok ?new" using b unfolding books_ok_def ids_ok_def
      by (simp add: less_Suc_eq)
    ultimately show ?thesis by (simp add: books_ok_def)
  qed
  note new0 = new [where pr = "[]", simplified]
  show ?thesis
  proof (cases "ps_transport st")
    case None
    then show ?thesis using r b by (simp add: requestViaCodec_def)
  next
    case (Some ts)
    obtain t s where ts: "ts = (t, s)" by (cases ts)
    show ?thesis using r b Some ts
      by (auto simp: requestViaCodec_def Let_def intro!: new new0 split: option.splits)
  qed
qed

lemma requestOp_books: "books_ok {} st \<Longrightarrow> requestOp cfg ex m params opts now st = (res, st', eff) \<Longrightarrow> books_ok {} st'"
  by (auto simp: requestOp_def Let_def dest: request_books split: option.splits if_splits)

lemma abortTask_same: "same_books st (abortTask n st)"
  by (auto simp: same_books_def abortTask_def split: option.split)

lemma onrequest_same: "same_books st (fst (onrequest cfg raw cls st))"
  by (auto simp: same_books_def onrequest_def Let_def split: option.split)

lemma handlerDone_same: "same_books st (fst (handlerDone cfg n out st))"
  by (auto simp: same_books_def handlerDone_def split: option.split)

lemma oncancel_same: "same_books st (oncancel n st)"
  by (auto simp: oncancel_def Let_def abortTask_same split: option.split)

lemma notify_same: "notificationOp cfg m params related st = (r, st', eff) \<Longrightarrow> same_books st st'"
  by (auto simp: same_books_def notificationOp_def Let_def split: option.splits if_splits)

lemma tick_same: "same_books st (fst (debounceTick st))"
  by (auto simp: same_books_def debounceTick_def split: list.split)

lemma notification_books: "books_ok {} st \<Longrightarrow> books_ok {} (fst (onnotification cfg valid raw cls now st))"
  by (auto simp: onnotification_def deliverNotification_def Let_def progress_books
      intro: same_books_books [OF oncancel_same] split: option.split)

lemma message_books: "books_ok {} st \<Longrightarrow> books_ok {} (fst (onmessage cfg valid msg cls now st))"
  by (auto simp: onmessage_def response_books notification_books intro: same_books_books [OF onrequest_same])

lemma register_same:
  "setRequestHandler ac m s h st = Inr st' \<Longrightarrow> same_books st st'"
  "setNotificationHandler m s h st = Inr st' \<Longrightarrow> same_books st st'"
  "same_books st (removeRequestHandler m st)" "same_books st (removeNotificationHandler m st)"
  "same_books st (setNegotiatedProtocolVersion v st)" "same_books st (connectOp t stream st)"
  by (auto simp: same_books_def setRequestHandler_def setNotificationHandler_def removeRequestHandler_def
      removeNotificationHandler_def setNegotiatedProtocolVersion_def connectOp_def split: option.splits if_splits)

text \<open>Teardown: the handlers of all waiting requests run one after the other.\<close>

lemma handleResponse_fields:
  "ps_progressHandlers (handleResponse cfg i (Inl e) st) = ps_progressHandlers st"
  "ps_transport (handleResponse cfg i (Inl e) st) = ps_transport st"
  by (auto simp: handleResponse_def settle_def set_phase_def Let_def split: option.split)

lemma fold_responses:
  "books_ok X st \<Longrightarrow> ps_progressHandlers st = [] \<Longrightarrow> distinct is \<Longrightarrow> set is \<subseteq> X
     \<Longrightarrow> books_ok (X - set is) (fold (\<lambda>i. handleResponse cfg i (Inl e)) is st)"
proof (induction "is" arbitrary: X st)
  case (Cons i "is")
  have "books_ok (X - {i}) (handleResponse cfg i (Inl e) st)"
    using Cons.prems by (intro handleResponse_books) auto
  then have "books_ok (X - {i} - set is) (fold (\<lambda>i. handleResponse cfg i (Inl e)) is (handleResponse cfg i (Inl e) st))"
    using Cons.prems by (intro Cons.IH) (auto simp: handleResponse_fields)
  moreover have "X - {i} - set is = X - set (i # is)" by auto
  ultimately show ?case by simp
qed simp

lemma fold_abort_same: "same_books st (fold (\<lambda>e. abortTask (snd e)) es st)"
proof (induction es arbitrary: st)
  case (Cons e es)
  have "same_books st (abortTask (snd e) st)" by (rule abortTask_same)
  moreover have "same_books (abortTask (snd e) st) (fold (\<lambda>e. abortTask (snd e)) es (abortTask (snd e) st))" by (rule Cons)
  ultimately show ?case by (auto simp: same_books_def)
qed simp

definition torn_down :: "proto_state \<Rightarrow> proto_state" where
  "torn_down st = st\<lparr>ps_responseHandlers := [], ps_progressHandlers := [], ps_pendingDebounced := [],
     ps_timeoutInfo := [], ps_abortControllers := [], ps_transport := None\<rparr>"

lemma torn_down_books: "books_ok {} st \<Longrightarrow> books_ok (set (ps_responseHandlers st)) (torn_down st)"
  by (auto simp: books_ok_def maps_ok_def flags_ok_def ids_ok_def waiting_def timers_def torn_down_def)

lemma onclose_eq: "oncloseOp cfg st = (fold (\<lambda>e. abortTask (snd e)) (ps_abortControllers st)
    (fold (\<lambda>i. handleResponse cfg i (Inl connectionClosed)) (ps_responseHandlers st) (torn_down st)), [OnClose])"
  by (simp add: oncloseOp_def torn_down_def Let_def)

lemma close_books: "books_ok {} st \<Longrightarrow> books_ok {} (fst (oncloseOp cfg st))"
proof -
  assume b: "books_ok {} st"
  then have "distinct (ps_responseHandlers st)" by (simp add: books_ok_def maps_ok_def)
  then have "books_ok {} (fold (\<lambda>i. handleResponse cfg i (Inl connectionClosed)) (ps_responseHandlers st) (torn_down st))"
    using fold_responses [OF torn_down_books [OF b] _ _ order_refl] by (simp add: torn_down_def)
  then show "books_ok {} (fst (oncloseOp cfg st))"
    unfolding onclose_eq fst_conv by (rule same_books_books [OF fold_abort_same])
qed

lemma step_inv: "pstep cfg st eff st' \<Longrightarrow> proto_inv st \<Longrightarrow> proto_inv st'"
proof (induction rule: pstep.induct)
  case ev_request
  then show ?case by (simp add: books_inv requestOp_books)
next
  case (ev_message valid msg cls now st st' eff)
  then show ?case using message_books [of st cfg valid msg cls now] by (simp add: books_inv)
next
  case (ev_timeout st i info now st' eff)
  then show ?case using timeout_books [of st cfg i] by (simp add: books_inv)
next
  case (ev_abort i reason st st' eff)
  then show ?case using abort_books [of st cfg i reason] by (simp add: books_inv)
next
  case (ev_tick st st' eff)
  then show ?case using same_books_inv [OF tick_same [of st]] by simp
next
  case (ev_handler n result st st' eff)
  then show ?case using same_books_inv [OF handlerDone_same [of st cfg n result]] by simp
next
  case (ev_close st st' eff)
  then show ?case using close_books [of st cfg] by (simp add: books_inv)
qed (auto simp: books_inv sendFailed_books validation_books delegation_books
      intro: same_books_books register_same notify_same)

lemma initial_inv: "proto_inv initial_state"
  by (simp add: proto_inv_def maps_ok_def flags_ok_def ids_ok_def waiting_def timers_def initial_state_def)

lemma reachable_inv: "reachable cfg st \<Longrightarrow> proto_inv st"
  by (induction rule: reachable.induct) (auto simp: initial_inv step_inv)

end
