(* ===== verification/ProtocolProperties.thy ===== *)
theory ProtocolProperties
  imports ProtocolInvariant
begin

text \<open>
  What the request bookkeeping guarantees in every reachable state of a protocol instance:
  nothing is left waiting without a response handler and a timer, and the record of a
  request only moves forward. A small concrete run provides the witnesses.
\<close>

subsection \<open>A concrete reachable state\<close>

definition demo_options :: request_options where
  "demo_options = \<lparr>op_onprogress = True, op_timeout = None, op_maxTotalTimeout = None,
     op_resetTimeoutOnProgress = False, op_allowInputRequired = False, op_aborted = None\<rparr>"

definition demo_state :: proto_state where
  "demo_state = fst (snd (requestOp demo_config False ''tools/list'' JUndef demo_options 0 (connectOp 0 False initial_state)))"

lemma demo_reachable: "reachable demo_config demo_state"
proof -
  have "reachable demo_config (connectOp 0 False initial_state)"
    by (rule reachable.step [OF reachable.start ev_connect])
  moreover have "pstep demo_config (connectOp 0 False initial_state)
      (snd (snd (requestOp demo_config False ''tools/list'' JUndef demo_options 0 (connectOp 0 False initial_state)))) demo_state"
    by (rule ev_request [where r = "fst (requestOp demo_config False ''tools/list'' JUndef demo_options 0 (connectOp 0 False initial_state))"])
      (simp add: demo_state_def)
  ultimately show ?thesis by (rule reachable.step)
qed

definition demo_record :: request_rec where
  "demo_record = \<lparr>rq_method = ''tools/list'', rq_codec = Rev2025, rq_phase = Waiting, rq_received = False,
     rq_aborted = False, rq_allowInputRequired = False, rq_streamCloseCancels = False\<rparr>"

lemma demo_codec: "resolveOutboundCodec (connectOp 0 False initial_state) ''tools/list'' = Rev2025"
  by (simp add: resolveOutboundCodec_def bootstrapOutboundCodec_def negotiatedCodec_def codecForVersion_def
      connectOp_def initial_state_def)

lemma demo_request_record: "ps_requests demo_state 0 = Some demo_record"
proof -
  have "assertOutboundRequestInEra Rev2025 ''tools/list'' = None"
    by (simp add: assertOutboundRequestInEra_def hasRequestMethod_def requestMethodKeys2025_def)
  moreover have "hasResultMethod Rev2025 ''tools/list''" by (simp add: hasResultMethod_def resultMethodKeys2025_def)
  ultimately show ?thesis
    unfolding demo_state_def requestOp_def demo_codec
    by (simp add: requestViaCodec_def demo_options_def demo_config_def demo_record_def connectOp_def initial_state_def)
qed

lemma demo_transport: "ps_transport demo_state = Some (0, False)"
  unfolding demo_state_def requestOp_def
  by (auto simp: requestViaCodec_def demo_options_def demo_config_def connectOp_def initial_state_def Let_def split: option.splits)

subsection \<open>No stranded request\<close>

text \<open>
  C1: no request is stranded. In every reachable state a request waits for its response
  exactly when a response handler is installed for it; it then has a running timer, no
  response or abort has been seen, and the instance is connected. Progress handlers belong
  to waiting requests only.
\<close>

theorem waiting_requests_are_served:
  assumes "reachable cfg st"
  shows "(i \<in> set (ps_responseHandlers st) \<longleftrightarrow> (\<exists>rq. ps_requests st i = Some rq \<and> rq_phase rq = Waiting))
    \<and> (i \<in> set (ps_responseHandlers st) \<longleftrightarrow> map_of (ps_timeoutInfo st) i \<noteq> None)
    \<and> (i \<in> set (ps_responseHandlers st) \<longrightarrow> ps_transport st \<noteq> None
        \<and> \<not> rq_received (the (ps_requests st i)) \<and> \<not> rq_aborted (the (ps_requests st i)))
    \<and> (i \<in> set (ps_progressHandlers st) \<longrightarrow> i \<in> set (ps_responseHandlers st))"
proof -
  have inv: "maps_ok {} st" "flags_ok st" using reachable_inv [OF assms] by (simp_all add: proto_inv_def)
  have w: "i \<in> set (ps_responseHandlers st) \<longleftrightarrow> i \<in> waiting st" using inv(1) by (simp add: maps_ok_def)
  have t: "i \<in> set (ps_responseHandlers st) \<longleftrightarrow> map_of (ps_timeoutInfo st) i \<noteq> None"
    using inv(1) by (simp add: maps_ok_def timers_def map_of_eq_None_iff)
  have f: "i \<in> waiting st \<Longrightarrow> \<not> rq_received (the (ps_requests st i)) \<and> \<not> rq_aborted (the (ps_requests st i))"
    using inv(2) by (auto simp: flags_ok_def waiting_def)
  have c: "i \<in> set (ps_responseHandlers st) \<Longrightarrow> ps_transport st \<noteq> None"
    using inv(1) by (auto simp: maps_ok_def)
  have p: "i \<in> set (ps_progressHandlers st) \<Longrightarrow> i \<in> set (ps_responseHandlers st)"
    using inv(1) by (auto simp: maps_ok_def)
  show ?thesis using w t f c p by (auto simp: waiting_def)
qed

theorem waiting_requests_are_served_witness: "map_of (ps_timeoutInfo demo_state) 0 \<noteq> None"
proof -
  note w = waiting_requests_are_served [OF demo_reachable, of 0]
  have "\<exists>rq. ps_requests demo_state 0 = Some rq \<and> rq_phase rq = Waiting"
    using demo_request_record by (simp add: demo_record_def)
  with w show ?thesis by blast
qed

subsection \<open>The life of a request\<close>

fun final_phase :: "phase \<Rightarrow> bool" where
  "final_phase (Resolved _) = True"
| "final_phase (Rejected _) = True"
| "final_phase _ = False"

text \<open>The order of the phases: waiting, validating a result, delegated, settled.\<close>

fun rank :: "phase \<Rightarrow> nat" where
  "rank Waiting = 0"
| "rank (Validating _) = 1"
| "rank Delegated = 2"
| "rank _ = 3"

definition answered :: "request_rec \<Rightarrow> bool" where
  "answered rq \<longleftrightarrow> (rank (rq_phase rq) = 1 \<longrightarrow> rq_received rq)"

text \<open>How the record of one request may change: forward through the phases, once settled never again.\<close>

definition evolves :: "request_rec \<Rightarrow> request_rec \<Rightarrow> bool" where
  "evolves rq rq' \<longleftrightarrow> rq_method rq' = rq_method rq \<and> rq_codec rq' = rq_codec rq
     \<and> rq_streamCloseCancels rq' = rq_streamCloseCancels rq
     \<and> (rq_received rq \<longrightarrow> rq_received rq') \<and> (rq_aborted rq \<longrightarrow> rq_aborted rq')
     \<and> rank (rq_phase rq) \<le> rank (rq_phase rq') \<and> (final_phase (rq_phase rq) \<longrightarrow> rq_phase rq' = rq_phase rq)
     \<and> (answered rq \<longrightarrow> answered rq')"

definition recs_evolve :: "proto_state \<Rightarrow> proto_state \<Rightarrow> bool" where
  "recs_evolve st st' \<longleftrightarrow> (\<forall>i. rel_option evolves (ps_requests st i) (ps_requests st' i))"

definition all_answered :: "proto_state \<Rightarrow> bool" where
  "all_answered st \<longleftrightarrow> (\<forall>i rq. ps_requests st i = Some rq \<longrightarrow> answered rq)"

text \<open>No record is lost, and the known ones evolve; new ones may appear.\<close>

definition recs_grow :: "proto_state \<Rightarrow> proto_state \<Rightarrow> bool" where
  "recs_grow st st' \<longleftrightarrow> (\<forall>i rq. ps_requests st i = Some rq \<longrightarrow> (\<exists>rq'. ps_requests st' i = Some rq' \<and> evolves rq rq'))
     \<and> (all_answered st \<longrightarrow> all_answered st')"

lemma evolve_grow: "recs_evolve st st' \<Longrightarrow> recs_grow st st'"
  unfolding recs_evolve_def recs_grow_def all_answered_def
  by (metis evolves_def option.rel_cases option.distinct(1) option.inject)

lemma final_not_unsettled: "final_phase p \<Longrightarrow> \<not> unsettled p"
  by (cases p) simp_all

lemma unsettled_rank: "unsettled p \<Longrightarrow> rank p \<le> 1"
  by (cases p) simp_all

lemma evolves_refl [simp]: "evolves rq rq"
  by (simp add: evolves_def)

lemma evolves_trans: "evolves a b \<Longrightarrow> evolves b c \<Longrightarrow> evolves a c"
  unfolding evolves_def by (auto dest: le_trans)

lemma recs_refl [simp]: "recs_evolve st st"
  by (simp add: recs_evolve_def option.rel_refl)

lemma recs_trans: "recs_evolve a b \<Longrightarrow> recs_evolve b c \<Longrightarrow> recs_evolve a c"
  unfolding recs_evolve_def by (blast intro: option.rel_transp [unfolded transp_def, rule_format] evolves_trans)

lemma recs_same_requests: "ps_requests st' = ps_requests st \<Longrightarrow> recs_evolve st st'"
  by (simp add: recs_evolve_def option.rel_refl)

lemma recs_books: "same_books st st' \<Longrightarrow> recs_evolve st st'"
  by (simp add: same_books_def recs_same_requests)

lemma recs_update:
  "ps_requests st i = Some rq \<Longrightarrow> evolves rq rq' \<Longrightarrow> ps_requests st' = (ps_requests st)(i \<mapsto> rq') \<Longrightarrow> recs_evolve st st'"
  by (simp add: recs_evolve_def option.rel_refl)

lemma evolves_settle: "unsettled (rq_phase rq) \<Longrightarrow> 2 \<le> rank p \<Longrightarrow> evolves rq (rq\<lparr>rq_phase := p\<rparr>)"
  by (auto simp: evolves_def answered_def dest: final_not_unsettled unsettled_rank)

lemma recs_settle: "2 \<le> rank p \<Longrightarrow> recs_evolve st (settle i p st)"
  by (auto simp: settle_def set_phase_def intro!: recs_update [OF _ evolves_settle] split: option.split)

lemma recs_mark: "ps_requests st i = Some rq \<Longrightarrow> evolves rq rq' \<Longrightarrow> recs_evolve st (mark i rq' st)"
  by (rule recs_update) (simp_all add: mark_def)

lemma evolves_flags:
  "evolves rq (rq\<lparr>rq_received := True\<rparr>)" "evolves rq (rq\<lparr>rq_aborted := True\<rparr>)"
  by (auto simp: evolves_def answered_def)

lemma evolves_validating:
  "unsettled (rq_phase rq) \<Longrightarrow> rq_received rq \<Longrightarrow> evolves rq (rq\<lparr>rq_phase := Validating v\<rparr>)"
  by (auto simp: evolves_def answered_def dest: final_not_unsettled unsettled_rank)

lemma recs_drop [simp]:
  "recs_evolve st (dropProgress i st)" "recs_evolve st (cleanupTimeout i st)" "recs_evolve st (dropResponseHandler i st)"
  by (simp_all add: recs_same_requests)

lemma recs_respond: "recs_evolve st (handleResponse cfg i r st)"
proof (cases "ps_requests st i")
  case (Some rq)
  define rq' where "rq' = rq\<lparr>rq_received := True\<rparr>"
  have m: "recs_evolve st (mark i rq' st)" unfolding rq'_def by (rule recs_mark [OF Some evolves_flags(1)])
  have s: "2 \<le> rank p \<Longrightarrow> recs_evolve st (settle i p (mark i rq' st))" for p by (rule recs_trans [OF m recs_settle])
  have v: "unsettled (rq_phase rq) \<Longrightarrow> recs_evolve st (set_phase i (Validating w) (mark i rq' st))" for w
    by (rule recs_trans [OF m recs_update [of "mark i rq' st" i rq' "rq'\<lparr>rq_phase := Validating w\<rparr>"]])
      (auto simp: mark_def set_phase_def rq'_def intro!: evolves_validating)
  show ?thesis using Some m s v
    by (auto simp: handleResponse_def Let_def rq'_def mark_def [symmetric] split: sum.split decoded_result.split)
qed (simp add: handleResponse_def)

lemma recs_respond_dropped:
  "recs_evolve st (handleResponse cfg i r (dropProgress i (cleanupTimeout i (dropResponseHandler i st))))"
  by (rule recs_trans [OF _ recs_respond]) (simp add: recs_same_requests)

lemma recs_cancel: "recs_evolve st (fst (cancelOp cfg i reason st))"
  by (auto simp: cancelOp_def intro: recs_trans [OF _ recs_settle] split: option.split)

lemma recs_abort: "recs_evolve st (fst (signalAborted cfg i reason st))"
proof (cases "ps_requests st i")
  case (Some rq)
  have "recs_evolve st (mark i (rq\<lparr>rq_aborted := True\<rparr>) st)" by (rule recs_mark [OF Some evolves_flags(2)])
  then show ?thesis using Some recs_trans [OF _ recs_cancel]
    by (auto simp: signalAborted_def Let_def mark_def [symmetric])
qed (simp add: signalAborted_def)

lemma recs_progress: "recs_evolve st (fst (onprogress cfg n now st))"
  by (auto simp: onprogress_def Let_def resetTimeout_def recs_respond_dropped drop_commute
      intro: recs_same_requests split: option.split sum.split)

lemma recs_response: "recs_evolve st (fst (onresponse cfg msg st))"
  by (auto simp: onresponse_def Let_def recs_respond_dropped split: option.split)

lemma recs_notification: "recs_evolve st (fst (onnotification cfg valid msg cls now st))"
proof -
  have "recs_evolve st (fst (deliverNotification cfg valid n now st))" for n
    using recs_progress [of st cfg n now] recs_books [OF oncancel_same [of st n]]
    by (simp add: deliverNotification_def Let_def split: option.split)
  then show ?thesis by (simp add: onnotification_def Let_def)
qed

lemma recs_message: "recs_evolve st (fst (onmessage cfg valid msg cls now st))"
  using recs_response recs_notification recs_books [OF onrequest_same] by (simp add: onmessage_def)

lemma recs_fold_respond: "recs_evolve st (fold (\<lambda>i. handleResponse cfg i (Inl e)) is st)"
  by (induction "is" arbitrary: st) (auto intro: recs_trans [OF recs_respond])

lemma recs_close: "recs_evolve st (fst (oncloseOp cfg st))"
  unfolding onclose_eq fst_conv
  by (rule recs_trans [OF recs_trans [OF _ recs_fold_respond] recs_books [OF fold_abort_same]])
    (simp add: recs_same_requests torn_down_def)

lemma recs_validation: "recs_evolve st (validationDone i verdict st)"
  by (auto simp: validationDone_def recs_settle split: option.split phase.split sum.split)

lemma recs_delegation: "recs_evolve st (delegationDone i out st)"
proof (cases "ps_requests st i")
  case (Some rq)
  have "rq_phase rq = Delegated \<Longrightarrow> final_phase p \<Longrightarrow> recs_evolve st (set_phase i p st)" for p
    by (rule recs_update [OF Some, of "rq\<lparr>rq_phase := p\<rparr>"])
      (cases p; simp add: Some set_phase_def evolves_def answered_def)+
  then show ?thesis using Some by (auto simp: delegationDone_def split: sum.split)
qed (simp add: delegationDone_def)

lemma request_keeps_others:
  "requestOp cfg ex m params opts now st = (r, st', eff) \<Longrightarrow> i \<noteq> ps_requestMessageId st
     \<Longrightarrow> ps_requests st' i = ps_requests st i"
  by (auto simp: requestOp_def requestViaCodec_def Let_def split: option.splits if_splits)

lemma request_answered:
  "requestOp cfg ex m params opts now st = (r, st', eff) \<Longrightarrow> all_answered st \<Longrightarrow> all_answered st'"
  by (auto simp: requestOp_def requestViaCodec_def Let_def answered_def all_answered_def split: option.splits if_splits)

lemma recs_request:
  assumes "proto_inv st" and "requestOp cfg ex m params opts now st = (r, st', eff)"
  shows "recs_grow st st'"
proof -
  have "ps_requests st i = Some rq \<Longrightarrow> i \<noteq> ps_requestMessageId st" for i rq
    using assms(1) by (auto simp: proto_inv_def ids_ok_def)
  then show ?thesis using request_keeps_others [OF assms(2)] request_answered [OF assms(2)] by (simp add: recs_grow_def)
qed

lemma recs_step: "pstep cfg st eff st' \<Longrightarrow> proto_inv st \<Longrightarrow> recs_grow st st'"
proof (induction rule: pstep.induct)
  case ev_request
  then show ?case by (blast intro: recs_request)
next
  case (ev_message valid msg cls now st st' eff)
  then show ?case using evolve_grow [OF recs_message, of st cfg valid msg cls now] by simp
next
  case (ev_timeout st i info now st' eff)
  then show ?case using evolve_grow [OF recs_cancel, of st cfg i] by (simp add: timeoutFired_def) (metis fst_conv)
next
  case (ev_abort i reason st st' eff)
  then show ?case using evolve_grow [OF recs_abort, of st cfg i reason] by simp
next
  case (ev_sendFailed i e st)
  then show ?case unfolding sendFailed_def by (intro evolve_grow recs_trans [OF _ recs_settle]) simp_all
next
  case (ev_tick st st' eff)
  then show ?case using evolve_grow [OF recs_books, OF tick_same [of st]] by simp
next
  case (ev_handler n result st st' eff)
  then show ?case using evolve_grow [OF recs_books, OF handlerDone_same [of st cfg n result]] by simp
next
  case (ev_close st st' eff)
  then show ?case using evolve_grow [OF recs_close, of st cfg] by simp
qed (auto intro: evolve_grow recs_books register_same notify_same recs_validation recs_delegation)

lemma reachable_answered: "reachable cfg st \<Longrightarrow> all_answered st"
proof (induction rule: reachable.induct)
  case start
  show ?case by (simp add: all_answered_def initial_state_def)
next
  case (step st eff st')
  then show ?case using recs_step [OF step(2) reachable_inv [OF step(1)]] by (simp add: recs_grow_def)
qed

text \<open>
  C2: a request moves forward only. Whatever happens (late responses, timeouts, aborts, send
  failures, close), its record is never lost, its method, era and cancellation mode are
  fixed, its flags are never cleared, its phase only advances, and a resolved or rejected
  request keeps its outcome.
\<close>

theorem requests_move_forward:
  assumes "reachable cfg st" and "pstep cfg st eff st'" and "ps_requests st i = Some rq"
  shows "\<exists>rq'. ps_requests st' i = Some rq' \<and> evolves rq rq'"
  using recs_step [OF assms(2) reachable_inv [OF assms(1)]] assms(3) by (simp add: recs_grow_def)

definition demo_settled :: proto_state where
  "demo_settled = sendFailed 0 (PlainErr ''down'') demo_state"

lemma demo_settled_record: "ps_requests demo_settled 0 = Some (demo_record\<lparr>rq_phase := Rejected (PlainErr ''down'')\<rparr>)"
  using demo_request_record by (simp add: demo_settled_def sendFailed_def settle_def set_phase_def demo_record_def)

theorem requests_move_forward_witness:
  "\<exists>rq'. ps_requests (fst (oncloseOp demo_config demo_settled)) 0 = Some rq' \<and> rq_phase rq' = Rejected (PlainErr ''down'')"
  using requests_move_forward [OF reachable.step [OF demo_reachable ev_sendFailed, of 0 "PlainErr ''down''", folded demo_settled_def]
      ev_close [OF prod.collapse [symmetric]] demo_settled_record] by (auto simp: evolves_def)

end
