(* ===== verification/ProtocolLifecycle.thy ===== *)
theory ProtocolLifecycle
  imports ProtocolProperties
begin

text \<open>
  Teardown, cancellation, matching of responses and progress in the reachable states of a
  protocol instance: what each of these events does to the pending request it names and to
  the wire, and that it leaves every other request alone.
\<close>

lemma reachable_books: "reachable cfg st \<Longrightarrow> books_ok {} st"
  by (drule reachable_inv) (simp add: books_inv)

text \<open>A waiting request: its flags are clear and the instance is connected.\<close>

lemma waiting_facts:
  assumes "reachable cfg st" and "ps_requests st i = Some rq" and "rq_phase rq = Waiting"
  shows "\<not> rq_received rq \<and> \<not> rq_aborted rq \<and> i \<in> set (ps_responseHandlers st) \<and> ps_transport st \<noteq> None"
  using reachable_books [OF assms(1)] assms(2,3) by (auto simp: books_ok_def flags_ok_def maps_ok_def waiting_def)

text \<open>A request that has a response handler.\<close>

lemma handler_facts:
  assumes "reachable cfg st" and "i \<in> set (ps_responseHandlers st)"
  obtains rq where "ps_requests st i = Some rq" "rq_phase rq = Waiting" "\<not> rq_received rq" "\<not> rq_aborted rq"
  using reachable_books [OF assms(1)] assms(2) by (auto simp: books_ok_def flags_ok_def maps_ok_def waiting_def)

subsection \<open>Teardown\<close>

lemma settle_other: "j \<noteq> i \<Longrightarrow> ps_requests (settle i p st) j = ps_requests st j"
  by (auto simp: settle_def set_phase_def split: option.split)

lemma settle_own: "ps_requests st i = Some rq \<Longrightarrow> unsettled (rq_phase rq)
    \<Longrightarrow> ps_requests (settle i p st) i = Some (rq\<lparr>rq_phase := p\<rparr>)"
  by (auto simp: settle_def set_phase_def)

lemma respond_other: "j \<noteq> i \<Longrightarrow> ps_requests (handleResponse cfg i r st) j = ps_requests st j"
  by (auto simp: handleResponse_def Let_def settle_other set_phase_def split: option.split sum.split decoded_result.split)

lemma respond_error: "ps_requests st i = Some rq \<Longrightarrow> rq_phase rq = Waiting \<Longrightarrow> \<not> rq_aborted rq
    \<Longrightarrow> ps_requests (handleResponse cfg i (Inl e) st) i = Some (rq\<lparr>rq_received := True, rq_phase := Rejected e\<rparr>)"
  by (auto simp: handleResponse_def Let_def settle_def set_phase_def)

lemma fold_respond_other: "j \<notin> set is \<Longrightarrow> ps_requests (fold (\<lambda>i. handleResponse cfg i (Inl e)) is st) j = ps_requests st j"
  by (induction "is" arbitrary: st) (simp_all add: respond_other)

lemma fold_respond_own:
  "distinct is \<Longrightarrow> j \<in> set is \<Longrightarrow> ps_requests st j = Some rq \<Longrightarrow> rq_phase rq = Waiting \<Longrightarrow> \<not> rq_aborted rq
     \<Longrightarrow> ps_requests (fold (\<lambda>i. handleResponse cfg i (Inl e)) is st) j = Some (rq\<lparr>rq_received := True, rq_phase := Rejected e\<rparr>)"
proof (induction "is" arbitrary: st)
  case (Cons i "is")
  then show ?case
    by (cases "j = i") (auto simp: respond_other respond_error fold_respond_other)
qed simp

lemma fold_respond_transport: "ps_transport (fold (\<lambda>i. handleResponse cfg i (Inl e)) is s) = ps_transport s"
  by (induction "is" arbitrary: s) (simp_all add: handleResponse_fields)

lemma fold_abort_transport: "ps_transport (fold (\<lambda>e. abortTask (snd e)) es s) = ps_transport s"
  by (induction es arbitrary: s) (auto simp: abortTask_def split: option.split)

lemma close_requests:
  "ps_requests (fst (oncloseOp cfg st)) = ps_requests (fold (\<lambda>i. handleResponse cfg i (Inl connectionClosed)) (ps_responseHandlers st) (torn_down st))"
  unfolding onclose_eq fst_conv by (simp add: fold_abort_same [unfolded same_books_def])

text \<open>
  C3: closing settles every request in flight. After the transport closes, each request
  that was waiting is rejected with \<open>ConnectionClosed\<close>, every other request keeps its
  record, and the instance holds no handler, progress callback, timer or transport.
\<close>

theorem close_settles_everything:
  assumes "reachable cfg st" and "ps_requests st i = Some rq"
  shows "(\<exists>rq'. ps_requests (fst (oncloseOp cfg st)) i = Some rq'
        \<and> rq_phase rq' = (if rq_phase rq = Waiting then Rejected connectionClosed else rq_phase rq))
    \<and> waiting (fst (oncloseOp cfg st)) = {} \<and> ps_responseHandlers (fst (oncloseOp cfg st)) = []
    \<and> ps_progressHandlers (fst (oncloseOp cfg st)) = [] \<and> ps_timeoutInfo (fst (oncloseOp cfg st)) = []
    \<and> ps_transport (fst (oncloseOp cfg st)) = None"
proof -
  let ?st = "fst (oncloseOp cfg st)"
  have b: "books_ok {} st" using assms(1) by (rule reachable_books)
  have t: "ps_requests (torn_down st) = ps_requests st" by (simp add: torn_down_def)
  have own: "\<exists>rq'. ps_requests ?st i = Some rq' \<and> rq_phase rq' = (if rq_phase rq = Waiting then Rejected connectionClosed else rq_phase rq)"
  proof (cases "i \<in> set (ps_responseHandlers st)")
    case True
    then have "rq_phase rq = Waiting" "\<not> rq_aborted rq" "distinct (ps_responseHandlers st)"
      using b assms(2) by (auto simp: books_ok_def maps_ok_def flags_ok_def waiting_def)
    then show ?thesis unfolding close_requests
      using fold_respond_own [OF _ True, of "torn_down st" rq cfg connectionClosed] assms(2) t by simp
  next
    case False
    then have "rq_phase rq \<noteq> Waiting" using b assms(2) by (auto simp: books_ok_def maps_ok_def waiting_def)
    then show ?thesis unfolding close_requests using fold_respond_other [OF False, of cfg connectionClosed] assms(2) t by simp
  qed
  have b': "books_ok {} ?st" using b by (rule close_books)
  have n: "ps_transport ?st = None" unfolding onclose_eq fst_conv
    by (simp add: fold_abort_transport fold_respond_transport torn_down_def)
  then have h: "ps_responseHandlers ?st = []" using b' by (auto simp: books_ok_def maps_ok_def)
  then have w: "waiting ?st = {}" "timers ?st = {}" "ps_progressHandlers ?st = []"
    using b' by (auto simp: books_ok_def maps_ok_def)
  then have "ps_timeoutInfo ?st = []" by (simp add: timers_def)
  with own n h w show ?thesis by blast
qed

theorem close_settles_everything_witness:
  "\<exists>rq'. ps_requests (fst (oncloseOp demo_config demo_state)) 0 = Some rq' \<and> rq_phase rq' = Rejected connectionClosed"
  using close_settles_everything [OF demo_reachable demo_request_record] by (simp add: demo_record_def)

subsection \<open>Cancellation\<close>

text \<open>What cancelling a waiting request puts on the wire.\<close>

definition cancellationEffects :: "proto_config \<Rightarrow> proto_state \<Rightarrow> nat \<Rightarrow> request_rec \<Rightarrow> abort_reason \<Rightarrow> effect list" where
  "cancellationEffects cfg st i rq reason =
     (if rq_streamCloseCancels rq then [AbortStream i]
      else if rq_method rq = ''initialize'' then []
      else sendTo (capturedTransport st)
        (envelopeOutbound (pc_metaEnvelope cfg (ps_negotiated st)) (cancelledNotification i (reasonText reason))))"

lemma cancel_waiting:
  assumes "ps_requests st i = Some rq" and "rq_phase rq = Waiting" and "\<not> rq_received rq"
  shows "snd (cancelOp cfg i reason st) = cancellationEffects cfg st i rq reason
    \<and> ps_requests (fst (cancelOp cfg i reason st)) i = Some (rq\<lparr>rq_phase := Rejected (reasonError reason)\<rparr>)"
  using assms by (auto simp: cancelOp_def cancellationEffects_def sendTo_def capturedTransport_def settle_own
      split: option.split)

definition timeoutReason :: "timeout_info \<Rightarrow> abort_reason" where
  "timeoutReason info =
     ReasonErr (SdkError RequestTimeout ''Request timed out'' (JObj [(''timeout'', JNum (NInt (ti_timeout info)))]))"

text \<open>
  an aborted or timed-out request is cancelled on the wire only while it waits. Aborting
  a request that is no longer waiting sends nothing and changes no outcome. For a waiting one
  the promise rejects with the wrapped reason and exactly one of three things happens: its
  own stream is closed, nothing is sent because it is \<open>initialize\<close>, or one
  \<open>notifications/cancelled\<close> naming its id is sent. A timer that fires does the same with its
  own reason, and only waiting requests have one.
\<close>

theorem abort_cancels_waiting_only:
  assumes "reachable cfg st" and "ps_requests st i = Some rq"
  shows "snd (signalAborted cfg i reason st) = (if rq_phase rq = Waiting then cancellationEffects cfg st i rq reason else [])
    \<and> (\<exists>rq'. ps_requests (fst (signalAborted cfg i reason st)) i = Some rq'
         \<and> rq_phase rq' = (if rq_phase rq = Waiting then Rejected (reasonError reason) else rq_phase rq))
    \<and> (case map_of (ps_timeoutInfo st) i of
        None \<Rightarrow> rq_phase rq \<noteq> Waiting \<and> timeoutFired cfg i st = (st, [])
      | Some info \<Rightarrow> snd (timeoutFired cfg i st) = cancellationEffects cfg st i rq (timeoutReason info)
          \<and> (\<exists>rq'. ps_requests (fst (timeoutFired cfg i st)) i = Some rq'
               \<and> rq_phase rq' = Rejected (reasonError (timeoutReason info))))"
proof -
  have b: "books_ok {} st" using assms(1) by (rule reachable_books)
  have timer: "map_of (ps_timeoutInfo st) i \<noteq> None \<longleftrightarrow> rq_phase rq = Waiting"
  proof -
    have "map_of (ps_timeoutInfo st) i \<noteq> None \<longleftrightarrow> i \<in> timers st" by (simp add: timers_def map_of_eq_None_iff)
    also have "\<dots> \<longleftrightarrow> i \<in> waiting st" using b by (simp add: books_ok_def maps_ok_def)
    finally show ?thesis using assms(2) by (simp add: waiting_def)
  qed
  show ?thesis
  proof (cases "rq_phase rq = Waiting")
    case True
    note f = waiting_facts [OF assms True]
    let ?rq = "rq\<lparr>rq_aborted := True\<rparr>" and ?st = "mark i (rq\<lparr>rq_aborted := True\<rparr>) st"
    have "cancellationEffects cfg ?st i ?rq reason = cancellationEffects cfg st i rq reason"
      by (simp add: cancellationEffects_def capturedTransport_def mark_def)
    moreover obtain info where i: "map_of (ps_timeoutInfo st) i = Some info" using timer True by auto
    moreover have "timeoutFired cfg i st = cancelOp cfg i (timeoutReason info) st"
      using i by (simp add: timeoutFired_def timeoutReason_def)
    ultimately show ?thesis using cancel_waiting [of ?st i ?rq cfg reason] cancel_waiting [of st i rq cfg] f True assms(2)
      by (simp add: signalAborted_def Let_def mark_def)
  next
    case False
    have "rq_phase rq = Validating v \<Longrightarrow> rq_received rq" for v
      using reachable_answered [OF assms(1)] assms(2) by (auto simp: all_answered_def answered_def)
    then show ?thesis using False assms(2) timer
      by (cases "rq_phase rq") (auto simp: signalAborted_def cancelOp_def timeoutFired_def Let_def)
  qed
qed

theorem abort_cancels_waiting_only_witness:
  "sentOf (snd (signalAborted demo_config 0 (ReasonVal (JStr ''stop'')) demo_state)) = [(0, cancelledNotification 0 ''stop'')]"
proof -
  have "ps_transport demo_state = Some (0, False)"
    by (rule demo_transport)
  then show ?thesis
    using abort_cancels_waiting_only [OF demo_reachable demo_request_record, of "ReasonVal (JStr ''stop'')"]
    by (simp add: demo_record_def cancellationEffects_def sendTo_def capturedTransport_def reasonText_def
        demo_config_def envelopeOutbound_def)
qed

subsection \<open>Responses\<close>

text \<open>What a response may do to the request it names.\<close>

definition responseError :: "js \<Rightarrow> err" where
  "responseError response =
     (let e = getp response ''error'' in
      ProtocolErr (fromError (case getp e ''code'' of JNum (NInt c) \<Rightarrow> c | _ \<Rightarrow> 0)
        (or_else (str_of (getp e ''message'')) []) (getp e ''data'')))"

definition phaseAfterResponse :: "proto_config \<Rightarrow> request_rec \<Rightarrow> js \<Rightarrow> phase" where
  "phaseAfterResponse cfg rq response =
     (if isJSONRPCResultResponse response then
        (case decodeResult (rq_codec rq) (pc_wireParse cfg) (pc_metaParse cfg) (rq_method rq) (getp response ''result'') of
           InvalidResultErr e \<Rightarrow> Rejected e
         | InputRequired reqs rs meta \<Rightarrow>
             if rq_allowInputRequired rq then Resolved (manualInputRequiredValue reqs rs meta) else Delegated
         | Complete v \<Rightarrow> Validating v)
      else Rejected (responseError response))"

lemma respond_fields:
  "ps_responseHandlers (handleResponse cfg i r st) = ps_responseHandlers st
     \<or> ps_responseHandlers (handleResponse cfg i r st) = removeAll i (ps_responseHandlers st)"
  by (auto simp: handleResponse_def settle_def set_phase_def Let_def split: option.split sum.split decoded_result.split)

lemma respond_phase:
  assumes "ps_requests st i = Some rq" and "rq_phase rq = Waiting" and "\<not> rq_aborted rq"
  shows "\<exists>rq'. ps_requests (handleResponse cfg i
            (if isJSONRPCResultResponse response then Inr (getp response ''result'') else Inl (responseError response)) st) i = Some rq'
          \<and> rq_phase rq' = phaseAfterResponse cfg rq response"
  using assms
  by (auto simp: handleResponse_def phaseAfterResponse_def settle_def set_phase_def Let_def split: decoded_result.split)

lemma onresponse_matched:
  "messageIdOf (getp response ''id'') = Some i \<Longrightarrow> i \<in> set (ps_responseHandlers st) \<Longrightarrow>
     onresponse cfg response st = (handleResponse cfg i
       (if isJSONRPCResultResponse response then Inr (getp response ''result'') else Inl (responseError response))
       (dropProgress i (cleanupTimeout i (dropResponseHandler i st))), [])"
  by (simp add: onresponse_def responseError_def Let_def)

text \<open>
  C4: a response settles exactly the request it names. A response whose id names no request
  in flight changes nothing and is reported once. Otherwise the named request, and no other,
  leaves the waiting state for the phase its decoded body determines, and its handler, timer
  and progress callback are gone; nothing is sent.
\<close>

theorem response_settles_its_request:
  assumes "reachable cfg st"
  shows "(case messageIdOf (getp response ''id'') of
      None \<Rightarrow> fst (onresponse cfg response st) = st \<and> length (snd (onresponse cfg response st)) = 1
    | Some i \<Rightarrow>
        if i \<notin> waiting st then fst (onresponse cfg response st) = st \<and> length (snd (onresponse cfg response st)) = 1
        else snd (onresponse cfg response st) = []
          \<and> (\<exists>rq'. ps_requests (fst (onresponse cfg response st)) i = Some rq'
               \<and> rq_phase rq' = phaseAfterResponse cfg (the (ps_requests st i)) response)
          \<and> (\<forall>j. j \<noteq> i \<longrightarrow> ps_requests (fst (onresponse cfg response st)) j = ps_requests st j)
          \<and> set (ps_responseHandlers (fst (onresponse cfg response st))) = set (ps_responseHandlers st) - {i})"
proof (cases "messageIdOf (getp response ''id'')")
  case None
  then show ?thesis by (simp add: onresponse_def)
next
  case (Some i)
  have w: "i \<in> waiting st \<longleftrightarrow> i \<in> set (ps_responseHandlers st)"
    using reachable_books [OF assms] by (simp add: books_ok_def maps_ok_def)
  show ?thesis
  proof (cases "i \<in> waiting st")
    case False
    then show ?thesis using Some w by (simp add: onresponse_def)
  next
    case True
    then obtain rq where rq: "ps_requests st i = Some rq" "rq_phase rq = Waiting" "\<not> rq_aborted rq"
      using w by (blast elim: handler_facts [OF assms])
    let ?st = "dropProgress i (cleanupTimeout i (dropResponseHandler i st))"
    have "ps_requests ?st i = Some rq" using rq(1) by simp
    note p = respond_phase [OF this rq(2,3), of cfg response]
    have h: "set (ps_responseHandlers (handleResponse cfg i r ?st)) = set (ps_responseHandlers st) - {i}" for r
      using respond_fields [of cfg i r ?st] by auto
    have o: "j \<noteq> i \<Longrightarrow> ps_requests (handleResponse cfg i r ?st) j = ps_requests st j" for j r
      using respond_other [of j i cfg r ?st] by simp
    show ?thesis using Some True w p h o rq(1) by (simp add: onresponse_matched)
  qed
qed

definition demo_refusal :: js where
  "demo_refusal = JObj [(''jsonrpc'', JStr ''2.0''), (''id'', JNum (NInt 0)),
     (''error'', JObj [(''code'', JNum (NInt (- 32601))), (''message'', JStr ''no'')])]"

theorem response_settles_its_request_witness:
  "\<exists>rq'. ps_requests (fst (onresponse demo_config demo_refusal demo_state)) 0 = Some rq'
     \<and> rq_phase rq' = Rejected (ProtocolErr (fromError (- 32601) ''no'' JUndef))"
proof -
  have w: "0 \<in> waiting demo_state" using demo_request_record by (simp add: waiting_def demo_record_def)
  have i: "messageIdOf (getp demo_refusal ''id'') = Some 0" by (simp add: demo_refusal_def messageIdOf_def)
  have r: "\<not> isJSONRPCResultResponse demo_refusal"
    by (simp add: isJSONRPCResultResponse_def demo_refusal_def resultOk_def)
  have "phaseAfterResponse demo_config (the (ps_requests demo_state 0)) demo_refusal
      = Rejected (ProtocolErr (fromError (- 32601) ''no'' JUndef))"
    using r by (simp add: phaseAfterResponse_def responseError_def demo_refusal_def)
  then show ?thesis using response_settles_its_request [OF demo_reachable, of demo_refusal] w i by simp
qed

subsection \<open>A new request\<close>

text \<open>
  a request that is sent is tracked. When \<open>request\<close> succeeds, it has taken an id no
  earlier request has, sent exactly one message carrying that id, and armed a timer that
  fires at \<open>now + timeout\<close> (60 seconds when no timeout is given) whatever the total cap is.
\<close>

theorem request_is_tracked:
  assumes "reachable cfg st" and "requestOp cfg explicit m params opts now st = (Inr i, st', eff)"
  shows "ps_requests st i = None \<and> i \<notin> set (ps_responseHandlers st) \<and> i \<in> waiting st'
    \<and> (\<exists>t msg. eff = [SendMsg t (envelopeOutbound (pc_metaEnvelope cfg (ps_negotiated st)) msg)]
         \<and> getp msg ''id'' = JNum (NInt (int i)) \<and> getp msg ''method'' = JStr m)
    \<and> (\<exists>info. map_of (ps_timeoutInfo st') i = Some info
         \<and> ti_fireAt info = now + or_else (op_timeout opts) 60000 \<and> ti_maxTotalTimeout info = op_maxTotalTimeout opts)"
proof -
  have "\<exists>t s. ps_transport st = Some (t, s) \<and> requestViaCodec cfg (resolveOutboundCodec st m) m params opts now st = (Inr i, st', eff)"
    using assms(2) by (cases "ps_transport st") (auto simp: requestOp_def requestViaCodec_def Let_def split: option.splits if_splits)
  then obtain t s where r: "requestViaCodec cfg (resolveOutboundCodec st m) m params opts now st = (Inr i, st', eff)"
    and t: "ps_transport st = Some (t, s)" by blast
  have i: "i = ps_requestMessageId st" and e: "eff = [SendMsg t (envelopeOutbound (pc_metaEnvelope cfg (ps_negotiated st))
        (jsonrpcRequest m params i (op_onprogress opts)))]"
    and q: "\<exists>rq. ps_requests st' = (ps_requests st)(i \<mapsto> rq) \<and> rq_phase rq = Waiting"
    and f: "\<exists>info. ps_timeoutInfo st' = ps_timeoutInfo st @ [(i, info)] \<and> ti_fireAt info = now + or_else (op_timeout opts) 60000
         \<and> ti_maxTotalTimeout info = op_maxTotalTimeout opts"
    using r t by (auto simp: requestViaCodec_def Let_def DEFAULT_REQUEST_TIMEOUT_MSEC_def split: option.splits if_splits)
  have b: "books_ok {} st" using assms(1) by (rule reachable_books)
  have fresh: "ps_requests st i = None" using b i by (auto simp: books_ok_def ids_ok_def)
  then have h: "i \<notin> set (ps_responseHandlers st)" "map_of (ps_timeoutInfo st) i = None"
    using b by (auto simp: books_ok_def maps_ok_def waiting_def timers_def map_of_eq_None_iff)
  have m: "getp (jsonrpcRequest m params i p) ''id'' = JNum (NInt (int i))" "getp (jsonrpcRequest m params i p) ''method'' = JStr m" for p
    by (simp_all add: jsonrpcRequest_def Let_def)
  show ?thesis using e q f fresh h m by (auto simp: waiting_def map_add_def)
qed

definition capped_options :: request_options where
  "capped_options = \<lparr>op_onprogress = True, op_timeout = None, op_maxTotalTimeout = Some 10000,
     op_resetTimeoutOnProgress = True, op_allowInputRequired = False, op_aborted = None\<rparr>"

text \<open>With a total cap of ten seconds the timer still fires after sixty.\<close>

definition capped_state :: proto_state where
  "capped_state = fst (snd (requestOp demo_config False ''tools/list'' JUndef capped_options 0 (connectOp 0 False initial_state)))"

definition capped_info :: timeout_info where
  "capped_info = \<lparr>ti_fireAt = 60000, ti_startTime = 0, ti_timeout = 60000, ti_maxTotalTimeout = Some 10000,
     ti_resetTimeoutOnProgress = True\<rparr>"

lemma capped_run:
  "\<exists>eff. requestOp demo_config False ''tools/list'' JUndef capped_options 0 (connectOp 0 False initial_state)
      = (Inr 0, capped_state, eff)"
  "map_of (ps_timeoutInfo capped_state) 0 = Some capped_info" "0 \<in> set (ps_progressHandlers capped_state)"
proof -
  have a: "assertOutboundRequestInEra Rev2025 ''tools/list'' = None"
    by (simp add: assertOutboundRequestInEra_def hasRequestMethod_def requestMethodKeys2025_def)
  have h: "hasResultMethod Rev2025 ''tools/list''" by (simp add: hasResultMethod_def resultMethodKeys2025_def)
  note defs = requestViaCodec_def capped_options_def capped_info_def DEFAULT_REQUEST_TIMEOUT_MSEC_def
    demo_config_def connectOp_def initial_state_def
  show "\<exists>eff. requestOp demo_config False ''tools/list'' JUndef capped_options 0 (connectOp 0 False initial_state)
      = (Inr 0, capped_state, eff)"
    unfolding capped_state_def requestOp_def demo_codec using a h by (simp add: defs)
  show "map_of (ps_timeoutInfo capped_state) 0 = Some capped_info" "0 \<in> set (ps_progressHandlers capped_state)"
    unfolding capped_state_def requestOp_def demo_codec using a h by (simp_all add: defs)
qed

lemma connected_reachable: "reachable cfg (connectOp t stream initial_state)"
  by (rule reachable.step [OF reachable.start ev_connect])

lemma capped_reachable: "reachable demo_config capped_state"
  using capped_run(1) reachable.step [OF connected_reachable ev_request] by blast

text \<open>With a total cap of ten seconds the timer still fires after sixty.\<close>

theorem request_is_tracked_witness:
  "\<exists>info. map_of (ps_timeoutInfo capped_state) 0 = Some info
     \<and> ti_fireAt info = 60000 \<and> ti_maxTotalTimeout info = Some 10000"
proof -
  obtain eff where "requestOp demo_config False ''tools/list'' JUndef capped_options 0 (connectOp 0 False initial_state)
      = (Inr 0, capped_state, eff)" using capped_run(1) by blast
  from request_is_tracked [OF connected_reachable this] show ?thesis by (simp add: capped_options_def)
qed

subsection \<open>Progress\<close>

definition progressContinues :: "js \<Rightarrow> nat \<Rightarrow> timeout_info \<Rightarrow> int \<Rightarrow> proto_state \<Rightarrow> proto_state \<times> effect list \<Rightarrow> bool" where
  "progressContinues n i info now st out \<longleftrightarrow>
     (\<exists>rest. snd out = [CallProgress i rest] \<and> getp rest ''progressToken'' = JUndef)
     \<and> ps_requests (fst out) = ps_requests st \<and> ps_responseHandlers (fst out) = ps_responseHandlers st
     \<and> map_of (ps_timeoutInfo (fst out)) i =
         Some (if ti_resetTimeoutOnProgress info then info\<lparr>ti_fireAt := now + ti_timeout info\<rparr> else info)"

definition capReached :: "timeout_info \<Rightarrow> int \<Rightarrow> bool" where
  "capReached info now \<longleftrightarrow>
     (case ti_maxTotalTimeout info of None \<Rightarrow> False | Some cap \<Rightarrow> cap \<noteq> 0 \<and> cap \<le> now - ti_startTime info)"

text \<open>
  progress re-arms the timer or ends the request. Without \<open>resetTimeoutOnProgress\<close> a
  progress notification only calls the callback. With it, the timer is set to
  \<open>now + timeout\<close> and the callback called, unless the total cap is reached: then the request is
  rejected with the elapsed time, its handlers are gone, no callback is made and nothing is sent.
\<close>

theorem progress_rearms_or_ends:
  assumes "reachable cfg st" and "messageIdOf (getp (getp n ''params'') ''progressToken'') = Some i"
    and "i \<in> set (ps_progressHandlers st)" and "map_of (ps_timeoutInfo st) i = Some info"
  shows "if ti_resetTimeoutOnProgress info \<and> capReached info now
     then snd (onprogress cfg n now st) = [] \<and> i \<notin> set (ps_responseHandlers (fst (onprogress cfg n now st)))
       \<and> (\<exists>rq'. ps_requests (fst (onprogress cfg n now st)) i = Some rq'
            \<and> rq_phase rq' = Rejected (budgetExceeded (the (ti_maxTotalTimeout info)) (now - ti_startTime info)))
     else progressContinues n i info now st (onprogress cfg n now st)"
proof -
  let ?params = "params_obj (getp n ''params'')"
  have h: "i \<in> set (ps_responseHandlers st)"
    using reachable_books [OF assms(1)] assms(3) by (auto simp: books_ok_def maps_ok_def)
  obtain rq where rq: "ps_requests st i = Some rq" "rq_phase rq = Waiting" "\<not> rq_aborted rq"
    using handler_facts [OF assms(1) h] by blast
  have "getp (getp n ''params'') ''progressToken'' = oget ?params ''progressToken''"
    by (cases "getp n ''params''") (simp_all add: params_obj_def)
  then have tok: "messageIdOf (oget ?params ''progressToken'') = Some i" using assms(2) by simp
  let ?dropped = "dropProgress i (cleanupTimeout i (dropResponseHandler i st))"
  have drop: "cleanupTimeout i (dropProgress i (dropResponseHandler i st)) = ?dropped" by (rule drop_commute)
  have ended: "ps_requests (handleResponse cfg i (Inl e) ?dropped) i = Some (rq\<lparr>rq_received := True, rq_phase := Rejected e\<rparr>)"
    "i \<notin> set (ps_responseHandlers (handleResponse cfg i (Inl e) ?dropped))" for e
    using respond_error [of ?dropped i rq cfg e] respond_fields [of cfg i "Inl e" ?dropped] rq by auto
  show ?thesis
  proof (cases "ti_resetTimeoutOnProgress info \<and> capReached info now")
    case True
    then have "onprogress cfg n now st
        = (handleResponse cfg i (Inl (budgetExceeded (the (ti_maxTotalTimeout info)) (now - ti_startTime info))) ?dropped, [])"
      using assms(3,4) h tok
      by (auto simp: onprogress_def resetTimeout_def capReached_def drop Let_def split: option.splits)
    then show ?thesis using True ended by simp
  next
    case False
    then show ?thesis using assms(3,4) h tok
      by (auto simp: onprogress_def resetTimeout_def capReached_def progressContinues_def Let_def
          AList.update_conv' split: option.splits)
  qed
qed

definition demo_progress :: js where
  "demo_progress = JObj [(''jsonrpc'', JStr ''2.0''), (''method'', JStr ''notifications/progress''),
     (''params'', JObj [(''progressToken'', JNum (NInt 0)), (''progress'', JNum (NInt 1))])]"

theorem progress_rearms_or_ends_witness:
  "map_of (ps_timeoutInfo (fst (onprogress demo_config demo_progress 5000 capped_state))) 0
     = Some (capped_info\<lparr>ti_fireAt := 65000\<rparr>)
   \<and> snd (onprogress demo_config demo_progress 20000 capped_state) = []"
proof -
  have t: "messageIdOf (getp (getp demo_progress ''params'') ''progressToken'') = Some 0"
    by (simp add: demo_progress_def messageIdOf_def)
  note w = progress_rearms_or_ends [OF capped_reachable t capped_run(3) capped_run(2)]
  show ?thesis using w [of 5000] w [of 20000]
    by (simp add: capped_info_def capReached_def progressContinues_def)
qed

end
