(* ===== verification/ProtocolTasks.thy ===== *)
theory ProtocolTasks
  imports ProtocolLifecycle
begin

text \<open>
  The inbound side over whole runs: every request handler that was started answers at most
  once, a cancelled or torn-down one never, and debounced notifications are coalesced
  without being lost.
\<close>

subsection \<open>Runs\<close>

inductive later :: "proto_config \<Rightarrow> proto_state \<Rightarrow> proto_state \<Rightarrow> bool" for cfg where
  now: "later cfg st st"
| more: "later cfg st st' \<Longrightarrow> pstep cfg st' eff st'' \<Longrightarrow> later cfg st st''"

lemma later_reachable: "later cfg st st' \<Longrightarrow> reachable cfg st \<Longrightarrow> reachable cfg st'"
  by (induction rule: later.induct) (auto intro: reachable.step)

subsection \<open>How a task may change\<close>

definition task_evolves :: "inbound_task \<Rightarrow> inbound_task \<Rightarrow> bool" where
  "task_evolves tk tk' \<longleftrightarrow> tk_id tk' = tk_id tk \<and> tk_transport tk' = tk_transport tk \<and> tk_codec tk' = tk_codec tk
     \<and> (tk_done tk \<longrightarrow> tk_done tk') \<and> (tk_aborted tk \<longrightarrow> tk_aborted tk')"

definition tasks_evolve :: "proto_state \<Rightarrow> proto_state \<Rightarrow> bool" where
  "tasks_evolve st st' \<longleftrightarrow> (\<forall>n. rel_option task_evolves (ps_tasks st n) (ps_tasks st' n)) \<and> ps_nextTask st' = ps_nextTask st
     \<and> set (ps_abortControllers st') \<subseteq> set (ps_abortControllers st)"

definition task_ids_ok :: "proto_state \<Rightarrow> bool" where
  "task_ids_ok st \<longleftrightarrow> (\<forall>n. ps_tasks st n \<noteq> None \<longrightarrow> n < ps_nextTask st)"

text \<open>The controllers name tasks that were started.\<close>

definition controllers_ok :: "proto_state \<Rightarrow> bool" where
  "controllers_ok st \<longleftrightarrow> (\<forall>e \<in> set (ps_abortControllers st). ps_tasks st (snd e) \<noteq> None)"

definition tasks_grow :: "proto_state \<Rightarrow> proto_state \<Rightarrow> bool" where
  "tasks_grow st st' \<longleftrightarrow> (\<forall>n tk. ps_tasks st n = Some tk \<longrightarrow> (\<exists>tk'. ps_tasks st' n = Some tk' \<and> task_evolves tk tk'))
     \<and> (task_ids_ok st \<longrightarrow> task_ids_ok st') \<and> (controllers_ok st \<longrightarrow> controllers_ok st')"

lemma task_evolves_refl [simp]: "task_evolves tk tk"
  by (simp add: task_evolves_def)

lemma task_evolves_trans: "task_evolves a b \<Longrightarrow> task_evolves b c \<Longrightarrow> task_evolves a c"
  by (simp add: task_evolves_def)

lemma tasks_evolve_refl [simp]: "tasks_evolve st st"
  by (simp add: tasks_evolve_def option.rel_refl)

lemma tasks_evolve_trans: "tasks_evolve a b \<Longrightarrow> tasks_evolve b c \<Longrightarrow> tasks_evolve a c"
  unfolding tasks_evolve_def
  by (auto intro: option.rel_transp [unfolded transp_def, rule_format] task_evolves_trans)

lemma tasks_evolve_same: "ps_tasks st' = ps_tasks st \<Longrightarrow> ps_nextTask st' = ps_nextTask st
    \<Longrightarrow> ps_abortControllers st' = ps_abortControllers st \<Longrightarrow> tasks_evolve st st'"
  by (simp add: tasks_evolve_def option.rel_refl)

lemma tasks_evolve_grow: "tasks_evolve st st' \<Longrightarrow> tasks_grow st st'"
proof -
  assume e: "tasks_evolve st st'"
  then have none: "ps_tasks st' n = None \<longleftrightarrow> ps_tasks st n = None" for n
    unfolding tasks_evolve_def by (metis option.rel_distinct option.exhaust)
  have "ps_tasks st n = Some tk \<Longrightarrow> \<exists>tk'. ps_tasks st' n = Some tk' \<and> task_evolves tk tk'" for n tk
    using e unfolding tasks_evolve_def by (metis option.rel_cases option.distinct(1) option.inject)
  with e none show ?thesis by (auto simp: tasks_evolve_def tasks_grow_def task_ids_ok_def controllers_ok_def)
qed

lemma tasks_evolve_update:
  "ps_tasks st n = Some tk \<Longrightarrow> task_evolves tk tk' \<Longrightarrow> ps_tasks st' = (ps_tasks st)(n \<mapsto> tk')
     \<Longrightarrow> ps_nextTask st' = ps_nextTask st \<Longrightarrow> set (ps_abortControllers st') \<subseteq> set (ps_abortControllers st) \<Longrightarrow> tasks_evolve st st'"
  by (simp add: tasks_evolve_def option.rel_refl)

subsection \<open>The operations\<close>

lemma drop_tasks [simp]:
  "ps_tasks (dropProgress i st) = ps_tasks st" "ps_nextTask (dropProgress i st) = ps_nextTask st" "ps_abortControllers (dropProgress i st) = ps_abortControllers st"
  "ps_tasks (cleanupTimeout i st) = ps_tasks st" "ps_nextTask (cleanupTimeout i st) = ps_nextTask st" "ps_abortControllers (cleanupTimeout i st) = ps_abortControllers st"
  "ps_tasks (dropResponseHandler i st) = ps_tasks st" "ps_nextTask (dropResponseHandler i st) = ps_nextTask st" "ps_abortControllers (dropResponseHandler i st) = ps_abortControllers st"
  by (simp_all add: drop_defs)

lemma set_phase_tasks [simp]: "ps_tasks (set_phase i p st) = ps_tasks st" "ps_nextTask (set_phase i p st) = ps_nextTask st" "ps_abortControllers (set_phase i p st) = ps_abortControllers st"
  by (simp_all add: set_phase_def split: option.split)

lemma settle_tasks [simp]: "ps_tasks (settle i p st) = ps_tasks st" "ps_nextTask (settle i p st) = ps_nextTask st" "ps_abortControllers (settle i p st) = ps_abortControllers st"
  by (simp_all add: settle_def split: option.split)

lemma respond_tasks [simp]:
  "ps_tasks (handleResponse cfg i r st) = ps_tasks st" "ps_nextTask (handleResponse cfg i r st) = ps_nextTask st" "ps_abortControllers (handleResponse cfg i r st) = ps_abortControllers st"
  by (auto simp: handleResponse_def Let_def split: option.split sum.split decoded_result.split)

lemma fold_respond_tasks [simp]:
  "ps_tasks (fold (\<lambda>i. handleResponse cfg i (Inl e)) is st) = ps_tasks st"
  "ps_nextTask (fold (\<lambda>i. handleResponse cfg i (Inl e)) is st) = ps_nextTask st" "ps_abortControllers (fold (\<lambda>i. handleResponse cfg i (Inl e)) is st) = ps_abortControllers st"
  by (induction "is" arbitrary: st) simp_all

lemma cancel_tasks [simp]:
  "ps_tasks (fst (cancelOp cfg i reason st)) = ps_tasks st" "ps_nextTask (fst (cancelOp cfg i reason st)) = ps_nextTask st" "ps_abortControllers (fst (cancelOp cfg i reason st)) = ps_abortControllers st"
  by (auto simp: cancelOp_def split: option.split)

lemma abort_tasks [simp]:
  "ps_tasks (fst (signalAborted cfg i reason st)) = ps_tasks st" "ps_nextTask (fst (signalAborted cfg i reason st)) = ps_nextTask st" "ps_abortControllers (fst (signalAborted cfg i reason st)) = ps_abortControllers st"
  by (auto simp: signalAborted_def Let_def split: option.split)

lemma response_tasks [simp]:
  "ps_tasks (fst (onresponse cfg msg st)) = ps_tasks st" "ps_nextTask (fst (onresponse cfg msg st)) = ps_nextTask st" "ps_abortControllers (fst (onresponse cfg msg st)) = ps_abortControllers st"
  by (auto simp: onresponse_def Let_def split: option.split)

lemma progress_tasks [simp]:
  "ps_tasks (fst (onprogress cfg n now st)) = ps_tasks st" "ps_nextTask (fst (onprogress cfg n now st)) = ps_nextTask st" "ps_abortControllers (fst (onprogress cfg n now st)) = ps_abortControllers st"
  by (auto simp: onprogress_def resetTimeout_def Let_def split: option.split sum.split)

lemma validation_tasks [simp]:
  "ps_tasks (validationDone i v st) = ps_tasks st" "ps_nextTask (validationDone i v st) = ps_nextTask st" "ps_abortControllers (validationDone i v st) = ps_abortControllers st"
  by (auto simp: validationDone_def split: option.split phase.split)

lemma delegation_tasks [simp]:
  "ps_tasks (delegationDone i out st) = ps_tasks st" "ps_nextTask (delegationDone i out st) = ps_nextTask st" "ps_abortControllers (delegationDone i out st) = ps_abortControllers st"
  by (auto simp: delegationDone_def split: option.split)

lemma tick_tasks [simp]: "ps_tasks (fst (debounceTick st)) = ps_tasks st" "ps_nextTask (fst (debounceTick st)) = ps_nextTask st" "ps_abortControllers (fst (debounceTick st)) = ps_abortControllers st"
  by (auto simp: debounceTick_def split: list.split)

lemma request_tasks:
  "requestOp cfg ex m params opts now st = (r, st', eff) \<Longrightarrow> ps_tasks st' = ps_tasks st \<and> ps_nextTask st' = ps_nextTask st \<and> ps_abortControllers st' = ps_abortControllers st"
  by (auto simp: requestOp_def requestViaCodec_def Let_def split: option.splits if_splits)

lemma notify_tasks:
  "notificationOp cfg m params related st = (r, st', eff) \<Longrightarrow> ps_tasks st' = ps_tasks st \<and> ps_nextTask st' = ps_nextTask st \<and> ps_abortControllers st' = ps_abortControllers st"
  by (auto simp: notificationOp_def Let_def split: option.splits if_splits)

lemma register_tasks:
  "setRequestHandler ac m s h st = Inr st' \<Longrightarrow> ps_tasks st' = ps_tasks st \<and> ps_nextTask st' = ps_nextTask st \<and> ps_abortControllers st' = ps_abortControllers st"
  "setNotificationHandler m s h st = Inr st' \<Longrightarrow> ps_tasks st' = ps_tasks st \<and> ps_nextTask st' = ps_nextTask st \<and> ps_abortControllers st' = ps_abortControllers st"
  "tasks_evolve st (removeRequestHandler m st)" "tasks_evolve st (removeNotificationHandler m st)"
  "tasks_evolve st (setNegotiatedProtocolVersion v st)" "tasks_evolve st (connectOp t stream st)"
  "tasks_evolve st (sendFailed i e st)" "tasks_evolve st (validationDone i verdict st)" "tasks_evolve st (delegationDone i out st)"
  by (auto simp: setRequestHandler_def setNotificationHandler_def removeRequestHandler_def removeNotificationHandler_def
      setNegotiatedProtocolVersion_def connectOp_def sendFailed_def intro: tasks_evolve_same split: option.splits if_splits)

lemma abortTask_evolve: "tasks_evolve st (abortTask n st)"
proof (cases "ps_tasks st n")
  case (Some tk)
  then show ?thesis
    by (intro tasks_evolve_update [of st n tk "tk\<lparr>tk_aborted := True\<rparr>"]) (simp_all add: abortTask_def task_evolves_def)
qed (simp add: abortTask_def)

lemma fold_abort_evolve: "tasks_evolve st (fold (\<lambda>e. abortTask (snd e)) es st)"
  by (induction es arbitrary: st) (auto intro: tasks_evolve_trans [OF abortTask_evolve])

lemma close_evolve: "tasks_evolve st (fst (oncloseOp cfg st))"
proof -
  have "tasks_evolve st (torn_down st)" by (simp add: tasks_evolve_def torn_down_def option.rel_refl)
  then show ?thesis unfolding onclose_eq fst_conv
    by (rule tasks_evolve_trans [OF tasks_evolve_trans [OF _ tasks_evolve_same] fold_abort_evolve]) simp_all
qed

lemma oncancel_evolve: "tasks_evolve st (oncancel n st)"
  by (auto simp: oncancel_def Let_def abortTask_evolve split: option.split)

lemma set_delete_subset: "set (AList.delete k al) \<subseteq> set al"
  by (auto simp: AList.delete_eq)

lemma handlerDone_evolve: "tasks_evolve st (fst (handlerDone cfg n out st))"
proof (cases "ps_tasks st n")
  case (Some tk)
  show ?thesis
  proof (cases "tk_done tk")
    case False
    with Some show ?thesis
      by (intro tasks_evolve_update [of st n tk "tk\<lparr>tk_done := True\<rparr>"]) (simp_all add: handlerDone_def task_evolves_def set_delete_subset)
  qed (use Some in \<open>simp add: handlerDone_def\<close>)
qed (simp add: handlerDone_def)

lemma set_update_subset: "set (AList.update k v al) \<subseteq> insert (k, v) (set al)"
  by (induction al) auto

lemma onrequest_grow: "task_ids_ok st \<Longrightarrow> tasks_grow st (fst (onrequest cfg raw cls st))"
  by (auto simp: onrequest_def tasks_grow_def task_ids_ok_def controllers_ok_def Let_def less_Suc_eq
      dest!: subsetD [OF set_update_subset] split: option.split)

lemma message_grow: "task_ids_ok st \<Longrightarrow> tasks_grow st (fst (onmessage cfg valid msg cls now st))"
proof -
  assume ok: "task_ids_ok st"
  have "tasks_evolve st (fst (deliverNotification cfg valid n now st))" for n
    using tasks_evolve_same [OF progress_tasks] oncancel_evolve
    by (simp add: deliverNotification_def Let_def split: option.split)
  then have "tasks_evolve st (fst (onnotification cfg valid msg cls now st))" by (simp add: onnotification_def Let_def)
  moreover have "tasks_evolve st (fst (onresponse cfg msg st))" by (rule tasks_evolve_same) simp_all
  ultimately show ?thesis using ok onrequest_grow by (simp add: onmessage_def tasks_evolve_grow)
qed

lemma tasks_step: "pstep cfg st eff st' \<Longrightarrow> task_ids_ok st \<Longrightarrow> tasks_grow st st'"
proof (induction rule: pstep.induct)
  case ev_request
  then show ?case by (blast intro: tasks_evolve_grow tasks_evolve_same dest: request_tasks)
next
  case (ev_message valid msg cls now st st' eff)
  then show ?case using message_grow [of st cfg valid msg cls now] by simp
next
  case (ev_timeout st i info now st' eff)
  then show ?case using tasks_evolve_same [OF cancel_tasks, of st cfg i, THEN tasks_evolve_grow]
    by (simp add: timeoutFired_def) (metis fst_conv)
next
  case (ev_abort i reason st st' eff)
  then show ?case using tasks_evolve_same [OF abort_tasks, of st cfg i reason, THEN tasks_evolve_grow] by simp
next
  case ev_notify
  then show ?case by (blast intro: tasks_evolve_grow tasks_evolve_same dest: notify_tasks)
next
  case (ev_tick st st' eff)
  then show ?case using tasks_evolve_same [OF tick_tasks, of st, THEN tasks_evolve_grow] by simp
next
  case (ev_handler n result st st' eff)
  then show ?case using handlerDone_evolve [of st cfg n result, THEN tasks_evolve_grow] by simp
next
  case (ev_close st st' eff)
  then show ?case using close_evolve [of st cfg, THEN tasks_evolve_grow] by simp
qed (auto intro: tasks_evolve_grow tasks_evolve_same register_tasks dest: register_tasks(1,2))

lemma reachable_task_ids: "reachable cfg st \<Longrightarrow> task_ids_ok st \<and> controllers_ok st"
proof (induction rule: reachable.induct)
  case start
  show ?case by (simp add: task_ids_ok_def controllers_ok_def initial_state_def)
next
  case (step st eff st')
  then show ?case using tasks_step [OF step(2)] by (simp add: tasks_grow_def)
qed

lemma later_ids: "later cfg st st' \<Longrightarrow> task_ids_ok st \<Longrightarrow> task_ids_ok st'"
  by (induction rule: later.induct) (auto simp: tasks_grow_def dest: tasks_step)

lemma later_tasks:
  "later cfg st st' \<Longrightarrow> task_ids_ok st \<Longrightarrow> ps_tasks st n = Some tk \<Longrightarrow> \<exists>tk'. ps_tasks st' n = Some tk' \<and> task_evolves tk tk'"
proof (induction rule: later.induct)
  case (more st st' eff st'')
  then show ?case using tasks_step [OF more(2) later_ids [OF more(1,4)]]
    by (simp add: tasks_grow_def) (meson task_evolves_trans)
qed auto

subsection \<open>Answered at most once\<close>

lemma sentOf_to [simp]: "length (sentOf (sendTo t r)) \<le> Suc 0"
  by (simp add: sendTo_def split: option.split)

lemma response_once: "length (sentOf (taskResponse cfg tk out)) \<le> 1"
  by (auto simp: taskResponse_def split: sum.split)

text \<open>A task that has ended or was aborted.\<close>

definition silenced :: "nat \<Rightarrow> proto_state \<Rightarrow> bool" where
  "silenced n st \<longleftrightarrow> (case ps_tasks st n of None \<Rightarrow> False | Some tk \<Rightarrow> tk_done tk \<or> tk_aborted tk)"

lemma silenced_sends_nothing: "silenced n st \<Longrightarrow> snd (handlerDone cfg n out st) = []"
  by (auto simp: silenced_def handlerDone_def split: option.splits)

lemma silenced_later: "later cfg st st' \<Longrightarrow> task_ids_ok st \<Longrightarrow> silenced n st \<Longrightarrow> silenced n st'"
  by (auto simp: silenced_def task_evolves_def split: option.splits dest!: later_tasks)

lemma done_silenced: "ps_tasks st n = Some tk \<Longrightarrow> silenced n (fst (handlerDone cfg n out st))"
  by (simp add: silenced_def handlerDone_def)

text \<open>
  C5: a request is answered at most once. When the handler of a started request settles, at
  most one message goes out, on the transport the request came from; whatever events follow,
  a second settlement of the same task sends and reports nothing.
\<close>

theorem answered_at_most_once:
  assumes "reachable cfg st" and "ps_tasks st n = Some tk"
    and "later cfg (fst (handlerDone cfg n out st)) st'"
  shows "length (sentOf (snd (handlerDone cfg n out st))) \<le> 1
    \<and> set (map fst (sentOf (snd (handlerDone cfg n out st)))) \<subseteq> set_option (tk_transport tk)
    \<and> snd (handlerDone cfg n out' st') = []"
proof -
  have "task_ids_ok (fst (handlerDone cfg n out st))"
    using reachable_task_ids [OF assms(1)] tasks_evolve_grow [OF handlerDone_evolve] by (simp add: tasks_grow_def)
  then have "silenced n st'" using silenced_later [OF assms(3)] done_silenced [OF assms(2)] by blast
  then have "snd (handlerDone cfg n out' st') = []" by (rule silenced_sends_nothing)
  moreover have "length (sentOf (snd (handlerDone cfg n out st))) \<le> 1"
    using assms(2) response_once by (simp add: handlerDone_def)
  moreover have "set (map fst (sentOf (snd (handlerDone cfg n out st)))) \<subseteq> set_option (tk_transport tk)"
    using assms(2) by (auto simp: handlerDone_def taskResponse_def sendTo_def split: sum.splits option.splits if_splits)
  ultimately show ?thesis by blast
qed

definition demo_ping :: js where
  "demo_ping = JObj [(''jsonrpc'', JStr ''2.0''), (''id'', JNum (NInt 7)), (''method'', JStr ''ping'')]"

definition serving_state :: proto_state where
  "serving_state = fst (onrequest demo_config demo_ping None (connectOp 0 False initial_state))"

definition demo_task :: inbound_task where
  "demo_task = \<lparr>tk_id = JNum (NInt 7), tk_method = ''ping'', tk_codec = Rev2025, tk_transport = Some 0,
     tk_aborted = False, tk_done = False\<rparr>"

lemma serving_eq:
  "serving_state = (connectOp 0 False initial_state)\<lparr>ps_nextTask := 1,
     ps_abortControllers := [(JNum (NInt 7), 0)], ps_tasks := [0 \<mapsto> demo_task]\<rparr>"
proof -
  have l: "liftWireOnlyMaterial demo_ping K_request = (demo_ping, nothing_lifted)"
    by (simp add: liftWireOnlyMaterial_def demo_ping_def)
  have g: "gateResponse demo_config (connectOp 0 False initial_state) demo_ping nothing_lifted None = None"
    by (simp add: gateResponse_def demo_ping_def methodGated_def hasHandler_def negotiatedCodec_def codecForVersion_def
        connectOp_def initial_state_def methodOf_def checkInboundEnvelope_def registry_defs)
  have d: "\<not> pc_shouldDrop demo_config demo_ping" by (simp add: demo_config_def)
  show ?thesis unfolding serving_state_def onrequest_def l
    using g d by (simp add: Let_def nothing_lifted_def demo_ping_def methodOf_def capturedTransport_def negotiatedCodec_def
        codecForVersion_def demo_task_def connectOp_def initial_state_def)
qed

lemma serving_reachable: "reachable demo_config serving_state"
proof -
  have "isJSONRPCRequest demo_ping"
    by (simp add: isJSONRPCRequest_def demo_ping_def strictKeys_def requestIdOk_def baseParamsOk_def JSONRPC_VERSION_def
        okeys_def MAX_SAFE_INTEGER_def)
  moreover have "\<not> isJSONRPCResultResponse demo_ping" "\<not> isJSONRPCErrorResponse demo_ping"
    by (simp_all add: isJSONRPCResultResponse_def isJSONRPCErrorResponse_def demo_ping_def resultOk_def)
  ultimately have "onmessage demo_config valid demo_ping None now st = onrequest demo_config demo_ping None st" for valid now st
    by (simp add: onmessage_def)
  then have "onmessage demo_config (\<lambda>_. None) demo_ping None 0 (connectOp 0 False initial_state)
      = (serving_state, snd (onrequest demo_config demo_ping None (connectOp 0 False initial_state)))"
    by (simp add: serving_state_def)
  then show ?thesis by (intro reachable.step [OF connected_reachable ev_message])
qed

theorem answered_at_most_once_witness:
  "snd (handlerDone demo_config 0 (Inl (PlainErr ''late''))
     (fst (oncloseOp demo_config (fst (handlerDone demo_config 0 (Inl (PlainErr ''boom'')) serving_state))))) = []"
proof -
  have t: "ps_tasks serving_state 0 = Some demo_task" by (simp add: serving_eq)
  show ?thesis
    using answered_at_most_once [OF serving_reachable t later.more [OF later.now ev_close]] by (metis prod.collapse)
qed

subsection \<open>Cancelled and torn-down requests\<close>

lemma abort_silences: "ps_tasks st n \<noteq> None \<Longrightarrow> silenced n (abortTask n st)"
  by (auto simp: silenced_def abortTask_def)

lemma abort_other: "m \<noteq> n \<Longrightarrow> ps_tasks (abortTask n st) m = ps_tasks st m"
  by (simp add: abortTask_def split: option.split)

lemma silenced_evolves:
  assumes "tasks_evolve st st'" and "silenced n st" shows "silenced n st'"
proof -
  obtain tk where tk: "ps_tasks st n = Some tk" "tk_done tk \<or> tk_aborted tk"
    using assms(2) by (auto simp: silenced_def split: option.splits)
  then obtain tk' where "ps_tasks st' n = Some tk'" "task_evolves tk tk'"
    using tasks_evolve_grow [OF assms(1)] by (auto simp: tasks_grow_def)
  with tk(2) show ?thesis by (auto simp: silenced_def task_evolves_def)
qed

lemma fold_abort_silences:
  "e \<in> set es \<Longrightarrow> ps_tasks st (snd e) \<noteq> None \<Longrightarrow> silenced (snd e) (fold (\<lambda>e. abortTask (snd e)) es st)"
proof (induction es arbitrary: st)
  case (Cons a es)
  show ?case
  proof (cases "e = a")
    case True
    then show ?thesis using Cons.prems silenced_evolves [OF fold_abort_evolve abort_silences] by simp
  next
    case False
    have "ps_tasks (abortTask (snd a) st) (snd e) \<noteq> None"
      using Cons.prems(2) by (auto simp: abortTask_def split: option.split)
    then show ?thesis using Cons False by simp
  qed
qed simp

lemma close_silences:
  assumes "e \<in> set (ps_abortControllers st)" and "ps_tasks st (snd e) \<noteq> None"
  shows "silenced (snd e) (fst (oncloseOp cfg st))"
  unfolding onclose_eq fst_conv
  by (rule fold_abort_silences [OF assms(1)]) (use assms(2) in \<open>simp add: torn_down_def\<close>)

lemma oncancel_hit:
  "getp (getp n ''params'') ''requestId'' = i \<Longrightarrow> i \<noteq> JUndef \<Longrightarrow> map_of (ps_abortControllers st) i = Some t
     \<Longrightarrow> oncancel n st = abortTask t st"
  by (simp add: oncancel_def Let_def)

text \<open>
  C6: a cancelled request is never answered. When the peer's \<open>notifications/cancelled\<close> names
  the id of a request in flight (ids are compared by type and value, so \<open>1\<close> is not \<open>'1'\<close>),
  exactly the task registered under that id is aborted: whatever events follow, nothing is
  sent for it. The same holds for every registered task after a close.
\<close>

theorem cancelled_request_never_answered:
  assumes "reachable cfg st" and "map_of (ps_abortControllers st) i = Some t" and "i \<noteq> JUndef"
    and "getp (getp n ''params'') ''requestId'' = i"
    and "later cfg (oncancel n st) st1 \<or> later cfg (fst (oncloseOp cfg st)) st1"
  shows "snd (handlerDone cfg t out st1) = []
    \<and> (\<forall>u. u \<noteq> t \<longrightarrow> ps_tasks (oncancel n st) u = ps_tasks st u)"
proof -
  have "(i, t) \<in> set (ps_abortControllers st)" using assms(2) by (rule map_of_SomeD)
  moreover from this have t: "ps_tasks st t \<noteq> None"
    using reachable_task_ids [OF assms(1)] by (auto simp: controllers_ok_def)
  ultimately have c: "silenced t (fst (oncloseOp cfg st))" using close_silences [of "(i, t)"] by simp
  note hit = oncancel_hit [OF assms(4,3,2)]
  have ids: "task_ids_ok st" using reachable_task_ids [OF assms(1)] by simp
  have "task_ids_ok (oncancel n st)" "task_ids_ok (fst (oncloseOp cfg st))"
    using ids tasks_evolve_grow [OF oncancel_evolve] tasks_evolve_grow [OF close_evolve] by (simp_all add: tasks_grow_def)
  then have "silenced t st1"
    using assms(5) silenced_later c abort_silences [OF t] hit by metis
  then show ?thesis using silenced_sends_nothing abort_other hit by simp
qed

definition demo_cancel :: js where
  "demo_cancel = JObj [(''jsonrpc'', JStr ''2.0''), (''method'', JStr ''notifications/cancelled''),
     (''params'', JObj [(''requestId'', JNum (NInt 7))])]"

theorem cancelled_request_never_answered_witness:
  "snd (handlerDone demo_config 0 (Inl (PlainErr ''late'')) (oncancel demo_cancel serving_state)) = []"
proof -
  have "map_of (ps_abortControllers serving_state) (JNum (NInt 7)) = Some 0" by (simp add: serving_eq)
  moreover have "getp (getp demo_cancel ''params'') ''requestId'' = JNum (NInt 7)" by (simp add: demo_cancel_def)
  ultimately show ?thesis
    using cancelled_request_never_answered [OF serving_reachable _ _ _ disjI1 [OF later.now]] by blast
qed

subsection \<open>Debounced notifications\<close>

text \<open>The call of a debounced notification, and a burst of such calls.\<close>

definition notifyOnce :: "proto_config \<Rightarrow> string \<Rightarrow> proto_state \<Rightarrow> proto_state" where
  "notifyOnce cfg m st = fst (snd (notificationOp cfg m JUndef False st))"

definition notifiable :: "proto_config \<Rightarrow> string \<Rightarrow> proto_state \<Rightarrow> bool" where
  "notifiable cfg m st \<longleftrightarrow> ps_transport st \<noteq> None \<and> pc_assertNotification cfg m = None
     \<and> (isSpecNotificationMethod m \<longrightarrow> hasNotificationMethod (resolveOutboundCodec st m) m)"

lemma notify_schedules:
  assumes "notifiable cfg m st" and "m \<in> set (pc_debounced cfg)" and "m \<notin> set (ps_pendingDebounced st)"
  shows "notificationOp cfg m JUndef False st
    = (None, st\<lparr>ps_pendingDebounced := ps_pendingDebounced st @ [m],
         ps_microtasks := ps_microtasks st @ [(m, envelopeOutbound (pc_metaEnvelope cfg (ps_negotiated st)) (notificationMessage m JUndef))]\<rparr>, [])"
  using assms by (auto simp: notifiable_def notificationOp_def Let_def)

lemma notify_again:
  assumes "notifiable cfg m st" and "m \<in> set (pc_debounced cfg)" and "m \<in> set (ps_pendingDebounced st)"
  shows "notificationOp cfg m JUndef False st = (None, st, [])"
  using assms by (auto simp: notifiable_def notificationOp_def Let_def)

lemma burst_fixed:
  assumes "notifiable cfg m st" and "m \<in> set (pc_debounced cfg)" and "m \<in> set (ps_pendingDebounced st)"
  shows "(notifyOnce cfg m ^^ k) st = st"
  using notify_again [OF assms] by (induction k) (simp_all add: notifyOnce_def)

text \<open>
  a burst of debounced notifications sends one message. However many times the same
  parameterless, unrelated notification of a debounced method is sent in one tick, none of
  the calls sends anything; the microtask then sends exactly one message and the instance is
  back in the state before the burst. If the transport closed in between, nothing is sent.
\<close>

theorem debounce_coalesces:
  assumes "notifiable cfg m st" and "m \<in> set (pc_debounced cfg)" and "ps_transport st = Some (t, stream)"
    and "ps_pendingDebounced st = []" and "ps_microtasks st = []"
  shows "snd (snd (notificationOp cfg m JUndef False ((notifyOnce cfg m ^^ k) st))) = []
    \<and> debounceTick ((notifyOnce cfg m ^^ Suc k) st)
        = (st, [SendMsg t (envelopeOutbound (pc_metaEnvelope cfg (ps_negotiated st)) (notificationMessage m JUndef))])
    \<and> snd (debounceTick (fst (oncloseOp cfg ((notifyOnce cfg m ^^ Suc k) st)))) = []"
proof -
  let ?st = "notifyOnce cfg m st"
  have s: "?st = st\<lparr>ps_pendingDebounced := [m],
      ps_microtasks := [(m, envelopeOutbound (pc_metaEnvelope cfg (ps_negotiated st)) (notificationMessage m JUndef))]\<rparr>"
    using notify_schedules [OF assms(1,2)] assms(4,5) by (simp add: notifyOnce_def)
  have "resolveOutboundCodec ?st m = resolveOutboundCodec st m" "ps_transport ?st = ps_transport st"
    by (simp_all add: s resolveOutboundCodec_def negotiatedCodec_def)
  then have n: "notifiable cfg m ?st" using assms(1) by (simp add: notifiable_def)
  have p: "m \<in> set (ps_pendingDebounced ?st)" by (simp add: s)
  have b: "(notifyOnce cfg m ^^ Suc k) st = ?st" using burst_fixed [OF n assms(2) p] by (simp add: funpow_Suc_right del: funpow.simps)
  have quiet: "snd (snd (notificationOp cfg m JUndef False ((notifyOnce cfg m ^^ k) st))) = []"
  proof (cases k)
    case 0
    then show ?thesis using notify_schedules [OF assms(1,2)] assms(4) by simp
  next
    case (Suc j)
    then show ?thesis using burst_fixed [OF n assms(2) p, of j] notify_again [OF n assms(2) p]
      by (simp add: funpow_Suc_right del: funpow.simps)
  qed
  have closed: "ps_transport (fst (oncloseOp cfg x)) = None" for x
    unfolding onclose_eq fst_conv by (simp add: fold_abort_transport fold_respond_transport torn_down_def)
  show ?thesis unfolding b using quiet s assms(3-5) closed [of ?st]
    by (auto simp: debounceTick_def split: list.split)
qed

theorem debounce_coalesces_witness:
  "\<exists>msg. snd (debounceTick ((notifyOnce demo_config ''notifications/tools/list_changed'' ^^ 3)
      (connectOp 0 False initial_state))) = [SendMsg 0 msg]"
proof -
  let ?st = "connectOp 0 False initial_state" and ?m = "''notifications/tools/list_changed''"
  have "notifiable demo_config ?m ?st"
    by (simp add: notifiable_def demo_config_def connectOp_def initial_state_def resolveOutboundCodec_def
        bootstrapOutboundCodec_def negotiatedCodec_def codecForVersion_def registry_defs)
  then show ?thesis
    using debounce_coalesces [of demo_config ?m ?st 0 False 2]
    by (simp add: demo_config_def connectOp_def initial_state_def numeral_3_eq_3 del: funpow.simps)
qed

end
