(* ===== verification/Json.thy ===== *)
theory Json
  imports WireCodec
begin

text \<open>
  JSON texts. \<open>JSON.stringify\<close> is \<open>json_text\<close> of the theory WireCodec; this theory adds
  \<open>JSON.parse\<close>, the recursive descent of ECMA-404, which the response cache, the request
  state codec, the version probe and the stdio framing use, and proves that parsing a
  printed value gives the value back.

  The conversion of a number literal to a number is the argument \<open>num\<close>: a value is printable
  (\<open>json_value\<close>) when its numbers are the ones their literals denote, its objects have
  distinct keys, and it holds nothing that JSON cannot write. Strings hold units below 256,
  as everywhere outside HeaderCodec, so an escape above \<open>\u00ff\<close> is outside the model and is
  not parsed; members keep the order of the text.

  The parser recurses over a fuel that \<open>JSON_parse\<close> sets to twice the length of the text
  plus two; \<open>parse_fuel\<close> proves that any larger fuel gives the same result, so running out
  of fuel is never mistaken for a syntax error.
\<close>

subsection \<open>Lexical elements\<close>

definition is_ws :: "char \<Rightarrow> bool" where
  "is_ws c \<longleftrightarrow> code c = 32 \<or> code c = 9 \<or> code c = 10 \<or> code c = 13"

definition skip_ws :: "string \<Rightarrow> string" where
  "skip_ws s = dropWhile is_ws s"

definition expect :: "nat \<Rightarrow> string \<Rightarrow> string option" where
  "expect u s = (case skip_ws s of [] \<Rightarrow> None | c # r \<Rightarrow> if code c = u then Some r else None)"

definition hex_value :: "char \<Rightarrow> nat option" where
  "hex_value c =
     (if is_digit c then Some (code c - 48)
      else if 97 \<le> code c \<and> code c \<le> 102 then Some (code c - 87)
      else if 65 \<le> code c \<and> code c \<le> 70 then Some (code c - 55) else None)"

definition hex4 :: "char \<Rightarrow> char \<Rightarrow> char \<Rightarrow> char \<Rightarrow> nat option" where
  "hex4 a b c d =
     (case (hex_value a, hex_value b, hex_value c, hex_value d) of
        (Some i, Some j, Some k, Some l) \<Rightarrow> Some (i * 4096 + j * 256 + k * 16 + l)
      | _ \<Rightarrow> None)"

definition escape_char :: "char \<Rightarrow> char option" where
  "escape_char e =
     (if code e \<in> {34, 92, 47} then Some e
      else if e = CHR ''b'' then Some (char_of (8::nat)) else if e = CHR ''f'' then Some (char_of (12::nat))
      else if e = CHR ''n'' then Some (char_of (10::nat)) else if e = CHR ''r'' then Some (char_of (13::nat))
      else if e = CHR ''t'' then Some (char_of (9::nat)) else None)"

definition cons_char :: "char \<Rightarrow> (string \<times> string) option \<Rightarrow> (string \<times> string) option" where
  "cons_char c p = map_option (apfst ((#) c)) p"

text \<open>The characters of a string literal after its opening quote.\<close>

fun parse_chars :: "string \<Rightarrow> (string \<times> string) option" where
  "parse_chars [] = None"
| "parse_chars (c # s) =
     (if code c = 34 then Some ([], s)
      else if code c = 92 then
        (case s of
           [] \<Rightarrow> None
         | e # r \<Rightarrow>
             if e = CHR ''u'' then
               (case r of
                  h1 # h2 # h3 # h4 # r' \<Rightarrow>
                    (case hex4 h1 h2 h3 h4 of
                       None \<Rightarrow> None
                     | Some u \<Rightarrow> if u < 256 then cons_char (char_of u) (parse_chars r') else None)
                | _ \<Rightarrow> None)
             else (case escape_char e of None \<Rightarrow> None | Some x \<Rightarrow> cons_char x (parse_chars r)))
      else if code c < 32 then None
      else cons_char c (parse_chars s))"

text \<open>The key of a member and its colon, up to the first character of the value.\<close>

definition parse_key :: "string \<Rightarrow> (string \<times> string) option" where
  "parse_key s =
     (case expect 34 s of
        None \<Rightarrow> None
      | Some r \<Rightarrow>
          (case parse_chars r of
             None \<Rightarrow> None
           | Some (k, r') \<Rightarrow> map_option (\<lambda>q. (k, skip_ws q)) (expect 58 r')))"

text \<open>Number literals: sign, integer part, fraction, exponent.\<close>

definition parse_int :: "string \<Rightarrow> (string \<times> string) option" where
  "parse_int s =
     (case s of
        [] \<Rightarrow> None
      | c # r \<Rightarrow>
          if c = CHR ''0'' then Some ([c], r)
          else if is_digit c then Some (takeWhile is_digit s, dropWhile is_digit s) else None)"

definition parse_frac :: "string \<Rightarrow> (string \<times> string) option" where
  "parse_frac s =
     (case s of
        [] \<Rightarrow> Some ([], [])
      | c # r \<Rightarrow>
          if c = CHR ''.'' then
            (if takeWhile is_digit r = [] then None else Some (c # takeWhile is_digit r, dropWhile is_digit r))
          else Some ([], s))"

definition parse_exp_digits :: "string \<Rightarrow> (string \<times> string) option" where
  "parse_exp_digits s =
     (case s of
        [] \<Rightarrow> None
      | c # r \<Rightarrow>
          if c = CHR ''+'' \<or> c = CHR ''-'' then
            (if takeWhile is_digit r = [] then None else Some (c # takeWhile is_digit r, dropWhile is_digit r))
          else if is_digit c then Some (takeWhile is_digit s, dropWhile is_digit s) else None)"

definition parse_exp :: "string \<Rightarrow> (string \<times> string) option" where
  "parse_exp s =
     (case s of
        [] \<Rightarrow> Some ([], [])
      | c # r \<Rightarrow>
          if c = CHR ''e'' \<or> c = CHR ''E'' then map_option (apfst ((#) c)) (parse_exp_digits r)
          else Some ([], s))"

definition parse_unsigned :: "string \<Rightarrow> (string \<times> string) option" where
  "parse_unsigned s =
     (case parse_int s of
        None \<Rightarrow> None
      | Some (i, r) \<Rightarrow>
          (case parse_frac r of
             None \<Rightarrow> None
           | Some (f, r') \<Rightarrow> map_option (apfst (\<lambda>e. i @ f @ e)) (parse_exp r')))"

definition parse_number :: "string \<Rightarrow> (string \<times> string) option" where
  "parse_number s =
     (case s of
        [] \<Rightarrow> None
      | c # r \<Rightarrow> if c = CHR ''-'' then map_option (apfst ((#) c)) (parse_unsigned r) else parse_unsigned s)"

subsection \<open>Values\<close>

text \<open>
  \<open>parse_value\<close> expects its text at the first character of a value; \<open>parse_elems\<close> and
  \<open>parse_members\<close> read a non-empty list up to its closing bracket. A repeated key keeps its
  place and takes the later value.
\<close>

fun parse_value :: "(string \<Rightarrow> jnum) \<Rightarrow> nat \<Rightarrow> string \<Rightarrow> (js \<times> string) option"
  and parse_elems :: "(string \<Rightarrow> jnum) \<Rightarrow> nat \<Rightarrow> string \<Rightarrow> (js list \<times> string) option"
  and parse_members :: "(string \<Rightarrow> jnum) \<Rightarrow> nat \<Rightarrow> obj \<Rightarrow> string \<Rightarrow> (obj \<times> string) option" where
  "parse_value num 0 s = None"
| "parse_value num (Suc n) s =
     (case s of
        [] \<Rightarrow> None
      | c # r \<Rightarrow>
          if code c = 34 then map_option (apfst JStr) (parse_chars r)
          else if c = CHR ''['' then
            (case expect 93 r of
               Some q \<Rightarrow> Some (JArr [], q)
             | None \<Rightarrow> map_option (apfst JArr) (parse_elems num n (skip_ws r)))
          else if c = CHR ''{'' then
            (case expect 125 r of
               Some q \<Rightarrow> Some (JObj [], q)
             | None \<Rightarrow> map_option (apfst JObj) (parse_members num n [] (skip_ws r)))
          else if startsWith s ''true'' then Some (JBool True, drop 4 s)
          else if startsWith s ''false'' then Some (JBool False, drop 5 s)
          else if startsWith s ''null'' then Some (JNull, drop 4 s)
          else map_option (apfst (\<lambda>t. JNum (num t))) (parse_number s))"
| "parse_elems num 0 s = None"
| "parse_elems num (Suc n) s =
     (case parse_value num n s of
        None \<Rightarrow> None
      | Some (v, r) \<Rightarrow>
          (case expect 44 r of
             Some q \<Rightarrow> map_option (apfst ((#) v)) (parse_elems num n (skip_ws q))
           | None \<Rightarrow> map_option (Pair [v]) (expect 93 r)))"
| "parse_members num 0 acc s = None"
| "parse_members num (Suc n) acc s =
     (case parse_key s of
        None \<Rightarrow> None
      | Some (k, r) \<Rightarrow>
          (case parse_value num n r of
             None \<Rightarrow> None
           | Some (v, r') \<Rightarrow>
               (case expect 44 r' of
                  Some q \<Rightarrow> parse_members num n (oset acc k v) (skip_ws q)
                | None \<Rightarrow> map_option (Pair (oset acc k v)) (expect 125 r'))))"

definition JSON_parse :: "(string \<Rightarrow> jnum) \<Rightarrow> string \<Rightarrow> js option" where
  "JSON_parse num s =
     (case parse_value num (2 * length s + 2) (skip_ws s) of
        Some (v, r) \<Rightarrow> if skip_ws r = [] then Some v else None
      | None \<Rightarrow> None)"

text \<open>\<open>JSON.stringify\<close>, which gives \<open>undefined\<close> for \<open>undefined\<close>.\<close>

definition JSON_stringify :: "js \<Rightarrow> string option" where
  "JSON_stringify v = (if v = JUndef then None else Some (json_text v))"

subsection \<open>Every parse consumes input, and the fuel is enough\<close>

lemma skip_ws_length: "length (skip_ws s) \<le> length s"
  by (simp add: skip_ws_def length_dropWhile_le)

lemma expect_length: "expect u s = Some r \<Longrightarrow> length r < length s"
  using skip_ws_length [of s] by (auto simp: expect_def split: list.splits if_splits)

lemma cons_char_Some: "cons_char c p = Some (t, r) \<longleftrightarrow> (\<exists>t'. p = Some (t', r) \<and> t = c # t')"
  by (cases p) (auto simp: cons_char_def)

lemma parse_chars_length: "parse_chars s = Some (t, r) \<Longrightarrow> length r < length s"
  by (induction s arbitrary: t r rule: parse_chars.induct)
    (auto simp: cons_char_Some split: if_splits list.splits option.splits intro: less_SucI,
     fastforce+)

lemma parse_int_length: "parse_int s = Some (t, r) \<Longrightarrow> length r < length s"
  by (auto simp: parse_int_def length_dropWhile_le less_Suc_eq_le split: list.splits if_splits)

lemma parse_frac_length: "parse_frac s = Some (t, r) \<Longrightarrow> length r \<le> length s"
  by (auto simp: parse_frac_def length_dropWhile_le le_SucI split: list.splits if_splits)

lemma parse_exp_digits_length: "parse_exp_digits s = Some (t, r) \<Longrightarrow> length r \<le> length s"
  by (auto simp: parse_exp_digits_def length_dropWhile_le le_SucI split: list.splits if_splits)

lemma parse_exp_length: "parse_exp s = Some (t, r) \<Longrightarrow> length r \<le> length s"
  by (auto simp: parse_exp_def apfst_def map_prod_def le_SucI dest!: parse_exp_digits_length
      split: list.splits if_splits)

lemma parse_number_length: "parse_number s = Some (t, r) \<Longrightarrow> length r < length s"
  by (fastforce simp: parse_number_def parse_unsigned_def less_SucI
      dest: parse_int_length parse_frac_length parse_exp_length
      split: list.splits if_splits option.splits)

lemma skip_ws_less: "length s < k \<Longrightarrow> length (skip_ws s) < k"
  using skip_ws_length [of s] by simp

lemma parse_key_length: "parse_key s = Some (k, r) \<Longrightarrow> length r < length s"
  by (auto simp: parse_key_def split: option.splits
      dest!: expect_length parse_chars_length intro!: skip_ws_less)

lemma literal_length:
  "startsWith s ''true'' \<Longrightarrow> length (drop 4 s) < length s"
  "startsWith s ''false'' \<Longrightarrow> length (drop 5 s) < length s"
  "startsWith s ''null'' \<Longrightarrow> length (drop 4 s) < length s"
  by (auto simp: startsWith_iff)

lemma parse_length:
  "(\<forall>s v r. parse_value num n s = Some (v, r) \<longrightarrow> length r < length s)
   \<and> (\<forall>s vs r. parse_elems num n s = Some (vs, r) \<longrightarrow> length r < length s)
   \<and> (\<forall>acc s o' r. parse_members num n acc s = Some (o', r) \<longrightarrow> length r < length s)"
proof (induction n)
  case (Suc n)
  then have v: "\<And>s v r. parse_value num n s = Some (v, r) \<Longrightarrow> length r < length s"
    and e: "\<And>s vs r. parse_elems num n s = Some (vs, r) \<Longrightarrow> length r < length s"
    and m: "\<And>acc s o' r. parse_members num n acc s = Some (o', r) \<Longrightarrow> length r < length s"
    by blast+
  show ?case
  proof (intro conjI allI impI)
    fix s :: string and x r
    assume p: "parse_value num (Suc n) s = Some (x, r)"
    show "length r < length s"
    proof (cases s)
      case (Cons c t)
      have e': "length r < Suc (length t)" if "parse_elems num n (skip_ws t) = Some (vs, r)" for vs
        using e [OF that] skip_ws_length [of t] by simp
      have m': "length r < Suc (length t)" if "parse_members num n [] (skip_ws t) = Some (o', r)" for o'
        using m [OF that] skip_ws_length [of t] by simp
      have l: "length r < Suc (length t)" if "parse_chars t = Some (y, r)" for y
        using parse_chars_length [OF that] by simp
      have l': "length r < Suc (length t)" if "expect u t = Some r" for u
        using expect_length [OF that] by simp
      have n': "length r < Suc (length t)" if "parse_number (c # t) = Some (y, r)" for y
        using parse_number_length [OF that] by simp
      show ?thesis
        using p literal_length [of s] unfolding Cons
        by (auto split: if_splits option.splits simp del: length_drop elim: e' m' l l' n')
    qed (use p in simp)
  next
    fix s vs r
    assume p: "parse_elems num (Suc n) s = Some (vs, r)"
    then obtain x q where q: "parse_value num n s = Some (x, q)" by (auto split: option.splits)
    have e': "length r < length q" if "expect 44 q = Some q'" "parse_elems num n (skip_ws q') = Some (ws, r)" for q' ws
      using expect_length [OF that(1)] e [OF that(2)] skip_ws_length [of q'] by simp
    show "length r < length s"
      using p v [OF q] by (auto simp: q split: option.splits dest!: e' dest: expect_length)
  next
    fix acc s o' r
    assume p: "parse_members num (Suc n) acc s = Some (o', r)"
    then obtain k r' x q where k: "parse_key s = Some (k, r')" and q: "parse_value num n r' = Some (x, q)"
      by (auto split: option.splits)
    have m': "length r < length q" if "expect 44 q = Some q'" "parse_members num n a (skip_ws q') = Some (ws, r)" for q' a ws
      using expect_length [OF that(1)] m [OF that(2)] skip_ws_length [of q'] by simp
    show "length r < length s"
      using p v [OF q] parse_key_length [OF k]
      by (auto simp: k q split: option.splits dest!: m' dest: expect_length)
  qed
qed simp

lemma parse_value_length: "parse_value num n s = Some (v, r) \<Longrightarrow> length r < length s"
  using parse_length by blast

lemma parse_fuel:
  "(\<forall>s m. 2 * length s + 1 \<le> n \<longrightarrow> 2 * length s + 1 \<le> m \<longrightarrow> parse_value num n s = parse_value num m s)
   \<and> (\<forall>s m. 2 * length s + 2 \<le> n \<longrightarrow> 2 * length s + 2 \<le> m \<longrightarrow> parse_elems num n s = parse_elems num m s)
   \<and> (\<forall>acc s m. 2 * length s + 2 \<le> n \<longrightarrow> 2 * length s + 2 \<le> m \<longrightarrow>
        parse_members num n acc s = parse_members num m acc s)"
proof (induction n)
  case (Suc n)
  then have v: "\<And>s m. 2 * length s + 1 \<le> n \<Longrightarrow> 2 * length s + 1 \<le> m \<Longrightarrow> parse_value num n s = parse_value num m s"
    and e: "\<And>s m. 2 * length s + 2 \<le> n \<Longrightarrow> 2 * length s + 2 \<le> m \<Longrightarrow> parse_elems num n s = parse_elems num m s"
    and o: "\<And>acc s m. 2 * length s + 2 \<le> n \<Longrightarrow> 2 * length s + 2 \<le> m \<Longrightarrow>
        parse_members num n acc s = parse_members num m acc s"
    by blast+
  show ?case
  proof (intro conjI allI impI)
    fix s :: string and m
    assume b: "2 * length s + 1 \<le> Suc n" "2 * length s + 1 \<le> m"
    then obtain m' where m: "m = Suc m'" by (cases m) auto
    show "parse_value num (Suc n) s = parse_value num m s"
    proof (cases s)
      case (Cons c r)
      then show ?thesis
        using b m e [of "skip_ws r" m'] o [of "skip_ws r" m'] skip_ws_length [of r] by (simp split: option.split)
    qed (simp add: m)
  next
    fix s :: string and m
    assume b: "2 * length s + 2 \<le> Suc n" "2 * length s + 2 \<le> m"
    then obtain m' where m: "m = Suc m'" by (cases m) auto
    have "parse_elems num n (skip_ws q) = parse_elems num m' (skip_ws q)"
      if "parse_value num m' s = Some (x, r)" "expect 44 r = Some q" for x r q
      using that b m parse_value_length [OF that(1)] expect_length [OF that(2)] skip_ws_length [of q]
      by (intro e) simp_all
    then show "parse_elems num (Suc n) s = parse_elems num m s"
      using b m v [of s m'] by (auto split: option.splits)
  next
    fix acc and s :: string and m
    assume b: "2 * length s + 2 \<le> Suc n" "2 * length s + 2 \<le> m"
    then obtain m' where m: "m = Suc m'" by (cases m) auto
    have v': "parse_value num n r = parse_value num m' r" if "parse_key s = Some (k, r)" for k r
      using that b m parse_key_length [OF that] by (intro v) simp_all
    have o': "parse_members num n a (skip_ws q) = parse_members num m' a (skip_ws q)"
      if "parse_key s = Some (k, r)" "parse_value num m' r = Some (x, r')" "expect 44 r' = Some q" for k r x r' q a
      using that b m parse_key_length [OF that(1)] parse_value_length [OF that(2)] expect_length [OF that(3)]
        skip_ws_length [of q]
      by (intro o) simp_all
    show "parse_members num (Suc n) acc s = parse_members num m acc s"
      using m by (auto simp: v' o' split: option.splits)
  qed
qed simp

subsection \<open>Parsing what was printed\<close>

fun json_value :: "(string \<Rightarrow> jnum) \<Rightarrow> js \<Rightarrow> bool" where
  "json_value num JUndef = False"
| "json_value num JNull = True"
| "json_value num (JBool b) = True"
| "json_value num (JNum (NInt n)) = (num (show_int n) = NInt n)"
| "json_value num (JNum (NFrac t)) = (parse_number t = Some (t, []) \<and> num t = NFrac t)"
| "json_value num (JNum _) = False"
| "json_value num (JStr s) = True"
| "json_value num (JArr vs) = list_all (json_value num) vs"
| "json_value num (JObj o') = (owf o' \<and> list_all (\<lambda>p. json_value num (snd p)) o')"

text \<open>What may follow a number literal without becoming part of it.\<close>

definition delimited :: "string \<Rightarrow> bool" where
  "delimited rest =
     (case rest of [] \<Rightarrow> True | c # _ \<Rightarrow> \<not> is_digit c \<and> c \<noteq> CHR ''.'' \<and> c \<noteq> CHR ''e'' \<and> c \<noteq> CHR ''E'')"

lemma code_char_of [simp]: "n < 256 \<Longrightarrow> code (char_of n) = n"
  by (simp add: code_def)

lemmas char_literal = char_of_def bit_Suc_0_iff

lemma hex_value_digit: "n < 16 \<Longrightarrow> hex_value (hex_digit n) = Some n"
  by (auto simp: hex_value_def hex_digit_def is_digit_def)

lemma parse_short_escape:
  assumes "u = 34 \<or> u = 92 \<or> u = 8 \<or> u = 9 \<or> u = 10 \<or> u = 12 \<or> u = 13"
  shows "parse_chars (json_unit u @ rest) = cons_char (char_of u) (parse_chars rest)"
  using assms by (elim disjE; simp add: json_unit_def escape_char_def char_literal code_def)

lemma parse_long_escape:
  assumes "u < 32" "u \<notin> {8, 9, 10, 12, 13}"
  shows "parse_chars (json_unit u @ rest) = cons_char (char_of u) (parse_chars rest)"
proof -
  have j: "json_unit u = [char_of (92::nat), CHR ''u'', hex_digit 0, hex_digit 0, hex_digit (u div 16), hex_digit (u mod 16)]"
    using assms by (simp add: json_unit_def)
  have "hex4 (hex_digit 0) (hex_digit 0) (hex_digit (u div 16)) (hex_digit (u mod 16)) = Some u"
    using assms by (simp add: hex4_def hex_value_digit)
  with assms show ?thesis by (simp add: j)
qed

lemma parse_unit: "u < 256 \<Longrightarrow> parse_chars (json_unit u @ rest) = cons_char (char_of u) (parse_chars rest)"
proof -
  assume u: "u < 256"
  have "parse_chars (json_unit u @ rest) = cons_char (char_of u) (parse_chars rest)"
    if "32 \<le> u" "u \<noteq> 34" "u \<noteq> 92"
    using that u by (simp add: json_unit_def)
  then show ?thesis
    using parse_short_escape [of u rest] parse_long_escape [of u rest] by fastforce
qed

lemma code_lt [simp]: "code c < 256"
  by (simp add: code_def)

lemma char_of_code [simp]: "char_of (code c) = c"
  by (simp add: code_def)

lemma parse_chars_printed:
  "parse_chars (concat (map json_unit (units s)) @ CHR 0x22 # rest) = Some (s, rest)"
proof (induction s)
  case (Cons c s)
  then show ?case
    by (simp add: units_def parse_unit cons_char_def)
qed (simp add: units_def code_def)

lemma json_string_append: "json_string us @ rest = CHR 0x22 # concat (map json_unit us) @ CHR 0x22 # rest"
  by (simp add: json_string_def char_literal)

lemma takeWhile_delimited: "delimited rest \<Longrightarrow> takeWhile is_digit (s @ rest) = takeWhile is_digit s"
  and dropWhile_delimited: "delimited rest \<Longrightarrow> dropWhile is_digit (s @ rest) = dropWhile is_digit s @ rest"
  by (induction s) (auto simp: delimited_def split: list.splits)

lemma parse_int_append:
  "parse_int s = Some (t, r) \<Longrightarrow> delimited rest \<Longrightarrow> parse_int (s @ rest) = Some (t, r @ rest)"
  by (auto simp: parse_int_def takeWhile_delimited dropWhile_delimited split: list.splits if_splits)

lemma parse_frac_append:
  "parse_frac s = Some (t, r) \<Longrightarrow> delimited rest \<Longrightarrow> parse_frac (s @ rest) = Some (t, r @ rest)"
  by (auto simp: parse_frac_def takeWhile_delimited dropWhile_delimited delimited_def split: list.splits if_splits)

lemma parse_exp_digits_append:
  "parse_exp_digits s = Some (t, r) \<Longrightarrow> delimited rest \<Longrightarrow> parse_exp_digits (s @ rest) = Some (t, r @ rest)"
  by (auto simp: parse_exp_digits_def takeWhile_delimited dropWhile_delimited split: list.splits if_splits)

lemma parse_exp_append:
  "parse_exp s = Some (t, r) \<Longrightarrow> delimited rest \<Longrightarrow> parse_exp (s @ rest) = Some (t, r @ rest)"
  by (auto simp: parse_exp_def parse_exp_digits_append delimited_def split: list.splits if_splits)

lemma parse_unsigned_append:
  assumes "parse_unsigned s = Some (t, r)" "delimited rest"
  shows "parse_unsigned (s @ rest) = Some (t, r @ rest)"
proof -
  obtain i q f q' e where p: "parse_int s = Some (i, q)" "parse_frac q = Some (f, q')" "parse_exp q' = Some (e, r)"
    and t: "t = i @ f @ e"
    using assms(1) by (auto simp: parse_unsigned_def split: option.splits)
  show ?thesis
    using parse_int_append [OF p(1) assms(2)] parse_frac_append [OF p(2) assms(2)]
      parse_exp_append [OF p(3) assms(2)]
    by (simp add: parse_unsigned_def t)
qed

lemma parse_number_append:
  assumes "parse_number s = Some (t, r)" "delimited rest"
  shows "parse_number (s @ rest) = Some (t, r @ rest)"
proof (cases s)
  case (Cons c q)
  show ?thesis
  proof (cases "c = CHR ''-''")
    case True
    then obtain t' where "parse_unsigned q = Some (t', r)" "t = c # t'"
      using assms(1) Cons by (auto simp: parse_number_def)
    then show ?thesis
      using parse_unsigned_append [OF _ assms(2)] True Cons by (simp add: parse_number_def)
  next
    case False
    then have "parse_unsigned s = Some (t, r)" using assms(1) Cons by (simp add: parse_number_def)
    then have "parse_unsigned (s @ rest) = Some (t, r @ rest)"
      by (rule parse_unsigned_append [OF _ assms(2)])
    then show ?thesis using False Cons by (simp add: parse_number_def)
  qed
qed (use assms in \<open>simp add: parse_number_def\<close>)

lemma digit_char: "n < 10 \<Longrightarrow> is_digit (char_of (48 + n :: nat))"
  by (simp add: is_digit_def)

lemma digits_all: "list_all is_digit (digits n)"
  by (induction n rule: digits.induct) (subst digits.simps, auto simp: digit_char)

lemma digits_no_leading_zero: "0 < n \<Longrightarrow> hd (digits n) \<noteq> CHR ''0''"
proof (induction n rule: digits.induct)
  case (1 n)
  have z: "char_of (48 + n) \<noteq> CHR ''0''" if "n < 10" "0 < n"
  proof
    assume "char_of (48 + n) = CHR ''0''"
    then have "code (char_of (48 + n)) = code (CHR ''0'')" by simp
    with that show False by (simp add: code_def)
  qed
  show ?case
    using 1 z by (subst digits.simps) (auto simp: hd_append)
qed

lemma parse_int_digits: "parse_int (digits n) = Some (digits n, [])"
proof (cases "n = 0")
  case True
  then show ?thesis by (simp add: digits.simps [of 0] parse_int_def char_literal)
next
  case False
  obtain c r where d: "digits n = c # r" by (cases "digits n") auto
  have "c \<noteq> CHR ''0''" using digits_no_leading_zero [of n] False d by simp
  moreover have "list_all is_digit (c # r)" using digits_all [of n] d by simp
  ultimately show ?thesis
    by (simp add: d parse_int_def list_all_iff)
qed

lemma parse_number_show_int: "parse_number (show_int n) = Some (show_int n, [])"
proof -
  obtain c r where d: "digits (nat n) = c # r" by (cases "digits (nat n)") auto
  have "is_digit c" using digits_all [of "nat n"] d by simp
  then have "c \<noteq> CHR ''-''" by (auto simp: is_digit_def code_def)
  moreover have "parse_unsigned (digits k) = Some (digits k, [])" for k
    by (simp add: parse_unsigned_def parse_int_digits parse_frac_def parse_exp_def)
  ultimately show ?thesis
    by (auto simp: show_int_def parse_number_def split: list.splits dest: sym [of "digits _"])
      (metis d list.inject)
qed

lemma printed_head:
  assumes "json_value num v"
  obtains c r where "json_text v = c # r" "\<not> is_ws c" "code c \<noteq> 93" "code c \<noteq> 125"
proof -
  have n: "\<exists>c r. t = c # r \<and> \<not> is_ws c \<and> code c \<noteq> 93 \<and> code c \<noteq> 125" if "parse_number t = Some (t, [])" for t
    using that
    by (auto simp: parse_number_def parse_unsigned_def parse_int_def is_ws_def is_digit_def code_def
        split: list.splits if_splits option.splits)
  from assms have "\<exists>c r. json_text v = c # r \<and> \<not> is_ws c \<and> code c \<noteq> 93 \<and> code c \<noteq> 125"
  proof (cases v)
    case (JNum x)
    with assms show ?thesis
      using n [OF parse_number_show_int] n by (cases x) simp_all
  qed (use assms in \<open>auto simp: is_ws_def json_string_def code_def\<close>)
  with that show thesis by blast
qed

lemma skip_ws_printed: "json_value num v \<Longrightarrow> skip_ws (json_text v @ rest) = json_text v @ rest"
  by (erule printed_head) (simp add: skip_ws_def)

lemma expect_hit: "\<not> is_ws c \<Longrightarrow> expect u (c # r) = (if code c = u then Some r else None)"
  by (simp add: expect_def skip_ws_def)

lemma expect_printed: "json_value num v \<Longrightarrow> expect 93 (json_text v @ rest) = None"
  by (erule printed_head) (simp add: expect_hit)

lemma punctuation [simp]:
  "\<not> is_ws CHR '',''" "\<not> is_ws CHR '':''" "\<not> is_ws CHR '']''" "\<not> is_ws CHR ''}''" "\<not> is_ws CHR 0x22"
  "code CHR '','' = 44" "code CHR '':'' = 58" "code CHR '']'' = 93" "code CHR ''}'' = 125" "code CHR 0x22 = 34"
  by (simp_all add: is_ws_def code_def)

lemma delimited_punctuation [simp]:
  "delimited (CHR '','' # r)" "delimited (CHR '']'' # r)" "delimited (CHR ''}'' # r)"
  by (simp_all add: delimited_def is_digit_def code_def)

text \<open>A text parses to a value, whatever delimited text follows, once the fuel is large enough.\<close>

definition parses :: "(string \<Rightarrow> jnum) \<Rightarrow> string \<Rightarrow> js \<Rightarrow> bool" where
  "parses num t v \<longleftrightarrow>
     (\<forall>rest. delimited rest \<longrightarrow> (\<exists>m. \<forall>n \<ge> m. parse_value num n (t @ rest) = Some (v, rest)))"

lemma parses_elems:
  assumes "vs \<noteq> []" "\<forall>v \<in> set vs. json_value num v \<and> parses num (json_text v) v"
  shows "\<exists>m. \<forall>n \<ge> m. parse_elems num n (join '','' (map json_text vs) @ '']'' @ rest) = Some (vs, rest)"
  using assms
proof (induction vs)
  case (Cons v vs)
  let ?tail = "if vs = [] then '']'' @ rest else '','' @ join '','' (map json_text vs) @ '']'' @ rest"
  have split: "join '','' (map json_text (v # vs)) @ '']'' @ rest = json_text v @ ?tail"
    by (cases vs) auto
  have "delimited ?tail" by auto
  then obtain m where m: "\<And>n. m \<le> n \<Longrightarrow> parse_value num n (json_text v @ ?tail) = Some (v, ?tail)"
    using Cons.prems(2) unfolding parses_def by (meson list.set_intros(1))
  show ?case
  proof (cases "vs = []")
    case True
    have "parse_elems num n (json_text v @ ?tail) = Some ([v], rest)" if "Suc m \<le> n" for n
      using that m [of "n - 1"] True by (cases n) (auto simp: expect_hit)
    with True show ?thesis unfolding split by blast
  next
    case False
    then obtain m' where m': "\<And>n. m' \<le> n \<Longrightarrow>
        parse_elems num n (join '','' (map json_text vs) @ '']'' @ rest) = Some (vs, rest)"
      using Cons by auto
    obtain w ws where vs: "vs = w # ws" using False by (cases vs) auto
    have "skip_ws (join '','' (map json_text vs) @ '']'' @ rest) = join '','' (map json_text vs) @ '']'' @ rest"
      using skip_ws_printed [of num w] Cons.prems(2) by (cases ws) (auto simp: vs)
    then have "parse_elems num n (json_text v @ ?tail) = Some (v # vs, rest)" if "Suc (max m m') \<le> n" for n
      using that m [of "n - 1"] m' [of "n - 1"] False by (cases n) (auto simp: expect_hit)
    then show ?thesis unfolding split by blast
  qed
qed simp

definition member_text :: "string \<times> js \<Rightarrow> string" where
  "member_text p = json_string (units (fst p)) @ '':'' @ json_text (snd p)"

lemma member_text_key:
  "json_value num v \<Longrightarrow> parse_key (member_text (k, v) @ rest) = Some (k, json_text v @ rest)"
  by (simp add: parse_key_def member_text_def json_string_append expect_hit parse_chars_printed skip_ws_printed)

lemma parses_members:
  assumes "o' \<noteq> []" "\<forall>p \<in> set o'. json_value num (snd p) \<and> parses num (json_text (snd p)) (snd p)"
    "distinct (okeys acc @ okeys o')"
  shows "\<exists>m. \<forall>n \<ge> m. parse_members num n acc (join '','' (map member_text o') @ ''}'' @ rest) = Some (acc @ o', rest)"
  using assms
proof (induction o' arbitrary: acc)
  case (Cons p o')
  obtain k v where p: "p = (k, v)" by (cases p)
  let ?tail = "if o' = [] then ''}'' @ rest else '','' @ join '','' (map member_text o') @ ''}'' @ rest"
  have split: "join '','' (map member_text (p # o')) @ ''}'' @ rest = member_text (k, v) @ ?tail"
    by (cases o') (auto simp: p)
  have v: "json_value num v" and "parses num (json_text v) v" using Cons.prems(2) p by auto
  moreover have "delimited ?tail" by auto
  ultimately obtain m where m: "\<And>n. m \<le> n \<Longrightarrow> parse_value num n (json_text v @ ?tail) = Some (v, ?tail)"
    unfolding parses_def by meson
  have acc: "oset acc k v = acc @ [(k, v)]"
    using Cons.prems(3) p by (induction acc) (auto simp: okeys_def)
  note key = member_text_key [OF v]
  show ?case
  proof (cases "o' = []")
    case True
    have "parse_members num n acc (member_text (k, v) @ ?tail) = Some (acc @ [(k, v)], rest)" if "Suc m \<le> n" for n
      using that m [of "n - 1"] True by (cases n) (auto simp: expect_hit key acc)
    with True p show ?thesis unfolding split by blast
  next
    case False
    have "distinct (okeys (acc @ [(k, v)]) @ okeys o')"
      using Cons.prems(3) by (auto simp: okeys_def p)
    then obtain m' where m': "\<And>n. m' \<le> n \<Longrightarrow>
        parse_members num n (acc @ [(k, v)]) (join '','' (map member_text o') @ ''}'' @ rest)
        = Some ((acc @ [(k, v)]) @ o', rest)"
      using Cons.IH [of "acc @ [(k, v)]"] Cons.prems(2) False by auto
    obtain w ws where o': "o' = w # ws" using False by (cases o') auto
    have "skip_ws (join '','' (map member_text o') @ ''}'' @ rest) = join '','' (map member_text o') @ ''}'' @ rest"
      by (cases ws) (auto simp: o' member_text_def json_string_append skip_ws_def)
    then have "parse_members num n acc (member_text (k, v) @ ?tail) = Some (acc @ p # o', rest)"
      if "Suc (max m m') \<le> n" for n
      using that m [of "n - 1"] m' [of "n - 1"] False p by (cases n) (auto simp: expect_hit key acc)
    then show ?thesis unfolding split by blast
  qed
qed simp

lemma parsesI: "(\<And>rest n. delimited rest \<Longrightarrow> parse_value num (Suc n) (t @ rest) = Some (v, rest)) \<Longrightarrow> parses num t v"
  unfolding parses_def by (metis Suc_le_D)

lemma parses_number:
  assumes "parse_number t = Some (t, [])" "num t = x"
  shows "parses num t (JNum x)"
proof (rule parsesI)
  fix rest n assume d: "delimited rest"
  obtain c r where t: "t = c # r" and c: "is_digit c \<or> c = CHR ''-''"
    using assms(1)
    by (auto simp: parse_number_def parse_unsigned_def parse_int_def is_digit_def code_def
        split: list.splits if_splits option.splits)
  have "parse_number (t @ rest) = Some (t, rest)"
    using parse_number_append [OF assms(1) d] by simp
  moreover have "code c \<noteq> 34" "c \<noteq> CHR ''[''" "c \<noteq> CHR ''{''" "c \<noteq> CHR ''t''" "c \<noteq> CHR ''f''" "c \<noteq> CHR ''n''"
    using c by (auto simp: is_digit_def code_def)
  ultimately show "parse_value num (Suc n) (t @ rest) = Some (JNum x, rest)"
    by (simp add: t startsWith_def assms(2) [symmetric])
qed

lemma parses_array:
  assumes "\<forall>v \<in> set vs. json_value num v \<and> parses num (json_text v) v"
  shows "parses num (json_text (JArr vs)) (JArr vs)"
proof (cases "vs = []")
  case True
  then show ?thesis by (intro parsesI) (simp add: expect_hit code_def)
next
  case False
  show ?thesis unfolding parses_def
  proof (intro allI impI)
    fix rest
    let ?t = "join '','' (map json_text vs) @ '']'' @ rest"
    obtain m where m: "\<And>n. m \<le> n \<Longrightarrow> parse_elems num n ?t = Some (vs, rest)"
      using parses_elems [OF False assms] by blast
    obtain w ws where vs: "vs = w # ws" using False by (cases vs) auto
    have "expect 93 ?t = None" "skip_ws ?t = ?t"
      using expect_printed [of num w] skip_ws_printed [of num w] assms by (cases ws; simp add: vs)+
    then have "parse_value num n (json_text (JArr vs) @ rest) = Some (JArr vs, rest)" if "Suc m \<le> n" for n
      using that m [of "n - 1"] by (cases n) (auto simp: code_def)
    then show "\<exists>m. \<forall>n \<ge> m. parse_value num n (json_text (JArr vs) @ rest) = Some (JArr vs, rest)" by blast
  qed
qed

lemma parses_object:
  assumes "\<forall>p \<in> set o'. json_value num (snd p) \<and> parses num (json_text (snd p)) (snd p)" "owf o'"
  shows "parses num (json_text (JObj o')) (JObj o')"
proof (cases "o' = []")
  case True
  then show ?thesis by (intro parsesI) (simp add: expect_hit code_def)
next
  case False
  have "filter (\<lambda>p. snd p \<noteq> JUndef) o' = o'"
    using assms(1) by (intro filter_True) auto
  then have t: "json_text (JObj o') = ''{'' @ join '','' (map member_text o') @ ''}''"
    by (simp add: member_text_def [abs_def])
  show ?thesis unfolding parses_def
  proof (intro allI impI)
    fix rest
    let ?t = "join '','' (map member_text o') @ ''}'' @ rest"
    obtain m where m: "\<And>n. m \<le> n \<Longrightarrow> parse_members num n [] ?t = Some (o', rest)"
      using parses_members [OF False assms(1), of "[]"] assms(2) by (auto simp: owf_def okeys_def)
    obtain w ws where o': "o' = w # ws" using False by (cases o') auto
    have "expect 125 ?t = None" "skip_ws ?t = ?t"
      by (cases ws; simp add: o' member_text_def json_string_append expect_def skip_ws_def)+
    then have "parse_value num n (json_text (JObj o') @ rest) = Some (JObj o', rest)" if "Suc m \<le> n" for n
      unfolding t using that m [of "n - 1"] by (cases n) (auto simp: code_def)
    then show "\<exists>m. \<forall>n \<ge> m. parse_value num n (json_text (JObj o') @ rest) = Some (JObj o', rest)" by blast
  qed
qed

lemma parses_printed: "json_value num v \<Longrightarrow> parses num (json_text v) v"
proof (induction v)
  case (JBool b)
  show ?case by (intro parsesI) (simp add: startsWith_def code_def)
next
  case JNull
  show ?case by (intro parsesI) (simp add: startsWith_def code_def)
next
  case (JNum x)
  then show ?case
    by (cases x) (auto intro: parses_number simp: parse_number_show_int)
next
  case (JStr s)
  show ?case by (intro parsesI) (simp add: json_string_append parse_chars_printed)
next
  case (JArr vs)
  then show ?case by (intro parses_array) (auto simp: list_all_iff)
next
  case (JObj o')
  then show ?case by (intro parses_object) (auto simp: list_all_iff)
qed simp

theorem json_roundtrip:
  assumes "json_value num v"
  shows "JSON_parse num (json_text v) = Some v"
proof -
  let ?t = "json_text v"
  obtain m where m: "\<And>n. m \<le> n \<Longrightarrow> parse_value num n ?t = Some (v, [])"
    using parses_printed [OF assms, unfolded parses_def, rule_format, of "[]"]
    by (auto simp: delimited_def)
  have "parse_value num (2 * length ?t + 2) ?t = parse_value num (max m (2 * length ?t + 2)) ?t"
    using parse_fuel [of "2 * length ?t + 2" num] by simp
  then show ?thesis
    using m [of "max m (2 * length ?t + 2)"] skip_ws_printed [OF assms, of "[]"]
    by (simp add: JSON_parse_def skip_ws_def)
qed

lemma json_text_injective:
  "json_value num v \<Longrightarrow> json_value num w \<Longrightarrow> json_text v = json_text w \<Longrightarrow> v = w"
  by (metis json_roundtrip option.inject)

text \<open>A pair of strings is recovered from its text: the encoding the cache keys rely on.\<close>

lemma json_pair_injective:
  "json_text (JArr [JStr a, JStr b]) = json_text (JArr [JStr c, JStr d]) \<Longrightarrow> a = c \<and> b = d"
  by (drule json_text_injective [of "\<lambda>_. NNaN", rotated 2]) simp_all

text \<open>A printed text holds no control character: it fits on one line.\<close>

lemma json_unit_printable: "u < 256 \<Longrightarrow> c \<in> set (json_unit u) \<Longrightarrow> 32 \<le> code c"
  by (auto simp: json_unit_def hex_digit_def code_def split: if_splits)

lemma json_string_printable: "c \<in> set (json_string (units s)) \<Longrightarrow> 32 \<le> code c"
  by (auto simp: json_string_def units_def dest: json_unit_printable [OF code_lt])

lemma set_join: "c \<in> set (join sep xs) \<Longrightarrow> c \<in> set sep \<or> (\<exists>x \<in> set xs. c \<in> set x)"
  by (induction sep xs rule: join.induct) auto

lemma digits_printable: "c \<in> set (digits n) \<Longrightarrow> 32 \<le> code c"
  using digits_all [of n] by (auto simp: list_all_iff is_digit_def)

lemma number_printable: "parse_number s = Some (t, r) \<Longrightarrow> c \<in> set t \<Longrightarrow> 32 \<le> code c"
proof -
  have d: "32 \<le> code c" if "c \<in> set (takeWhile is_digit s)" for c s
    using set_takeWhileD [OF that] by (auto simp: is_digit_def)
  have i: "32 \<le> code c" if "parse_int s = Some (t, r)" "c \<in> set t" for c s t r
    using that d by (auto simp: parse_int_def is_digit_def code_def [of "CHR ''0''"] split: list.splits if_splits)
  have f: "32 \<le> code c" if "parse_frac s = Some (t, r)" "c \<in> set t" for c s t r
    using that d by (auto simp: parse_frac_def code_def [of "CHR ''.''"] split: list.splits if_splits)
  have x: "32 \<le> code c" if "parse_exp_digits s = Some (t, r)" "c \<in> set t" for c s t r
    using that d
    by (auto simp: parse_exp_digits_def is_digit_def code_def [of "CHR ''+''"] code_def [of "CHR ''-''"]
        split: list.splits if_splits)
  have e: "32 \<le> code c" if "parse_exp s = Some (t, r)" "c \<in> set t" for c s t r
    using that x
    by (auto simp: parse_exp_def code_def [of "CHR ''e''"] code_def [of "CHR ''E''"] split: list.splits if_splits)
  have u: "32 \<le> code c" if "parse_unsigned s = Some (t, r)" "c \<in> set t" for c s t r
    using that i f e by (auto simp: parse_unsigned_def split: option.splits)
  show "parse_number s = Some (t, r) \<Longrightarrow> c \<in> set t \<Longrightarrow> 32 \<le> code c"
    using u by (auto simp: parse_number_def code_def [of "CHR ''-''"] split: list.splits if_splits)
qed

lemma json_text_printable: "json_value num v \<Longrightarrow> c \<in> set (json_text v) \<Longrightarrow> 32 \<le> code c"
proof (induction v)
  case (JNum x)
  then show ?case
    by (cases x) (auto simp: show_int_def code_def [of "CHR ''-''"] dest: digits_printable number_printable split: if_splits)
next
  case (JStr s)
  then show ?case using json_string_printable by simp
next
  case (JArr vs)
  show ?case
  proof (cases "c = CHR ''['' \<or> c = CHR '']'' \<or> c = CHR '',''")
    case True
    then show ?thesis by (auto simp: code_def)
  next
    case False
    then obtain v where "v \<in> set vs" "c \<in> set (json_text v)"
      using JArr.prems(2) by (auto dest!: set_join)
    then show ?thesis using JArr by (auto simp: list_all_iff)
  qed
next
  case (JObj o')
  show ?case
  proof (cases "c = CHR ''{'' \<or> c = CHR ''}'' \<or> c = CHR '','' \<or> c = CHR '':''")
    case True
    then show ?thesis by (auto simp: code_def)
  next
    case False
    then obtain p where p: "p \<in> set o'" "c \<in> set (json_string (units (fst p))) \<or> c \<in> set (json_text (snd p))"
      using JObj.prems(2) by (auto dest!: set_join)
    moreover have "json_value num (snd p)" using JObj.prems(1) p(1) by (auto simp: list_all_iff)
    ultimately show ?thesis
      using JObj.IH [OF p(1), of "snd p"] json_string_printable by (cases p) (auto simp: snds.simps)
  qed
qed (auto simp: code_def split: if_splits)

end
