(* ===== verification/ProbeClassifier.thy ===== *)
theory ProbeClassifier
  imports Json Eras
begin

text \<open>
  The classifier of the connect-time \<open>server/discover\<close> probe
  (packages/client/src/client/probeClassifier.ts).

  A thrown value is the record \<open>thrown\<close> of what the code reads of it: its class tests, its
  name, its message, and the data of an \<open>SdkHttpError\<close>. The schema of a \<open>DiscoverResult\<close> is the
  argument \<open>discoverSchema\<close>, \<open>num\<close> reads the number literals of an HTTP body.
\<close>

datatype probe_environment = Node | Browser

datatype transport_kind = Stdio | Http

record http_data =
  hd_status :: int
  hd_statusText :: "string option"
  hd_text :: js

record thrown =
  th_isError :: bool
  th_name :: string
  th_description :: string
  th_authSeam :: bool
  th_unauthorized :: bool
  th_typeError :: bool
  th_sdkCode :: "sdk_error_code option"
  th_http :: "http_data option"

text \<open>What a connect rejects with: an error built here, one with a cause, or a thrown value as it came.\<close>

datatype connect_error = Raised err | CausedBy err thrown | Rethrown thrown

record rpc_error =
  re_code :: jnum
  re_message :: string
  re_data :: js

datatype probe_outcome =
    ResultOutcome js
  | RpcErrorOutcome rpc_error
  | HttpErrorOutcome int "string option" "string option"
  | NetworkErrorOutcome thrown
  | UnusableReply thrown
  | AuthRequired thrown
  | ClosedOutcome
  | TimeoutOutcome int

record probe_context =
  px_clientModernVersions :: "string list"
  px_requestedVersion :: string
  px_fallbackAvailable :: bool
  px_environment :: probe_environment
  px_transportKind :: transport_kind

datatype probe_verdict =
    ModernVerdict string obj
  | Corrective string connect_error
  | LegacyVerdict
  | ErrorVerdict connect_error

definition UNSUPPORTED_PROTOCOL_VERSION :: int where
  "UNSUPPORTED_PROTOCOL_VERSION = -32022"

definition NOT_PROBE_RECOGNIZED :: "int list" where
  "NOT_PROBE_RECOGNIZED = [-32001, -32020, -32021]"

definition parseSupportedList :: "js \<Rightarrow> string list option" where
  "parseSupportedList data =
     (case getp data ''supported'' of
        JArr vs \<Rightarrow> if vs \<noteq> [] \<and> list_all isStr vs then Some (List.map_filter str_of vs) else None
      | _ \<Rightarrow> None)"

definition parseRequested :: "js \<Rightarrow> string option" where
  "parseRequested data = str_of (getp data ''requested'')"

definition parseJsonRpcErrorBody :: "(string \<Rightarrow> jnum) \<Rightarrow> string option \<Rightarrow> rpc_error option" where
  "parseJsonRpcErrorBody num bdy =
     (case or_else bdy [] of
        [] \<Rightarrow> None
      | t \<Rightarrow>
          (case JSON_parse num t of
             None \<Rightarrow> None
           | Some parsed \<Rightarrow>
               (let e = getp parsed ''error'' in
                case getp e ''code'' of
                  JNum c \<Rightarrow> Some \<lparr>re_code = c, re_message = or_else (str_of (getp e ''message'')) [], re_data = getp e ''data''\<rparr>
                | _ \<Rightarrow> None)))"

definition isOpaqueFetchTypeError :: "thrown \<Rightarrow> bool" where
  "isOpaqueFetchTypeError e \<longleftrightarrow> th_typeError e \<or> th_isError e \<and> th_name e = ''TypeError''"

definition unsupportedError :: "string list \<Rightarrow> string \<Rightarrow> string option \<Rightarrow> connect_error" where
  "unsupportedError supported requested message =
     Raised (ProtocolErr (unsupportedProtocolVersionError (JArr (map JStr supported)) requested
       (or_else message (unsupportedVersionMessage requested))))"

definition supportedVersionsOf :: "obj \<Rightarrow> string list" where
  "supportedVersionsOf discover =
     (case oget discover ''supportedVersions'' of JArr vs \<Rightarrow> List.map_filter str_of vs | _ \<Rightarrow> [])"

definition classifyResult :: "(js \<Rightarrow> obj option) \<Rightarrow> js \<Rightarrow> probe_context \<Rightarrow> probe_verdict" where
  "classifyResult discoverSchema res px =
     (case discoverSchema res of
        None \<Rightarrow> LegacyVerdict
      | Some discover \<Rightarrow>
          (let supportedVersions = supportedVersionsOf discover in
           case List.find (\<lambda>v. v \<in> set supportedVersions) (px_clientModernVersions px) of
             Some overlap \<Rightarrow> ModernVerdict overlap discover
           | None \<Rightarrow>
               if px_fallbackAvailable px then LegacyVerdict
               else ErrorVerdict (unsupportedError supportedVersions (px_requestedVersion px) None)))"

definition classifyRpcError :: "rpc_error \<Rightarrow> probe_context \<Rightarrow> probe_verdict" where
  "classifyRpcError e px =
     (if re_code e = NInt UNSUPPORTED_PROTOCOL_VERSION then
        (case parseSupportedList (re_data e) of
           None \<Rightarrow> LegacyVerdict
         | Some supported \<Rightarrow>
             (let requested = or_else (parseRequested (re_data e)) (px_requestedVersion px);
                  er = unsupportedError supported requested (Some (re_message e));
                  supportedModern = modernProtocolVersions supported
              in case List.find (\<lambda>v. v \<in> set supportedModern) (px_clientModernVersions px) of
                   Some mutual \<Rightarrow> Corrective mutual er
                 | None \<Rightarrow>
                     if supportedModern \<noteq> [] then ErrorVerdict er
                     else if px_fallbackAvailable px then LegacyVerdict else ErrorVerdict er))
      else if re_code e \<in> NInt ` set NOT_PROBE_RECOGNIZED then LegacyVerdict
      else LegacyVerdict)"

definition httpErrorData :: "int \<Rightarrow> string option \<Rightarrow> string option \<Rightarrow> js" where
  "httpErrorData status bdy statusText =
     JObj [(''status'', JNum (NInt status)),
           (''statusText'', case statusText of None \<Rightarrow> JUndef | Some s \<Rightarrow> JStr s),
           (''text'', case bdy of None \<Rightarrow> JUndef | Some s \<Rightarrow> JStr s)]"

definition classifyHttpError ::
  "(string \<Rightarrow> jnum) \<Rightarrow> int \<Rightarrow> string option \<Rightarrow> string option \<Rightarrow> probe_context \<Rightarrow> probe_verdict" where
  "classifyHttpError num status bdy statusText px =
     (if status = 401 \<or> status = 403 then
        ErrorVerdict (Raised (SdkError
          (if status = 403 then ClientHttpForbidden else ClientHttpAuthentication)
          (''Version negotiation failed: '' @
            (if status = 403 then ''the server denied access (HTTP 403)'' else ''the server requires authorization (HTTP 401)''))
          (httpErrorData status bdy statusText)))
      else if 500 \<le> status then
        ErrorVerdict (Raised (SdkError EraNegotiationFailed
          (''Version negotiation failed: the server answered the probe with HTTP '' @ show_int status)
          (httpErrorData status bdy statusText)))
      else (case parseJsonRpcErrorBody num bdy of
              Some e \<Rightarrow> classifyRpcError e px
            | None \<Rightarrow> LegacyVerdict))"

definition classifyNetworkError :: "thrown \<Rightarrow> probe_context \<Rightarrow> probe_verdict" where
  "classifyNetworkError e px =
     (if px_environment px = Browser \<and> isOpaqueFetchTypeError e then LegacyVerdict
      else ErrorVerdict (CausedBy (SdkError EraNegotiationFailed
             (''Version negotiation probe failed: '' @ th_description e) JUndef) e))"

definition closedError :: thrown where
  "closedError = \<lparr>th_isError = True, th_name = ''Error'',
     th_description = ''Connection closed during the version negotiation probe'', th_authSeam = False,
     th_unauthorized = False, th_typeError = False, th_sdkCode = None, th_http = None\<rparr>"

fun classifyProbeOutcome ::
  "(string \<Rightarrow> jnum) \<Rightarrow> (js \<Rightarrow> obj option) \<Rightarrow> probe_outcome \<Rightarrow> probe_context \<Rightarrow> probe_verdict" where
  "classifyProbeOutcome num ds (ResultOutcome res) px = classifyResult ds res px"
| "classifyProbeOutcome num ds (RpcErrorOutcome e) px = classifyRpcError e px"
| "classifyProbeOutcome num ds (HttpErrorOutcome status bdy statusText) px =
     classifyHttpError num status bdy statusText px"
| "classifyProbeOutcome num ds (NetworkErrorOutcome e) px = classifyNetworkError e px"
| "classifyProbeOutcome num ds (UnusableReply e) px =
     ErrorVerdict (CausedBy (SdkError EraNegotiationFailed
       (''Version negotiation probe failed: the server answered with an unusable reply ('' @ th_description e @ '')'') JUndef) e)"
| "classifyProbeOutcome num ds (AuthRequired e) px = ErrorVerdict (Rethrown e)"
| "classifyProbeOutcome num ds ClosedOutcome px =
     (if px_transportKind px = Stdio then LegacyVerdict else classifyNetworkError closedError px)"
| "classifyProbeOutcome num ds (TimeoutOutcome timeoutMs) px =
     (if px_transportKind px = Stdio then LegacyVerdict
      else ErrorVerdict (Raised (SdkError RequestTimeout
        (''Version negotiation probe timed out after '' @ show_int timeoutMs @ ''ms'')
        (JObj [(''timeout'', JNum (NInt timeoutMs))]))))"

subsection \<open>What each verdict rests on\<close>

text \<open>The reply carries an actionable list of supported versions with a modern one among them.\<close>

definition modernRejection :: "rpc_error \<Rightarrow> bool" where
  "modernRejection e \<longleftrightarrow> re_code e = NInt UNSUPPORTED_PROTOCOL_VERSION
     \<and> (\<exists>supported. parseSupportedList (re_data e) = Some supported \<and> modernProtocolVersions supported \<noteq> [])"

text \<open>
  The evidence a legacy verdict needs: an answer that is not a \<open>DiscoverResult\<close> or shares no
  version, an error that names no modern version, a rejection with a client-error status, a
  closed or silent stdio child, or the opaque rejection of a browser's preflight.
\<close>

fun legacyEvidence :: "(string \<Rightarrow> jnum) \<Rightarrow> (js \<Rightarrow> obj option) \<Rightarrow> probe_context \<Rightarrow> probe_outcome \<Rightarrow> bool" where
  "legacyEvidence num ds px (ResultOutcome res) \<longleftrightarrow>
     (case ds res of None \<Rightarrow> True
      | Some d \<Rightarrow> px_fallbackAvailable px \<and> set (px_clientModernVersions px) \<inter> set (supportedVersionsOf d) = {})"
| "legacyEvidence num ds px (RpcErrorOutcome e) \<longleftrightarrow> \<not> modernRejection e"
| "legacyEvidence num ds px (HttpErrorOutcome status bdy st) \<longleftrightarrow>
     status < 500 \<and> status \<noteq> 401 \<and> status \<noteq> 403
     \<and> (\<forall>e. parseJsonRpcErrorBody num bdy = Some e \<longrightarrow> \<not> modernRejection e)"
| "legacyEvidence num ds px (NetworkErrorOutcome e) \<longleftrightarrow> px_environment px = Browser \<and> isOpaqueFetchTypeError e"
| "legacyEvidence num ds px (UnusableReply e) \<longleftrightarrow> False"
| "legacyEvidence num ds px (AuthRequired e) \<longleftrightarrow> False"
| "legacyEvidence num ds px ClosedOutcome \<longleftrightarrow> px_transportKind px = Stdio"
| "legacyEvidence num ds px (TimeoutOutcome ms) \<longleftrightarrow> px_transportKind px = Stdio"

lemma rpc_legacy:
  "classifyRpcError e px = LegacyVerdict \<Longrightarrow> \<not> modernRejection e"
  by (auto simp: classifyRpcError_def modernRejection_def Let_def split: if_splits option.splits)

lemma rpc_not_modern: "classifyRpcError e px \<noteq> ModernVerdict v d"
  by (simp add: classifyRpcError_def Let_def split: option.splits)

lemma network_cases: "classifyNetworkError e px \<noteq> ModernVerdict v d" "classifyNetworkError e px \<noteq> Corrective v x"
  "classifyNetworkError e px = LegacyVerdict \<longleftrightarrow> px_environment px = Browser \<and> isOpaqueFetchTypeError e"
  by (simp_all add: classifyNetworkError_def)

lemma closedError_opaque: "\<not> isOpaqueFetchTypeError closedError"
  by (simp add: isOpaqueFetchTypeError_def closedError_def)

lemma http_legacy:
  "classifyHttpError num status bdy st px = LegacyVerdict \<Longrightarrow> legacyEvidence num ds px (HttpErrorOutcome status bdy st)"
  by (auto simp: classifyHttpError_def dest: rpc_legacy split: if_splits option.splits)

lemma legacy_needs_evidence:
  "classifyProbeOutcome num ds outcome px = LegacyVerdict \<Longrightarrow> legacyEvidence num ds px outcome"
proof (cases outcome)
  case (ResultOutcome res)
  assume "classifyProbeOutcome num ds outcome px = LegacyVerdict"
  then show ?thesis
    using ResultOutcome
    by (auto simp: classifyResult_def Let_def find_None_iff split: option.splits if_splits)
next
  case (HttpErrorOutcome status bdy st)
  assume "classifyProbeOutcome num ds outcome px = LegacyVerdict"
  with HttpErrorOutcome http_legacy show ?thesis by simp
qed (auto simp: rpc_legacy network_cases closedError_opaque split: if_splits)

lemma modern_needs_overlap:
  "classifyProbeOutcome num ds outcome px = ModernVerdict v d \<Longrightarrow>
     \<exists>res. outcome = ResultOutcome res \<and> ds res = Some d
       \<and> v \<in> set (px_clientModernVersions px) \<and> v \<in> set (supportedVersionsOf d)"
  by (cases outcome)
    (auto simp: classifyResult_def Let_def network_cases rpc_not_modern classifyHttpError_def
      dest!: find_Some_mem split: option.splits if_splits)

lemma rpc_corrective:
  "classifyRpcError e px = Corrective v x \<Longrightarrow> v \<in> set (px_clientModernVersions px) \<and> modernRejection e"
  by (auto simp: classifyRpcError_def modernRejection_def Let_def dest!: find_Some_mem split: option.splits if_splits)

lemma corrective_offers:
  "classifyProbeOutcome num ds outcome px = Corrective v x \<Longrightarrow> v \<in> set (px_clientModernVersions px)"
  by (cases outcome)
    (auto simp: classifyResult_def Let_def network_cases classifyHttpError_def
      dest: rpc_corrective split: option.splits if_splits)

end
