(* ===== verification/VersionNegotiation.thy ===== *)
theory VersionNegotiation
  imports ProbeClassifier Guards WireCodec
begin

text \<open>
  Connect-time version negotiation (packages/client/src/client/versionNegotiation.ts): the
  resolution of the options, the probe window on a raw transport, the normalisation of its
  replies, and the probe loop.

  The environment of one exchange is the list of events its window sees, the environment of a
  negotiation gives one list for each exchange. An exchange whose events do not settle it is
  settled by its timer.
\<close>

subsection \<open>Options\<close>

datatype negotiation_mode = LegacyMode | AutoMode | PinMode string

record probe_options =
  po_timeoutMs :: "int option"
  po_maxRetries :: "int option"

record negotiation_options =
  no_mode :: "negotiation_mode option"
  no_probe :: "probe_options option"

datatype resolved_negotiation =
    ResolvedLegacy
  | ResolvedAuto "string list" bool probe_options
  | ResolvedPin string probe_options

definition DEFAULT_VERSION_NEGOTIATION_MODE :: negotiation_mode where
  "DEFAULT_VERSION_NEGOTIATION_MODE = LegacyMode"

definition notModernPin :: "string \<Rightarrow> err" where
  "notModernPin pin =
     TypeErr (''versionNegotiation: { pin: '' @ sq pin @ '' } is not a modern protocol revision''
       @ '' - pinning is for 2026-07-28 and later; omit versionNegotiation (or use mode: ''
       @ sq ''legacy'' @ '') for 2025-era servers.'')"

text \<open>The modern versions a client offers: those it lists, or all supported ones when it lists none.\<close>

definition offeredModern :: "string list option \<Rightarrow> string list" where
  "offeredModern supportedOption =
     (let explicitModern = (case supportedOption of None \<Rightarrow> [] | Some vs \<Rightarrow> modernProtocolVersions vs) in
      if explicitModern \<noteq> [] then explicitModern else SUPPORTED_MODERN_PROTOCOL_VERSIONS)"

definition resolveVersionNegotiation ::
  "negotiation_options option \<Rightarrow> string list option \<Rightarrow> err + resolved_negotiation" where
  "resolveVersionNegotiation options supportedOption =
     (let probe = or_else (Option.bind options no_probe) \<lparr>po_timeoutMs = None, po_maxRetries = None\<rparr> in
      case or_else (Option.bind options no_mode) DEFAULT_VERSION_NEGOTIATION_MODE of
        LegacyMode \<Rightarrow> Inr ResolvedLegacy
      | PinMode pin \<Rightarrow>
          if \<not> isModernProtocolVersion pin then Inl (notModernPin pin) else Inr (ResolvedPin pin probe)
      | AutoMode \<Rightarrow>
          Inr (ResolvedAuto (offeredModern supportedOption)
            (case supportedOption of None \<Rightarrow> True | Some vs \<Rightarrow> legacyProtocolVersions vs \<noteq> []) probe))"

subsection \<open>The probe window\<close>

datatype raw_reply = ResponseReply js | ErrorReply rpc_error | SendErrorReply thrown | ClosedReply | TimeoutReply

datatype window_event =
    WMessage js
  | WError thrown
  | WClose
  | WTimer
  | WSendFailed string thrown

text \<open>What the handlers the caller had set before are told during the window.\<close>

datatype forwarded = FwdError thrown | FwdClose

record probe_window =
  pw_pending :: "string option"
  pw_counter :: nat
  pw_closeDelivered :: bool

definition openWindow :: probe_window where
  "openWindow = \<lparr>pw_pending = None, pw_counter = 0, pw_closeDelivered = False\<rparr>"

definition probeId :: "nat \<Rightarrow> string" where
  "probeId n = ''server-discover-probe-'' @ show_int (int n)"

text \<open>The error member of an error response, whose schema fixes its types.\<close>

definition rpcErrorOf :: "js \<Rightarrow> rpc_error" where
  "rpcErrorOf e =
     \<lparr>re_code = (case getp e ''code'' of JNum c \<Rightarrow> c | _ \<Rightarrow> NNaN),
      re_message = or_else (str_of (getp e ''message'')) [], re_data = getp e ''data''\<rparr>"

fun windowStep :: "window_event \<Rightarrow> probe_window \<Rightarrow> probe_window \<times> raw_reply option \<times> forwarded list" where
  "windowStep (WMessage m) w =
     (case pw_pending w of
        None \<Rightarrow> (w, None, [])
      | Some i \<Rightarrow>
          if (isJSONRPCResultResponse m \<or> isJSONRPCErrorResponse m) \<and> getp m ''id'' = JStr i then
            (w\<lparr>pw_pending := None\<rparr>,
             Some (if isJSONRPCResultResponse m then ResponseReply (getp m ''result'') else ErrorReply (rpcErrorOf (getp m ''error''))),
             [])
          else (w, None, []))"
| "windowStep (WError e) w = (w, None, [FwdError e])"
| "windowStep WClose w =
     (w\<lparr>pw_pending := None, pw_closeDelivered := True\<rparr>,
      (if pw_pending w \<noteq> None then Some ClosedReply else None), [FwdClose])"
| "windowStep WTimer w =
     (if pw_pending w \<noteq> None then (w\<lparr>pw_pending := None\<rparr>, Some TimeoutReply, []) else (w, None, []))"
| "windowStep (WSendFailed i e) w =
     (if pw_pending w = Some i then (w\<lparr>pw_pending := None\<rparr>, Some (SendErrorReply e), []) else (w, None, []))"

fun awaitReply :: "window_event list \<Rightarrow> probe_window \<Rightarrow> probe_window \<times> raw_reply \<times> forwarded list" where
  "awaitReply [] w = (w\<lparr>pw_pending := None\<rparr>, TimeoutReply, [])"
| "awaitReply (ev # evs) w =
     (case windowStep ev w of
        (w', Some r, fwd) \<Rightarrow> (w', r, fwd)
      | (w', None, fwd) \<Rightarrow> (case awaitReply evs w' of (w'', r, fwd') \<Rightarrow> (w'', r, fwd @ fwd')))"

definition exchange :: "window_event list \<Rightarrow> probe_window \<Rightarrow> probe_window \<times> raw_reply \<times> forwarded list" where
  "exchange evs w =
     awaitReply evs (w\<lparr>pw_counter := Suc (pw_counter w), pw_pending := Some (probeId (Suc (pw_counter w)))\<rparr>)"

text \<open>
  Who holds the transport's close slot after the window: the caller's own handler, or the
  wrapper that skips one delivery of a close already reported. \<open>closeFires\<close> gives the new slot
  and whether the caller's handler ran.
\<close>

datatype close_slot = SavedHandler | SpentGuard bool

definition detach :: "probe_window \<Rightarrow> bool \<Rightarrow> close_slot" where
  "detach w hasSaved = (if pw_closeDelivered w \<and> hasSaved then SpentGuard False else SavedHandler)"

fun closeFires :: "close_slot \<Rightarrow> close_slot \<times> bool" where
  "closeFires SavedHandler = (SavedHandler, True)"
| "closeFires (SpentGuard spent) = (SpentGuard True, spent)"

definition disarmSpentCloseGuard :: "close_slot \<Rightarrow> close_slot" where
  "disarmSpentCloseGuard slot = SavedHandler"

subsection \<open>Replies as outcomes\<close>

definition buildProbeRequest :: "string \<Rightarrow> string \<Rightarrow> js \<Rightarrow> js \<Rightarrow> js" where
  "buildProbeRequest i protocolVersion clientInfo capabilities =
     JObj [(''jsonrpc'', JStr ''2.0''), (''id'', JStr i), (''method'', JStr ''server/discover''),
           (''params'', JObj [(''_meta'',
              if codecForVersion (Some protocolVersion) = Rev2026
              then JObj (outboundEnvelope2026 \<lparr>em_protocolVersion = protocolVersion, em_clientInfo = clientInfo,
                     em_clientCapabilities = capabilities, em_logLevel = None\<rparr>)
              else JUndef)])]"

definition isUnusableReplyError :: "thrown \<Rightarrow> bool" where
  "isUnusableReplyError e \<longleftrightarrow>
     th_sdkCode e = Some ClientHttpUnexpectedContent \<or> th_isError e \<and> th_name e = ''SyntaxError''"

definition isAuthOutcome :: "thrown \<Rightarrow> bool" where
  "isAuthOutcome e \<longleftrightarrow> th_authSeam e \<or> th_unauthorized e \<or> th_isError e \<and> th_name e = ''UnauthorizedError''"

fun normalizeReply :: "raw_reply \<Rightarrow> int \<Rightarrow> probe_outcome" where
  "normalizeReply (ResponseReply r) timeoutMs = ResultOutcome r"
| "normalizeReply (ErrorReply e) timeoutMs = RpcErrorOutcome e"
| "normalizeReply (SendErrorReply e) timeoutMs =
     (if isAuthOutcome e then AuthRequired e
      else (case th_http e of
              Some d \<Rightarrow> HttpErrorOutcome (hd_status d) (str_of (hd_text d)) (hd_statusText d)
            | None \<Rightarrow> if isUnusableReplyError e then UnusableReply e else NetworkErrorOutcome e))"
| "normalizeReply ClosedReply timeoutMs = ClosedOutcome"
| "normalizeReply TimeoutReply timeoutMs = TimeoutOutcome timeoutMs"

subsection \<open>The loop\<close>

record negotiation_deps =
  nd_clientInfo :: js
  nd_capabilities :: js
  nd_environment :: probe_environment
  nd_transportKind :: transport_kind
  nd_defaultTimeoutMs :: int
  nd_disposableProbe :: bool

datatype negotiation_result = EraModern string obj | EraLegacy

text \<open>The plan of one negotiation, resolved from a non-legacy mode.\<close>

record probe_plan =
  pp_pin :: "string option"
  pp_modernVersions :: "string list"
  pp_fallback :: bool
  pp_timeoutMs :: int
  pp_maxRetries :: nat

definition planOf :: "resolved_negotiation \<Rightarrow> negotiation_deps \<Rightarrow> probe_plan option" where
  "planOf negotiation deps =
     (let plan = (\<lambda>pin versions fallback opts. Some
            \<lparr>pp_pin = pin, pp_modernVersions = versions, pp_fallback = fallback,
             pp_timeoutMs = or_else (po_timeoutMs opts) (nd_defaultTimeoutMs deps),
             pp_maxRetries = nat (max 0 (or_else (po_maxRetries opts) 0))\<rparr>) in
      case negotiation of
        ResolvedLegacy \<Rightarrow> None
      | ResolvedAuto versions fallback opts \<Rightarrow> plan None versions fallback opts
      | ResolvedPin version opts \<Rightarrow> plan (Some version) [version] False opts)"

definition contextOf :: "probe_plan \<Rightarrow> negotiation_deps \<Rightarrow> string \<Rightarrow> probe_context" where
  "contextOf plan deps requestedVersion =
     \<lparr>px_clientModernVersions = pp_modernVersions plan, px_requestedVersion = requestedVersion,
      px_fallbackAvailable = pp_fallback plan, px_environment = nd_environment deps,
      px_transportKind = nd_transportKind deps\<rparr>"

definition negotiationFailed :: "string \<Rightarrow> connect_error" where
  "negotiationFailed reason = Raised (SdkError EraNegotiationFailed (''Version negotiation failed: '' @ reason) JUndef)"

definition closedCause :: string where
  "closedCause = ''the connection closed during the server/discover probe''"

text \<open>The \<open>legacy\<close> case of the switch.\<close>

definition legacyStep :: "probe_plan \<Rightarrow> negotiation_deps \<Rightarrow> probe_outcome \<Rightarrow> connect_error + negotiation_result" where
  "legacyStep plan deps outcome =
     (let closed = (outcome = ClosedOutcome) in
      case pp_pin plan of
        Some version \<Rightarrow>
          Inl (negotiationFailed
            (if closed then closedCause @ '' before the server offered pinned protocol version '' @ version @ '' (no fallback in pin mode)''
             else ''the server did not offer pinned protocol version '' @ version @ '' via server/discover (no fallback in pin mode)''))
      | None \<Rightarrow>
          if \<not> pp_fallback plan then
            Inl (negotiationFailed
              (if closed then closedCause @ '' and this client supports no pre-2026-07-28 protocol version to fall back to''
               else ''the server gave no modern evidence and this client supports no pre-2026-07-28 protocol version to fall back to''))
          else if closed \<and> \<not> nd_disposableProbe deps then
            Inl (negotiationFailed (closedCause
              @ '' (this transport probed in place - the disposable sibling probe requires the SDK's base StdioClientTransport)''))
          else Inr EraLegacy)"

record probe_run =
  pr_result :: "connect_error + negotiation_result"
  pr_sent :: "js list"
  pr_window :: probe_window
  pr_forwarded :: "forwarded list"

text \<open>The part of one round that does not depend on the loop's recursion: request, reply, bookkeeping.\<close>

definition sendProbe :: "negotiation_deps \<Rightarrow> (nat \<Rightarrow> window_event list) \<Rightarrow> string \<Rightarrow> probe_window
    \<Rightarrow> js \<times> probe_window \<times> raw_reply \<times> forwarded list" where
  "sendProbe deps env requestedVersion w =
     (buildProbeRequest (probeId (Suc (pw_counter w))) requestedVersion (nd_clientInfo deps) (nd_capabilities deps),
      exchange (env (pw_counter w)) w)"

definition prefixRun :: "js \<Rightarrow> forwarded list \<Rightarrow> probe_run \<Rightarrow> probe_run" where
  "prefixRun request fwd run = run\<lparr>pr_sent := request # pr_sent run, pr_forwarded := fwd @ pr_forwarded run\<rparr>"

function probeLoop ::
  "(string \<Rightarrow> jnum) \<Rightarrow> (js \<Rightarrow> obj option) \<Rightarrow> probe_plan \<Rightarrow> negotiation_deps \<Rightarrow> (nat \<Rightarrow> window_event list)
     \<Rightarrow> string \<Rightarrow> bool \<Rightarrow> nat \<Rightarrow> probe_window \<Rightarrow> probe_run" where
  "probeLoop num ds plan deps env requestedVersion correctiveUsed retries w =
     (case sendProbe deps env requestedVersion w of (request, w', reply, fwd) \<Rightarrow>
      if reply = TimeoutReply \<and> 0 < retries then
        prefixRun request fwd (probeLoop num ds plan deps env requestedVersion correctiveUsed (retries - 1) w')
      else (let outcome = normalizeReply reply (pp_timeoutMs plan);
                done = (\<lambda>r. \<lparr>pr_result = r, pr_sent = [request], pr_window = w', pr_forwarded = fwd\<rparr>) in
        case classifyProbeOutcome num ds outcome (contextOf plan deps requestedVersion) of
          ModernVerdict version discover \<Rightarrow> done (Inr (EraModern version discover))
        | Corrective version e \<Rightarrow>
            if correctiveUsed then done (Inl e)
            else prefixRun request fwd (probeLoop num ds plan deps env version True retries w')
        | LegacyVerdict \<Rightarrow> done (legacyStep plan deps outcome)
        | ErrorVerdict e \<Rightarrow> done (Inl e)))"
  by pat_completeness auto
termination probeLoop
  by (relation "measure (\<lambda>(num, ds, plan, deps, env, v, used, retries, w). retries + (if used then 0 else 1))") auto

declare probeLoop.simps [simp del]

text \<open>How the window is left: handlers restored, and on success a \<open>start()\<close> that does nothing once.\<close>

datatype window_exit = Detached | Released

record era_run =
  er_result :: "connect_error + negotiation_result"
  er_sent :: "js list"
  er_exit :: window_exit
  er_slot :: close_slot
  er_forwarded :: "forwarded list"

definition negotiateEra ::
  "(string \<Rightarrow> jnum) \<Rightarrow> (js \<Rightarrow> obj option) \<Rightarrow> probe_plan \<Rightarrow> negotiation_deps \<Rightarrow> thrown option \<Rightarrow> bool
     \<Rightarrow> (nat \<Rightarrow> window_event list) \<Rightarrow> era_run" where
  "negotiateEra num ds plan deps startError hasSaved env =
     (case startError of
        Some e \<Rightarrow> \<lparr>er_result = Inl (Rethrown e), er_sent = [], er_exit = Detached, er_slot = SavedHandler, er_forwarded = []\<rparr>
      | None \<Rightarrow>
          (let run = probeLoop num ds plan deps env (hd (pp_modernVersions plan)) False (pp_maxRetries plan) openWindow in
           \<lparr>er_result = pr_result run, er_sent = pr_sent run,
            er_exit = (case pr_result run of Inl _ \<Rightarrow> Detached | Inr _ \<Rightarrow> Released),
            er_slot = detach (pr_window run) hasSaved, er_forwarded = pr_forwarded run\<rparr>))"

text \<open>
  On the disposable sibling of a stdio transport. The caller may close the session transport
  while the sibling probes, or while it is disposed after the verdict.
\<close>

datatype caller_close = NoClose | ClosedWhileProbing | ClosedWhileDisposing

definition callerCloseAbortError :: connect_error where
  "callerCloseAbortError = negotiationFailed ''the transport was closed during the server/discover probe''"

definition negotiateStdioViaSibling ::
  "(string \<Rightarrow> jnum) \<Rightarrow> (js \<Rightarrow> obj option) \<Rightarrow> probe_plan \<Rightarrow> negotiation_deps \<Rightarrow> thrown option \<Rightarrow> caller_close
     \<Rightarrow> (nat \<Rightarrow> window_event list) \<Rightarrow> connect_error + negotiation_result" where
  "negotiateStdioViaSibling num ds plan deps startError closing env =
     (let result = er_result (negotiateEra num ds plan (deps\<lparr>nd_transportKind := Stdio, nd_disposableProbe := True\<rparr>)
            startError False env) in
      if closing = ClosedWhileProbing then Inl callerCloseAbortError
      else (case result of
              Inl e \<Rightarrow> Inl e
            | Inr r \<Rightarrow> if closing = ClosedWhileDisposing then Inl callerCloseAbortError else Inr r))"

subsection \<open>The loop is bounded\<close>

lemma sendProbe_counter:
  "sendProbe deps env v w = (request, w', reply, fwd) \<Longrightarrow>
     pw_counter w' = Suc (pw_counter w) \<and> request = buildProbeRequest (probeId (Suc (pw_counter w))) v (nd_clientInfo deps) (nd_capabilities deps)"
proof -
  have step: "windowStep ev w = (w', r, fwd) \<Longrightarrow> pw_counter w' = pw_counter w" for ev w w' r fwd
    by (cases ev) (auto split: option.splits if_splits)
  have wait: "awaitReply evs w = (w', r, fwd) \<Longrightarrow> pw_counter w' = pw_counter w" for evs w w' r fwd
    by (induction evs arbitrary: w w' r fwd) (auto dest!: step split: prod.splits option.splits)
  assume "sendProbe deps env v w = (request, w', reply, fwd)"
  then show ?thesis by (auto simp: sendProbe_def exchange_def dest!: wait)
qed

lemma prefixRun_simps [simp]:
  "pr_result (prefixRun request fwd run) = pr_result run" "pr_sent (prefixRun request fwd run) = request # pr_sent run"
  "pr_window (prefixRun request fwd run) = pr_window run" "pr_forwarded (prefixRun request fwd run) = fwd @ pr_forwarded run"
  by (simp_all add: prefixRun_def)

text \<open>One round: the cases of the loop's body.\<close>

lemma probeLoop_cases:
  assumes "sendProbe deps env v w = (request, w', reply, fwd)"
  obtains (retry) "reply = TimeoutReply" "0 < retries"
      "probeLoop num ds plan deps env v used retries w
        = prefixRun request fwd (probeLoop num ds plan deps env v used (retries - 1) w')"
    | (correct) version where "\<not> used" "version \<in> set (pp_modernVersions plan)"
      "probeLoop num ds plan deps env v used retries w
        = prefixRun request fwd (probeLoop num ds plan deps env version True retries w')"
    | (finished) r where "probeLoop num ds plan deps env v used retries w
        = \<lparr>pr_result = r, pr_sent = [request], pr_window = w', pr_forwarded = fwd\<rparr>"
      "\<And>version d. r = Inr (EraModern version d) \<Longrightarrow>
         classifyProbeOutcome num ds (normalizeReply reply (pp_timeoutMs plan)) (contextOf plan deps v) = ModernVerdict version d"
      "r = Inr EraLegacy \<Longrightarrow>
         classifyProbeOutcome num ds (normalizeReply reply (pp_timeoutMs plan)) (contextOf plan deps v) = LegacyVerdict
         \<and> legacyStep plan deps (normalizeReply reply (pp_timeoutMs plan)) = Inr EraLegacy"
proof -
  let ?outcome = "normalizeReply reply (pp_timeoutMs plan)"
  show thesis
  proof (cases "reply = TimeoutReply \<and> 0 < retries")
    case True
    then show thesis using retry assms by (simp add: probeLoop.simps [of num ds plan deps env v])
  next
    case False
    note loop = probeLoop.simps [of num ds plan deps env v used retries w]
    show thesis
    proof (cases "classifyProbeOutcome num ds ?outcome (contextOf plan deps v)")
      case (ModernVerdict version d)
      show thesis
        by (rule finished [of "Inr (EraModern version d)"]) (use False assms ModernVerdict in \<open>auto simp: loop Let_def\<close>)
    next
      case (Corrective version e)
      then have "version \<in> set (pp_modernVersions plan)"
        using corrective_offers by (fastforce simp: contextOf_def)
      show thesis
      proof (cases used)
        case True
        show thesis by (rule finished [of "Inl e"]) (use False assms Corrective True loop in \<open>auto simp: Let_def\<close>)
      next
        case False: False
        have "probeLoop num ds plan deps env v used retries w
            = prefixRun request fwd (probeLoop num ds plan deps env version True retries w')"
          using False assms Corrective \<open>\<not> (reply = TimeoutReply \<and> 0 < retries)\<close> loop by (auto simp: Let_def)
        then show thesis by (rule correct [OF False \<open>version \<in> _\<close>])
      qed
    next
      case LegacyVerdict
      have "legacyStep plan deps ?outcome \<noteq> Inr (EraModern version d)" for version d
        by (simp add: legacyStep_def Let_def split: option.splits)
      then show thesis
        by (intro finished [of "legacyStep plan deps ?outcome"]) (use False assms LegacyVerdict in \<open>auto simp: loop Let_def\<close>)
    next
      case (ErrorVerdict e)
      show thesis by (rule finished [of "Inl e"]) (use False assms ErrorVerdict in \<open>auto simp: loop Let_def\<close>)
    qed
  qed
qed

text \<open>Induction over the rounds of the loop, with the run they produce.\<close>

lemma probe_rounds:
  assumes retry: "\<And>v used retries w request w' fwd run. sendProbe deps env v w = (request, w', TimeoutReply, fwd) \<Longrightarrow> 0 < retries
      \<Longrightarrow> P v used (retries - 1) w' run \<Longrightarrow> P v used retries w (prefixRun request fwd run)"
    and correct: "\<And>v retries w request w' reply fwd version run. sendProbe deps env v w = (request, w', reply, fwd)
      \<Longrightarrow> version \<in> set (pp_modernVersions plan)
      \<Longrightarrow> P version True retries w' run \<Longrightarrow> P v False retries w (prefixRun request fwd run)"
    and finished: "\<And>v used retries w request w' reply fwd r. sendProbe deps env v w = (request, w', reply, fwd)
      \<Longrightarrow> (\<And>version d. r = Inr (EraModern version d) \<Longrightarrow>
         classifyProbeOutcome num ds (normalizeReply reply (pp_timeoutMs plan)) (contextOf plan deps v) = ModernVerdict version d)
      \<Longrightarrow> (r = Inr EraLegacy \<Longrightarrow>
         classifyProbeOutcome num ds (normalizeReply reply (pp_timeoutMs plan)) (contextOf plan deps v) = LegacyVerdict
         \<and> legacyStep plan deps (normalizeReply reply (pp_timeoutMs plan)) = Inr EraLegacy)
      \<Longrightarrow> P v used retries w \<lparr>pr_result = r, pr_sent = [request], pr_window = w', pr_forwarded = fwd\<rparr>"
  shows "P v used retries w (probeLoop num ds plan deps env v used retries w)"
proof (induction "retries + (if used then 0 else 1 :: nat)" arbitrary: v used retries w rule: less_induct)
  case less
  obtain request w' reply fwd where s: "sendProbe deps env v w = (request, w', reply, fwd)" by (metis prod_cases4)
  show ?case
  proof (cases rule: probeLoop_cases [OF s, where num = num and ds = ds and plan = plan and used = used and retries = retries])
    case 1
    have "P v used (retries - 1) w' (probeLoop num ds plan deps env v used (retries - 1) w')"
      using 1(2) by (intro less) auto
    with 1 retry s show ?thesis by simp
  next
    case (2 version)
    have "P version True retries w' (probeLoop num ds plan deps env version True retries w')"
      using 2(1) by (intro less) auto
    with 2 correct [OF s 2(2)] show ?thesis by simp
  next
    case (3 r)
    then show ?thesis using finished [OF s] by simp
  qed
qed

lemma probes_bounded:
  "length (pr_sent (probeLoop num ds plan deps env v used retries w)) \<le> retries + (if used then 1 else 2)"
  by (rule probe_rounds) auto

subsection \<open>What a verdict rests on\<close>

text \<open>The reply that settles exchange \<open>n\<close>.\<close>

definition replyTo :: "(nat \<Rightarrow> window_event list) \<Rightarrow> nat \<Rightarrow> raw_reply" where
  "replyTo env n = fst (snd (exchange (env n) (openWindow\<lparr>pw_counter := n\<rparr>)))"

lemma sendProbe_reply:
  "sendProbe deps env v w = (request, w', reply, fwd) \<Longrightarrow> reply = replyTo env (pw_counter w)"
proof -
  have step: "pw_pending w1 = pw_pending w2 \<Longrightarrow>
      snd (windowStep ev w1) = snd (windowStep ev w2) \<and> pw_pending (fst (windowStep ev w1)) = pw_pending (fst (windowStep ev w2))"
    for ev w1 w2 by (cases ev) (auto split: option.split)
  have "pw_pending w1 = pw_pending w2 \<Longrightarrow> snd (awaitReply evs w1) = snd (awaitReply evs w2)" for evs w1 w2
  proof (induction evs arbitrary: w1 w2)
    case (Cons ev evs)
    show ?case
      using step [OF Cons.prems, of ev] Cons.IH [of "fst (windowStep ev w1)" "fst (windowStep ev w2)"]
      by (cases "windowStep ev w1"; cases "windowStep ev w2") (auto split: option.split prod.split)
  qed simp
  from this [of "w\<lparr>pw_counter := Suc (pw_counter w), pw_pending := Some (probeId (Suc (pw_counter w)))\<rparr>"
      "openWindow\<lparr>pw_counter := Suc (pw_counter w), pw_pending := Some (probeId (Suc (pw_counter w)))\<rparr>"]
  have "snd (exchange (env (pw_counter w)) w) = snd (exchange (env (pw_counter w)) (openWindow\<lparr>pw_counter := pw_counter w\<rparr>))"
    by (simp add: exchange_def)
  moreover assume "sendProbe deps env v w = (request, w', reply, fwd)"
  ultimately show ?thesis by (simp add: sendProbe_def replyTo_def) (metis fst_conv snd_conv)
qed

lemma normalize_result: "normalizeReply reply t = ResultOutcome res \<Longrightarrow> reply = ResponseReply res"
  by (cases reply) (auto split: if_splits option.splits)

lemma evidence_version:
  "legacyEvidence num ds (contextOf plan deps v) outcome = legacyEvidence num ds (contextOf plan deps v') outcome"
  by (cases outcome) (simp_all add: contextOf_def split: option.split)

text \<open>What a run of the loop, started in a window that has sent \<open>n\<close> probes, satisfies.\<close>

definition run_ok ::
  "(string \<Rightarrow> jnum) \<Rightarrow> (js \<Rightarrow> obj option) \<Rightarrow> probe_plan \<Rightarrow> negotiation_deps \<Rightarrow> (nat \<Rightarrow> window_event list)
     \<Rightarrow> string \<Rightarrow> nat \<Rightarrow> probe_run \<Rightarrow> bool" where
  "run_ok num ds plan deps env v n run \<longleftrightarrow>
     pr_sent run \<noteq> []
     \<and> (\<forall>k < length (pr_sent run). \<exists>v' \<in> insert v (set (pp_modernVersions plan)).
          pr_sent run ! k = buildProbeRequest (probeId (Suc (n + k))) v' (nd_clientInfo deps) (nd_capabilities deps))
     \<and> (let reply = replyTo env (n + length (pr_sent run) - 1); outcome = normalizeReply reply (pp_timeoutMs plan) in
        case pr_result run of
          Inl _ \<Rightarrow> True
        | Inr (EraModern version d) \<Rightarrow>
            version \<in> set (pp_modernVersions plan) \<and> version \<in> set (supportedVersionsOf d)
            \<and> (\<exists>res. reply = ResponseReply res \<and> ds res = Some d)
        | Inr EraLegacy \<Rightarrow>
            legacyEvidence num ds (contextOf plan deps []) outcome \<and> legacyStep plan deps outcome = Inr EraLegacy)"

lemma run_ok_prefix:
  assumes "sendProbe deps env v w = (request, w', reply, fwd)"
    and "run_ok num ds plan deps env v' (pw_counter w') run" "v' \<in> insert v (set (pp_modernVersions plan))"
  shows "run_ok num ds plan deps env v (pw_counter w) (prefixRun request fwd run)"
proof -
  have w': "pw_counter w' = Suc (pw_counter w)"
    and req: "request = buildProbeRequest (probeId (Suc (pw_counter w))) v (nd_clientInfo deps) (nd_capabilities deps)"
    using sendProbe_counter [OF assms(1)] by simp_all
  have ne: "pr_sent run \<noteq> []" using assms(2) by (simp add: run_ok_def)
  have "\<exists>x \<in> insert v (set (pp_modernVersions plan)). (request # pr_sent run) ! k
      = buildProbeRequest (probeId (Suc (pw_counter w + k))) x (nd_clientInfo deps) (nd_capabilities deps)"
    if "k < Suc (length (pr_sent run))" for k
    using that assms(2,3) req w' by (cases k) (auto simp: run_ok_def)
  moreover have "pw_counter w + Suc (length (pr_sent run)) - 1 = pw_counter w' + length (pr_sent run) - 1"
    using w' ne by simp
  ultimately show ?thesis
    using assms(2) by (simp add: run_ok_def Let_def)
qed

lemma loop_ok: "run_ok num ds plan deps env v (pw_counter w) (probeLoop num ds plan deps env v used retries w)"
proof (rule probe_rounds [where P = "\<lambda>v used retries w run. run_ok num ds plan deps env v (pw_counter w) run"], goal_cases)
  case (1 v used retries w request w' fwd run)
  then show ?case using run_ok_prefix [OF 1(1)] by blast
next
  case (2 v retries w request w' reply fwd version run)
  then show ?case using run_ok_prefix [OF 2(1)] by blast
next
  case (3 v used retries w request w' reply fwd r)
  have reply: "reply = replyTo env (pw_counter w)" using sendProbe_reply [OF 3(1)] .
  have m: "version \<in> set (pp_modernVersions plan) \<and> version \<in> set (supportedVersionsOf d)
      \<and> (\<exists>res. reply = ResponseReply res \<and> ds res = Some d)" if "r = Inr (EraModern version d)" for version d
    using modern_needs_overlap [OF 3(2) [OF that]] normalize_result by (auto simp: contextOf_def)
  have l: "legacyEvidence num ds (contextOf plan deps []) (normalizeReply reply (pp_timeoutMs plan))
      \<and> legacyStep plan deps (normalizeReply reply (pp_timeoutMs plan)) = Inr EraLegacy" if "r = Inr EraLegacy"
    using 3(3) [OF that] legacy_needs_evidence evidence_version by metis
  show ?case
    using sendProbe_counter [OF 3(1)] m l
    by (auto simp: run_ok_def Let_def reply [symmetric] split: sum.split negotiation_result.split)
qed

lemma legacyStep_iff:
  "legacyStep plan deps outcome = Inr EraLegacy \<longleftrightarrow>
     pp_pin plan = None \<and> pp_fallback plan \<and> (outcome = ClosedOutcome \<longrightarrow> nd_disposableProbe deps)"
  by (auto simp: legacyStep_def Let_def split: option.splits if_splits)

lemma plan_versions:
  assumes "resolveVersionNegotiation options supportedOption = Inr negotiation" "planOf negotiation deps = Some plan"
  shows "(case pp_pin plan of
            Some pin \<Rightarrow> pp_modernVersions plan = [pin] \<and> \<not> pp_fallback plan
          | None \<Rightarrow> pp_modernVersions plan = offeredModern supportedOption
              \<and> (pp_fallback plan \<longleftrightarrow> (\<forall>vs. supportedOption = Some vs \<longrightarrow> legacyProtocolVersions vs \<noteq> [])))
    \<and> pp_modernVersions plan \<noteq> [] \<and> list_all isModernProtocolVersion (pp_modernVersions plan)"
proof -
  have o: "offeredModern supportedOption \<noteq> [] \<and> list_all isModernProtocolVersion (offeredModern supportedOption)"
    by (auto simp: offeredModern_def Let_def modernProtocolVersions_def list_all_iff SUPPORTED_MODERN_PROTOCOL_VERSIONS_def
        isModernProtocolVersion_def split: option.splits)
  show ?thesis
    using assms o
    by (cases "or_else (Option.bind options no_mode) DEFAULT_VERSION_NEGOTIATION_MODE")
      (auto simp: resolveVersionNegotiation_def planOf_def Let_def split: if_splits option.splits)
qed

lemma negotiateEra_run:
  assumes "er_result (negotiateEra num ds plan deps startError hasSaved env) = Inr r"
  shows "startError = None" "er_exit (negotiateEra num ds plan deps startError hasSaved env) = Released"
    "\<exists>run. run_ok num ds plan deps env (hd (pp_modernVersions plan)) 0 run \<and> pr_result run = Inr r
       \<and> er_sent (negotiateEra num ds plan deps startError hasSaved env) = pr_sent run"
  using assms loop_ok [of num ds plan deps env "hd (pp_modernVersions plan)" openWindow False "pp_maxRetries plan"]
  by (auto simp: negotiateEra_def Let_def openWindow_def split: option.splits)

text \<open>
  C29: The probe of a connect always comes to an end: it sends at most maxRetries + 2
  requests, whatever the server does. The k-th is a \<open>server/discover\<close> with the string id
  numbered k, which no request of the protocol uses, and an envelope naming one of the modern
  versions the client offers.
\<close>

theorem probing_is_bounded:
  assumes "resolveVersionNegotiation options supportedOption = Inr negotiation" "planOf negotiation deps = Some plan"
    and "sent = er_sent (negotiateEra num ds plan deps startError hasSaved env)"
  shows "length sent \<le> pp_maxRetries plan + 2
    \<and> (\<forall>k < length sent. \<exists>version \<in> set (pp_modernVersions plan).
         isModernProtocolVersion version
         \<and> sent ! k = buildProbeRequest (probeId (Suc k)) version (nd_clientInfo deps) (nd_capabilities deps))"
proof (cases startError)
  case None
  let ?v = "hd (pp_modernVersions plan)"
  have p: "pp_modernVersions plan \<noteq> []" "list_all isModernProtocolVersion (pp_modernVersions plan)"
    using plan_versions [OF assms(1,2)] by simp_all
  have "run_ok num ds plan deps env ?v 0 (probeLoop num ds plan deps env ?v False (pp_maxRetries plan) openWindow)"
    using loop_ok [of num ds plan deps env ?v openWindow] by (simp add: openWindow_def)
  moreover have "insert ?v (set (pp_modernVersions plan)) = set (pp_modernVersions plan)"
    using p(1) by (simp add: insert_absorb)
  ultimately show ?thesis
    using None p(2) assms(3) probes_bounded [of num ds plan deps env ?v False "pp_maxRetries plan" openWindow]
    by (auto simp: negotiateEra_def Let_def run_ok_def list_all_iff)
qed (simp add: assms(3) negotiateEra_def)

text \<open>
  C28: A negotiation ends in the modern era only on a \<open>DiscoverResult\<close>, at a modern version
  that the server lists in it and the client offers: the pinned one in pin mode.
\<close>

theorem modern_era_is_mutual:
  assumes "resolveVersionNegotiation options supportedOption = Inr negotiation" "planOf negotiation deps = Some plan"
    and "er_result (negotiateEra num ds plan deps startError hasSaved env) = Inr (EraModern version discover)"
  shows "isModernProtocolVersion version \<and> version \<in> set (supportedVersionsOf discover)
    \<and> (case pp_pin plan of Some pin \<Rightarrow> version = pin | None \<Rightarrow> version \<in> set (offeredModern supportedOption))
    \<and> (\<exists>n res. replyTo env n = ResponseReply res \<and> ds res = Some discover)"
proof -
  obtain run where r: "run_ok num ds plan deps env (hd (pp_modernVersions plan)) 0 run"
    "pr_result run = Inr (EraModern version discover)"
    using negotiateEra_run(3) [OF assms(3)] by auto
  then have "version \<in> set (pp_modernVersions plan)" "version \<in> set (supportedVersionsOf discover)"
    "\<exists>n res. replyTo env n = ResponseReply res \<and> ds res = Some discover"
    by (auto simp: run_ok_def Let_def)
  then show ?thesis
    using plan_versions [OF assms(1,2)] by (auto simp: list_all_iff split: option.splits)
qed

text \<open>
  C27: A negotiation falls back to the legacy era only in auto mode, for a client that supports
  a legacy version, and on evidence: an answer without modern content, a client-error status
  that is not an authorization one, silence or exit of a stdio child (an exit only of the
  disposable sibling), or a browser's opaque preflight failure. An authorization challenge, a
  server failure, an unusable reply or silence over HTTP never leads there.
\<close>

theorem fallback_needs_evidence:
  assumes "resolveVersionNegotiation options supportedOption = Inr negotiation" "planOf negotiation deps = Some plan"
    and "negotiateEra num ds plan deps startError hasSaved env = run" "er_result run = Inr EraLegacy"
  shows "pp_pin plan = None \<and> (\<forall>vs. supportedOption = Some vs \<longrightarrow> legacyProtocolVersions vs \<noteq> [])
    \<and> (let outcome = normalizeReply (replyTo env (length (er_sent run) - 1)) (pp_timeoutMs plan) in
       legacyEvidence num ds (contextOf plan deps []) outcome
       \<and> (outcome = ClosedOutcome \<longrightarrow> nd_disposableProbe deps))"
proof -
  have "er_result (negotiateEra num ds plan deps startError hasSaved env) = Inr EraLegacy" using assms(3,4) by simp
  from negotiateEra_run(3) [OF this] obtain r where r: "run_ok num ds plan deps env (hd (pp_modernVersions plan)) 0 r"
    "pr_result r = Inr EraLegacy" "er_sent run = pr_sent r"
    using assms(3) by auto
  let ?outcome = "normalizeReply (replyTo env (length (er_sent run) - 1)) (pp_timeoutMs plan)"
  have e: "legacyEvidence num ds (contextOf plan deps []) ?outcome" "legacyStep plan deps ?outcome = Inr EraLegacy"
    using r by (simp_all add: run_ok_def Let_def)
  then show ?thesis
    using plan_versions [OF assms(1,2)] by (auto simp: legacyStep_iff Let_def split: option.splits)
qed

subsection \<open>A close is reported once\<close>

lemma awaitReply_close:
  "awaitReply evs w = (w', r, fwd) \<Longrightarrow> pw_closeDelivered w' \<longleftrightarrow> pw_closeDelivered w \<or> FwdClose \<in> set fwd"
proof (induction evs arbitrary: w w' r fwd)
  case (Cons ev evs)
  have "pw_closeDelivered (fst (windowStep ev w)) \<longleftrightarrow> pw_closeDelivered w \<or> FwdClose \<in> set (snd (snd (windowStep ev w)))"
    by (cases ev) (auto split: option.split)
  with Cons show ?case by (auto split: prod.splits option.splits)
qed simp

lemma loop_close:
  "pw_closeDelivered (pr_window (probeLoop num ds plan deps env v used retries w))
     \<longleftrightarrow> pw_closeDelivered w \<or> FwdClose \<in> set (pr_forwarded (probeLoop num ds plan deps env v used retries w))"
proof (rule probe_rounds [where P = "\<lambda>v used retries w run. pw_closeDelivered (pr_window run)
     \<longleftrightarrow> pw_closeDelivered w \<or> FwdClose \<in> set (pr_forwarded run)"])
qed (auto simp: sendProbe_def exchange_def dest!: awaitReply_close)

text \<open>
  A transport close during the probe reaches the handler the caller had set, and the
  clean-up close of a failed connect does not report it a second time when the transport fires
  again; every later close is reported. Without such a close nothing is swallowed.
\<close>

theorem close_reported_once:
  assumes "negotiateEra num ds plan deps None True env = run"
  shows "(FwdClose \<in> set (er_forwarded run) \<longrightarrow>
            \<not> snd (closeFires (er_slot run)) \<and> snd (closeFires (fst (closeFires (er_slot run)))))
    \<and> (FwdClose \<notin> set (er_forwarded run) \<longrightarrow> snd (closeFires (er_slot run)))
    \<and> snd (closeFires (disarmSpentCloseGuard (er_slot run)))"
  using loop_close [of num ds plan deps env "hd (pp_modernVersions plan)" False "pp_maxRetries plan" openWindow]
  by (auto simp: assms [symmetric] negotiateEra_def Let_def detach_def disarmSpentCloseGuard_def openWindow_def)

subsection \<open>Witnesses\<close>

definition demoDiscover :: obj where
  "demoDiscover = [(''supportedVersions'', JArr [JStr ''2026-07-28''])]"

definition demoSchema :: "js \<Rightarrow> obj option" where
  "demoSchema r = (if r = JObj demoDiscover then Some demoDiscover else None)"

definition demoDeps :: negotiation_deps where
  "demoDeps = \<lparr>nd_clientInfo = JNull, nd_capabilities = JNull, nd_environment = Node,
     nd_transportKind = Stdio, nd_defaultTimeoutMs = 60000, nd_disposableProbe = True\<rparr>"

definition demoPlan :: probe_plan where
  "demoPlan = \<lparr>pp_pin = None, pp_modernVersions = [''2026-07-28''], pp_fallback = True, pp_timeoutMs = 60000, pp_maxRetries = 0\<rparr>"

definition demoOptions :: "negotiation_options option" where
  "demoOptions = Some \<lparr>no_mode = Some AutoMode, no_probe = None\<rparr>"

text \<open>A server that answers the first probe, and a child that exits on it.\<close>

definition demoAnswer :: "nat \<Rightarrow> window_event list" where
  "demoAnswer n = [WMessage (JObj [(''jsonrpc'', JStr ''2.0''), (''id'', JStr ''server-discover-probe-1''), (''result'', JObj demoDiscover)])]"

definition demoExit :: "nat \<Rightarrow> window_event list" where
  "demoExit n = [WClose]"

lemma demo_resolved:
  "resolveVersionNegotiation demoOptions None
     = Inr (ResolvedAuto [''2026-07-28''] True \<lparr>po_timeoutMs = None, po_maxRetries = None\<rparr>)"
  by code_simp

lemma demo_plan:
  "planOf (ResolvedAuto [''2026-07-28''] True \<lparr>po_timeoutMs = None, po_maxRetries = None\<rparr>) demoDeps = Some demoPlan"
  by code_simp

lemma demo_negotiated:
  "er_result (negotiateEra (\<lambda>_. NNaN) demoSchema demoPlan demoDeps None True demoAnswer) = Inr (EraModern ''2026-07-28'' demoDiscover)"
  by code_simp

lemma demo_fallback:
  "er_result (negotiateEra (\<lambda>_. NNaN) demoSchema demoPlan demoDeps None True demoExit) = Inr EraLegacy"
  "FwdClose \<in> set (er_forwarded (negotiateEra (\<lambda>_. NNaN) demoSchema demoPlan demoDeps None True demoExit))"
  "length (er_sent (negotiateEra (\<lambda>_. NNaN) demoSchema demoPlan demoDeps None True demoExit)) = 1"
  by code_simp+

theorem probing_is_bounded_witness:
  "length (er_sent (negotiateEra (\<lambda>_. NNaN) demoSchema demoPlan demoDeps None True demoExit)) \<le> 2"
  using probing_is_bounded [OF demo_resolved demo_plan refl, of "\<lambda>_. NNaN" demoSchema None True demoExit]
  by (simp add: demoPlan_def)

theorem modern_era_is_mutual_witness:
  "isModernProtocolVersion ''2026-07-28'' \<and> ''2026-07-28'' \<in> set (supportedVersionsOf demoDiscover)"
  using modern_era_is_mutual [OF demo_resolved demo_plan demo_negotiated] by simp

theorem fallback_needs_evidence_witness:
  "legacyEvidence (\<lambda>_. NNaN) demoSchema (contextOf demoPlan demoDeps []) ClosedOutcome \<and> nd_disposableProbe demoDeps"
proof -
  have "normalizeReply (replyTo demoExit 0) (pp_timeoutMs demoPlan) = ClosedOutcome" by code_simp
  then show ?thesis
    using fallback_needs_evidence [OF demo_resolved demo_plan refl demo_fallback(1)] demo_fallback(3) by (simp add: Let_def)
qed

theorem close_reported_once_witness:
  "\<not> snd (closeFires (er_slot (negotiateEra (\<lambda>_. NNaN) demoSchema demoPlan demoDeps None True demoExit)))"
  using close_reported_once [OF refl, of "\<lambda>_. NNaN" demoSchema demoPlan demoDeps demoExit] demo_fallback(2) by simp

end
