(* ===== verification/ResponseCache.thy ===== *)
theory ResponseCache
  imports Json Errors "HOL-Library.AList"
begin

text \<open>
  The in-memory response store (packages/client/src/client/responseCache.ts,
  \<open>InMemoryResponseCacheStore\<close>) and the contract the client's cache needs from any store.

  A \<open>Map\<close> is an association list in insertion order with distinct keys: \<open>AList.update\<close>
  keeps the place of a key that is present and appends a new one, \<open>AList.delete\<close> removes.
  The locale \<open>response_store\<close> states what the client-side cache (theory ClientCache) uses of
  a store, a custom one that may throw included, and is interpreted here on the in-memory
  store.
\<close>

subsection \<open>Keys and entries\<close>

datatype cache_scope = ScopePublic | ScopePrivate

record cache_key =
  ck_method :: string
  ck_params :: "string option"
  ck_partition :: "string option"

record cache_input =
  ci_value :: string
  ci_expiresAt :: "int option"
  ci_scope :: "cache_scope option"

record cache_entry = cache_input +
  ce_stamp :: nat

definition CAP_EXEMPT_METHODS :: "string list" where
  "CAP_EXEMPT_METHODS =
     [''tools/list'', ''prompts/list'', ''resources/list'', ''resources/templates/list'', ''server/discover'']"

definition NUL :: char where
  "NUL = CHR 0x00"

text \<open>The serialization of a key; an omitted part is the empty string.\<close>

definition keyOf :: "cache_key \<Rightarrow> string" where
  "keyOf k = ck_method k @ [NUL]
     @ json_text (JArr [JStr (or_else (ck_partition k) ''''), JStr (or_else (ck_params k) '''')])"

definition genKey :: "string \<Rightarrow> string option \<Rightarrow> string" where
  "genKey method params = (case params of None \<Rightarrow> method | Some p \<Rightarrow> method @ [NUL] @ p)"

text \<open>\<open>oldKey.slice(0, oldKey.indexOf(NUL))\<close>; with no NUL the index is -1 and the last unit is cut.\<close>

definition methodOfKey :: "string \<Rightarrow> string" where
  "methodOfKey k = (if NUL \<in> set k then takeWhile (\<lambda>c. c \<noteq> NUL) k else butlast k)"

subsection \<open>The store\<close>

record mem_store =
  ms_entries :: "(string \<times> cache_entry) list"
  ms_maxEntries :: int
  ms_stamp :: nat
  ms_cappedSize :: int

definition newStore :: "int option \<Rightarrow> mem_store" where
  "newStore maxEntries = \<lparr>ms_entries = [], ms_maxEntries = or_else maxEntries 512, ms_stamp = 0, ms_cappedSize = 0\<rparr>"

definition storeSize :: "mem_store \<Rightarrow> nat" where
  "storeSize st = length (ms_entries st)"

definition storeGet :: "mem_store \<Rightarrow> cache_key \<Rightarrow> cache_entry option" where
  "storeGet st k = map_of (ms_entries st) (keyOf k)"

text \<open>The first key the cap applies to, in insertion order, is dropped.\<close>

definition evictOldest :: "mem_store \<Rightarrow> mem_store" where
  "evictOldest st =
     (case List.find (\<lambda>k. methodOfKey k \<notin> set CAP_EXEMPT_METHODS) (map fst (ms_entries st)) of
        None \<Rightarrow> st
      | Some oldKey \<Rightarrow>
          st\<lparr>ms_entries := AList.delete oldKey (ms_entries st), ms_cappedSize := ms_cappedSize st - 1\<rparr>)"

definition storeSet :: "mem_store \<Rightarrow> cache_key \<Rightarrow> cache_input \<Rightarrow> nat \<times> mem_store" where
  "storeSet st key entry =
     (let k = keyOf key;
          exempt = ck_method key \<in> set CAP_EXEMPT_METHODS;
          isNew = map_of (ms_entries st) k = None;
          st1 = (if \<not> exempt \<and> isNew \<and> 0 < ms_maxEntries st \<and> ms_maxEntries st \<le> ms_cappedSize st
                 then evictOldest st else st);
          stamp = Suc (ms_stamp st1)
      in (stamp,
          st1\<lparr>ms_stamp := stamp,
              ms_entries := AList.update k (cache_input.extend entry \<lparr>ce_stamp = stamp\<rparr>) (ms_entries st1),
              ms_cappedSize := ms_cappedSize st1 + (if isNew \<and> \<not> exempt then 1 else 0)\<rparr>))"

definition storeDelete :: "mem_store \<Rightarrow> cache_key \<Rightarrow> mem_store" where
  "storeDelete st key =
     (if map_of (ms_entries st) (keyOf key) \<noteq> None
      then st\<lparr>ms_entries := AList.delete (keyOf key) (ms_entries st),
              ms_cappedSize := ms_cappedSize st - (if ck_method key \<notin> set CAP_EXEMPT_METHODS then 1 else 0)\<rparr>
      else st)"

text \<open>The loop of \<open>evict\<close>: the keys held when it starts, in order.\<close>

definition evictLoop :: "string \<Rightarrow> bool \<Rightarrow> string list \<Rightarrow> mem_store \<Rightarrow> mem_store" where
  "evictLoop prefix exempt ks st =
     fold (\<lambda>k s. if startsWith k prefix
                 then s\<lparr>ms_entries := AList.delete k (ms_entries s),
                        ms_cappedSize := ms_cappedSize s - (if exempt then 0 else 1)\<rparr>
                 else s) ks st"

definition storeEvict :: "mem_store \<Rightarrow> string \<Rightarrow> mem_store" where
  "storeEvict st method =
     evictLoop (method @ [NUL]) (method \<in> set CAP_EXEMPT_METHODS) (map fst (ms_entries st)) st"

definition storeClear :: "mem_store \<Rightarrow> mem_store" where
  "storeClear st = st\<lparr>ms_entries := [], ms_cappedSize := 0\<rparr>"

datatype store_op =
    OpSet cache_key cache_input
  | OpDelete cache_key
  | OpEvict string
  | OpClear

fun storeStep :: "store_op \<Rightarrow> mem_store \<Rightarrow> mem_store" where
  "storeStep (OpSet k e) st = snd (storeSet st k e)"
| "storeStep (OpDelete k) st = storeDelete st k"
| "storeStep (OpEvict m) st = storeEvict st m"
| "storeStep OpClear st = storeClear st"

text \<open>The callers' obligation: a method name holds no NUL.\<close>

fun op_ok :: "store_op \<Rightarrow> bool" where
  "op_ok (OpSet k e) = (NUL \<notin> set (ck_method k))"
| "op_ok (OpDelete k) = (NUL \<notin> set (ck_method k))"
| "op_ok (OpEvict m) = (NUL \<notin> set m)"
| "op_ok OpClear = True"

subsection \<open>Keys are collision free\<close>

definition same_key :: "cache_key \<Rightarrow> cache_key \<Rightarrow> bool" where
  "same_key k k' \<longleftrightarrow>
     ck_method k = ck_method k' \<and> or_else (ck_params k) '''' = or_else (ck_params k') ''''
     \<and> or_else (ck_partition k) '''' = or_else (ck_partition k') ''''"

lemma NUL_split:
  assumes "a @ NUL # b = c @ NUL # d" "NUL \<notin> set a" "NUL \<notin> set c"
  shows "a = c \<and> b = d"
  using assms
proof (induction a arbitrary: c)
  case Nil
  then show ?case by (cases c) auto
next
  case (Cons x a)
  then show ?case by (cases c) auto
qed

lemma keyOf_injective:
  assumes "NUL \<notin> set (ck_method k)" "NUL \<notin> set (ck_method k')"
  shows "keyOf k = keyOf k' \<longleftrightarrow> same_key k k'"
proof
  assume "keyOf k = keyOf k'"
  then have "ck_method k @ NUL # json_text (JArr [JStr (or_else (ck_partition k) []), JStr (or_else (ck_params k) [])])
      = ck_method k' @ NUL # json_text (JArr [JStr (or_else (ck_partition k') []), JStr (or_else (ck_params k') [])])"
    by (simp only: keyOf_def append_Cons append_Nil append_assoc)
  from NUL_split [OF this assms] show "same_key k k'"
    using json_pair_injective unfolding same_key_def by blast
qed (simp add: keyOf_def same_key_def)

lemma methodOfKey_keyOf [simp]: "NUL \<notin> set (ck_method k) \<Longrightarrow> methodOfKey (keyOf k) = ck_method k"
  by (auto simp: methodOfKey_def keyOf_def takeWhile_append)

lemma keyOf_prefix:
  assumes "NUL \<notin> set (ck_method k)" "NUL \<notin> set m"
  shows "startsWith (keyOf k) (m @ [NUL]) \<longleftrightarrow> ck_method k = m"
proof
  assume "startsWith (keyOf k) (m @ [NUL])"
  then obtain t where "ck_method k @ NUL # json_text (JArr [JStr (or_else (ck_partition k) ''''),
      JStr (or_else (ck_params k) '''')]) = m @ NUL # t"
    by (auto simp: startsWith_iff keyOf_def)
  then show "ck_method k = m" using NUL_split assms by blast
qed (auto simp: startsWith_iff keyOf_def)

subsection \<open>The invariant of the store\<close>

definition cappedKeys :: "mem_store \<Rightarrow> string list" where
  "cappedKeys st = filter (\<lambda>k. methodOfKey k \<notin> set CAP_EXEMPT_METHODS) (map fst (ms_entries st))"

text \<open>
  Keys are distinct and are serialized keys; the counter counts the capped keys exactly and
  respects the cap; stamps are distinct, positive and below the write counter.
\<close>

definition store_inv :: "mem_store \<Rightarrow> bool" where
  "store_inv st \<longleftrightarrow>
     distinct (map fst (ms_entries st))
     \<and> (\<forall>k \<in> set (map fst (ms_entries st)). \<exists>key. k = keyOf key \<and> NUL \<notin> set (ck_method key))
     \<and> ms_cappedSize st = int (length (cappedKeys st))
     \<and> (0 < ms_maxEntries st \<longrightarrow> ms_cappedSize st \<le> ms_maxEntries st)
     \<and> (\<forall>e \<in> set (map snd (ms_entries st)). 0 < ce_stamp e \<and> ce_stamp e \<le> ms_stamp st)
     \<and> distinct (map (ce_stamp \<circ> snd) (ms_entries st))"

lemma inv_distinct: "store_inv st \<Longrightarrow> distinct (map fst (ms_entries st))"
  by (simp add: store_inv_def)

lemma inv_keys:
  "store_inv st \<Longrightarrow> p \<in> set (ms_entries st) \<Longrightarrow> \<exists>key. fst p = keyOf key \<and> NUL \<notin> set (ck_method key)"
  by (auto simp: store_inv_def)

lemma update_fst: "map fst (AList.update k v al) = (if k \<in> fst ` set al then map fst al else map fst al @ [k])"
  by (induction al) auto

lemma update_snd: "e \<in> snd ` set (AList.update k v al) \<Longrightarrow> e = v \<or> e \<in> snd ` set al"
  by (induction al) (auto split: if_splits)

lemma update_stamps:
  "distinct (map (ce_stamp \<circ> snd) al) \<Longrightarrow> \<forall>e \<in> snd ` set al. ce_stamp e < ce_stamp v \<Longrightarrow>
   distinct (map (ce_stamp \<circ> snd) (AList.update k v al))"
proof (induction al)
  case (Cons p al)
  obtain k' e where p: "p = (k', e)" by (cases p)
  have "ce_stamp e \<noteq> ce_stamp e'" if "e' \<in> snd ` set (AList.update k v al)" for e'
    using update_snd [OF that] Cons.prems p by auto
  then show ?case using Cons p by (auto simp: image_iff)
qed simp

lemma delete_fst: "map fst (AList.delete k al) = filter (\<lambda>x. x \<noteq> k) (map fst al)"
  by (induction al) auto

lemma delete_stamps: "distinct (map f al) \<Longrightarrow> distinct (map f (AList.delete k al))"
  by (simp add: AList.delete_eq distinct_map_filter)

lemma delete_subset: "set (AList.delete k al) \<subseteq> set al"
  by (auto simp: AList.delete_eq)

lemma filter_neq_length: "distinct xs \<Longrightarrow> k \<in> set xs \<Longrightarrow> Suc (length (filter (\<lambda>x. x \<noteq> k) xs)) = length xs"
  by (induction xs) (auto intro!: arg_cong [where f = length] filter_True)

lemma isNew_iff: "map_of al k = None \<longleftrightarrow> k \<notin> fst ` set al"
  by (simp add: map_of_eq_None_iff)

lemma capped_delete:
  "cappedKeys (st\<lparr>ms_entries := AList.delete k (ms_entries st), ms_cappedSize := c\<rparr>)
   = filter (\<lambda>x. x \<noteq> k) (cappedKeys st)"
  by (simp add: cappedKeys_def delete_fst conj_commute)

lemma delete_inv:
  assumes "store_inv st" "k \<in> set (map fst (ms_entries st))"
  shows "store_inv (st\<lparr>ms_entries := AList.delete k (ms_entries st),
           ms_cappedSize := ms_cappedSize st - (if methodOfKey k \<in> set CAP_EXEMPT_METHODS then 0 else 1)\<rparr>)"
proof -
  have d: "distinct (cappedKeys st)"
    using assms(1) by (simp add: store_inv_def cappedKeys_def)
  have "int (length (filter (\<lambda>x. x \<noteq> k) (cappedKeys st)))
      = int (length (cappedKeys st)) - (if methodOfKey k \<in> set CAP_EXEMPT_METHODS then 0 else 1)"
  proof (cases "methodOfKey k \<in> set CAP_EXEMPT_METHODS")
    case True
    then have "filter (\<lambda>x. x \<noteq> k) (cappedKeys st) = cappedKeys st"
      by (intro filter_True) (auto simp: cappedKeys_def)
    with True show ?thesis by simp
  next
    case False
    then show ?thesis
      using filter_neq_length [OF d, of k] assms(2) by (simp add: cappedKeys_def)
  qed
  then show ?thesis
    using assms(1) delete_subset [of k "ms_entries st"]
    by (auto simp: store_inv_def capped_delete delete_fst delete_stamps)
qed

lemma find_head_filter: "List.find P xs = (case filter P xs of [] \<Rightarrow> None | k # _ \<Rightarrow> Some k)"
  by (induction xs) auto

text \<open>Dropping the oldest capped key, when the cap is reached, makes room for one.\<close>

lemma evictOldest_inv:
  assumes "store_inv st"
  shows "store_inv (evictOldest st)"
proof (cases "cappedKeys st")
  case (Cons k ks)
  have "k \<in> set (cappedKeys st)" using Cons by simp
  then have "k \<in> set (map fst (ms_entries st))" "methodOfKey k \<notin> set CAP_EXEMPT_METHODS"
    by (simp_all add: cappedKeys_def)
  then show ?thesis
    using delete_inv [OF assms, of k] Cons by (simp add: evictOldest_def find_head_filter cappedKeys_def)
qed (use assms in \<open>simp add: evictOldest_def find_head_filter cappedKeys_def\<close>)

lemma evictOldest_frame [simp]:
  "ms_maxEntries (evictOldest st) = ms_maxEntries st" "ms_stamp (evictOldest st) = ms_stamp st"
  by (simp_all add: evictOldest_def split: option.splits)

lemma evictOldest_keys: "set (ms_entries (evictOldest st)) \<subseteq> set (ms_entries st)"
  by (auto simp: evictOldest_def split: option.splits dest: subsetD [OF delete_subset])

lemma evictOldest_room:
  assumes "store_inv st" "0 < ms_maxEntries st"
  shows "ms_cappedSize (evictOldest st) < ms_maxEntries st"
  using assms by (cases "cappedKeys st")
    (auto simp: evictOldest_def find_head_filter cappedKeys_def [symmetric] store_inv_def)

lemma set_inv:
  assumes inv: "store_inv st" and m: "NUL \<notin> set (ck_method key)"
  shows "store_inv (snd (storeSet st key entry))"
proof -
  let ?k = "keyOf key" and ?exempt = "ck_method key \<in> set CAP_EXEMPT_METHODS"
  let ?new = "?k \<notin> fst ` set (ms_entries st)"
  define st1 where "st1 = (if \<not> ?exempt \<and> ?new \<and> 0 < ms_maxEntries st \<and> ms_maxEntries st \<le> ms_cappedSize st
                 then evictOldest st else st)"
  have inv1: "store_inv st1" using inv evictOldest_inv by (simp add: st1_def)
  have sub: "set (ms_entries st1) \<subseteq> set (ms_entries st)" using evictOldest_keys by (auto simp: st1_def)
  have new1: "?new \<longleftrightarrow> ?k \<notin> fst ` set (ms_entries st1)" using sub by (auto simp: st1_def)
  have room: "ms_cappedSize st1 < ms_maxEntries st1" if "?new" "\<not> ?exempt" "0 < ms_maxEntries st1"
    using that evictOldest_room [OF inv] by (auto simp: st1_def)
  let ?e = "cache_input.extend entry \<lparr>ce_stamp = Suc (ms_stamp st1)\<rparr>"
  have st: "snd (storeSet st key entry) = st1\<lparr>ms_stamp := Suc (ms_stamp st1),
      ms_entries := AList.update ?k ?e (ms_entries st1),
      ms_cappedSize := ms_cappedSize st1 + (if ?new \<and> \<not> ?exempt then 1 else 0)\<rparr>"
    by (simp add: storeSet_def Let_def isNew_iff st1_def)
  have stamps: "distinct (map (ce_stamp \<circ> snd) (AList.update ?k ?e (ms_entries st1)))"
    using inv1 by (intro update_stamps) (auto simp: store_inv_def cache_input.defs le_imp_less_Suc)
  have count: "int (length (filter (\<lambda>k. methodOfKey k \<notin> set CAP_EXEMPT_METHODS)
        (map fst (AList.update ?k ?e (ms_entries st1)))))
      = ms_cappedSize st1 + (if ?new \<and> \<not> ?exempt then 1 else 0)"
    using inv1 m new1 by (simp add: store_inv_def cappedKeys_def update_fst)
  have "\<forall>k \<in> set (map fst (AList.update ?k ?e (ms_entries st1))). \<exists>key. k = keyOf key \<and> NUL \<notin> set (ck_method key)"
    using inv1 m by (auto simp: store_inv_def update_fst)
  moreover have "\<forall>e \<in> set (map snd (AList.update ?k ?e (ms_entries st1))). 0 < ce_stamp e \<and> ce_stamp e \<le> Suc (ms_stamp st1)"
  proof
    fix e assume "e \<in> set (map snd (AList.update ?k ?e (ms_entries st1)))"
    then have "e \<in> snd ` set (AList.update ?k ?e (ms_entries st1))" by simp
    from update_snd [OF this] have "e = ?e \<or> e \<in> set (map snd (ms_entries st1))" by simp
    moreover have "\<forall>e \<in> set (map snd (ms_entries st1)). 0 < ce_stamp e \<and> ce_stamp e \<le> ms_stamp st1"
      using inv1 unfolding store_inv_def by blast
    ultimately show "0 < ce_stamp e \<and> ce_stamp e \<le> Suc (ms_stamp st1)"
      by (elim disjE) (simp add: cache_input.defs, metis le_SucI)
  qed
  moreover have "distinct (map fst (AList.update ?k ?e (ms_entries st1)))"
    using inv1 by (simp add: store_inv_def update_fst)
  moreover have "ms_cappedSize st1 + (if ?new \<and> \<not> ?exempt then 1 else 0) \<le> ms_maxEntries st1"
    if "0 < ms_maxEntries st1"
    using inv1 that room by (auto simp: store_inv_def)
  ultimately show ?thesis
    using stamps count unfolding st store_inv_def cappedKeys_def by simp
qed

lemma storeDelete_inv: "store_inv st \<Longrightarrow> NUL \<notin> set (ck_method key) \<Longrightarrow> store_inv (storeDelete st key)"
  using delete_inv [of st "keyOf key"]
  by (cases "ck_method key \<in> set CAP_EXEMPT_METHODS") (simp_all add: storeDelete_def isNew_iff)

lemma storeClear_inv: "store_inv st \<Longrightarrow> store_inv (storeClear st)"
  by (simp add: storeClear_def store_inv_def cappedKeys_def)

text \<open>The loop of \<open>evict\<close> removes exactly the keys of the method.\<close>

lemma evictLoop_inv:
  assumes "NUL \<notin> set m" "store_inv st" "distinct ks" "set ks \<subseteq> set (map fst (ms_entries st))"
  shows "store_inv (evictLoop (m @ [NUL]) (m \<in> set CAP_EXEMPT_METHODS) ks st)
    \<and> ms_entries (evictLoop (m @ [NUL]) (m \<in> set CAP_EXEMPT_METHODS) ks st)
        = filter (\<lambda>p. \<not> (fst p \<in> set ks \<and> startsWith (fst p) (m @ [NUL]))) (ms_entries st)"
  using assms
proof (induction ks arbitrary: st)
  case (Cons k ks)
  obtain key where k: "k = keyOf key" "NUL \<notin> set (ck_method key)"
    using Cons.prems by (auto simp: store_inv_def)
  show ?case
  proof (cases "ck_method key = m")
    case True
    let ?st = "st\<lparr>ms_entries := AList.delete k (ms_entries st),
        ms_cappedSize := ms_cappedSize st - (if m \<in> set CAP_EXEMPT_METHODS then 0 else 1)\<rparr>"
    have "store_inv ?st"
      using delete_inv [of st k] Cons.prems k True by (auto simp: k)
    moreover have "set ks \<subseteq> set (map fst (ms_entries ?st))"
      using Cons.prems by (auto simp: delete_fst simp flip: set_map)
    moreover have "evictLoop (m @ [NUL]) (m \<in> set CAP_EXEMPT_METHODS) (k # ks) st
        = evictLoop (m @ [NUL]) (m \<in> set CAP_EXEMPT_METHODS) ks ?st"
      using keyOf_prefix [OF k(2) Cons.prems(1)] True by (simp add: evictLoop_def k)
    moreover have "filter (\<lambda>p. \<not> (fst p \<in> set ks \<and> startsWith (fst p) (m @ [NUL]))) (AList.delete k (ms_entries st))
        = filter (\<lambda>p. \<not> (fst p \<in> set (k # ks) \<and> startsWith (fst p) (m @ [NUL]))) (ms_entries st)"
      using keyOf_prefix [OF k(2) Cons.prems(1)] True k
      by (auto simp: AList.delete_eq intro!: filter_cong)
    ultimately show ?thesis using Cons.IH [of ?st] Cons.prems by simp
  next
    case False
    have "\<not> startsWith k (m @ [NUL])" using False keyOf_prefix [OF k(2) Cons.prems(1)] k by simp
    moreover from this have "filter (\<lambda>p. \<not> (fst p \<in> set ks \<and> startsWith (fst p) (m @ [NUL]))) (ms_entries st)
        = filter (\<lambda>p. \<not> (fst p \<in> set (k # ks) \<and> startsWith (fst p) (m @ [NUL]))) (ms_entries st)"
      by (intro filter_cong) auto
    ultimately show ?thesis
      using Cons.IH [of st] Cons.prems by (simp add: evictLoop_def)
  qed
qed (simp add: evictLoop_def)

lemma storeEvict_inv: "store_inv st \<Longrightarrow> NUL \<notin> set m \<Longrightarrow> store_inv (storeEvict st m)"
  using evictLoop_inv [of m st "map fst (ms_entries st)"] by (simp add: storeEvict_def inv_distinct)

lemma storeEvict_entries:
  assumes "store_inv st" "NUL \<notin> set m"
  shows "ms_entries (storeEvict st m) = filter (\<lambda>p. methodOfKey (fst p) \<noteq> m) (ms_entries st)"
proof -
  have "startsWith (fst p) (m @ [NUL]) \<longleftrightarrow> methodOfKey (fst p) = m" if p: "p \<in> set (ms_entries st)" for p
  proof -
    obtain key where "fst p = keyOf key" "NUL \<notin> set (ck_method key)"
      using inv_keys [OF assms(1) p] by blast
    then show ?thesis using keyOf_prefix assms(2) by simp
  qed
  then show ?thesis
    using evictLoop_inv [OF assms(2,1), of "map fst (ms_entries st)"] inv_distinct [OF assms(1)]
    by (simp add: storeEvict_def cong: filter_cong)
qed

lemma storeStep_inv: "store_inv st \<Longrightarrow> op_ok op \<Longrightarrow> store_inv (storeStep op st)"
  by (cases op) (simp_all add: set_inv storeDelete_inv storeEvict_inv storeClear_inv)

lemma newStore_inv: "store_inv (newStore maxEntries)"
  by (simp add: newStore_def store_inv_def cappedKeys_def)

lemma fold_inv: "store_inv st \<Longrightarrow> list_all op_ok ops \<Longrightarrow> store_inv (fold storeStep ops st)"
  by (induction ops arbitrary: st) (simp_all add: storeStep_inv)

subsection \<open>What a lookup returns\<close>

lemma map_of_delete: "map_of (AList.delete k al) k' = (if k' = k then None else map_of al k')"
  by (simp add: delete_conv)

lemma map_of_update: "map_of (AList.update k v al) k' = (if k' = k then Some v else map_of al k')"
  by (simp add: update_conv)

lemma storeGet_delete:
  assumes "NUL \<notin> set (ck_method k)" "NUL \<notin> set (ck_method k')"
  shows "storeGet (storeDelete st k) k' = (if same_key k k' then None else storeGet st k')"
  using keyOf_injective [OF assms] by (auto simp: storeGet_def storeDelete_def map_of_delete)

lemma storeGet_evict:
  assumes "store_inv st" "NUL \<notin> set m" "NUL \<notin> set (ck_method k)"
  shows "storeGet (storeEvict st m) k = (if ck_method k = m then None else storeGet st k)"
proof -
  have "map_of (filter (\<lambda>p. P (fst p)) al) x = (if P x then map_of al x else None)" for P and al :: "(string \<times> cache_entry) list" and x
    by (induction al) auto
  from this [of "\<lambda>x. methodOfKey x \<noteq> m"] show ?thesis
    using storeEvict_entries [OF assms(1,2)] assms(3) by (simp add: storeGet_def)
qed

lemma storeGet_clear [simp]: "storeGet (storeClear st) k = None"
  by (simp add: storeGet_def storeClear_def)

text \<open>
  A write makes exactly its key hold the new entry. Another key keeps its entry, or loses it
  when it was the oldest capped key, the write added a capped key, and the cap was reached.
\<close>

definition displaced :: "mem_store \<Rightarrow> cache_key \<Rightarrow> cache_key \<Rightarrow> bool" where
  "displaced st key k' \<longleftrightarrow>
     ck_method key \<notin> set CAP_EXEMPT_METHODS \<and> storeGet st key = None
     \<and> 0 < ms_maxEntries st \<and> ms_maxEntries st \<le> ms_cappedSize st
     \<and> (case cappedKeys st of [] \<Rightarrow> False | k # _ \<Rightarrow> k = keyOf k')"

lemma storeGet_set:
  assumes "NUL \<notin> set (ck_method key)" "NUL \<notin> set (ck_method k')"
  shows "storeGet (snd (storeSet st key entry)) k' =
     (if same_key key k' then Some (cache_input.extend entry \<lparr>ce_stamp = fst (storeSet st key entry)\<rparr>)
      else if displaced st key k' then None else storeGet st k')"
proof (cases "same_key key k'")
  case True
  then show ?thesis
    using keyOf_injective [OF assms] by (auto simp: storeGet_def storeSet_def Let_def map_of_update)
next
  case False
  then have "keyOf k' \<noteq> keyOf key" using keyOf_injective [OF assms] by auto
  with False show ?thesis
    by (auto simp: storeGet_def storeSet_def Let_def map_of_update displaced_def evictOldest_def
        find_head_filter map_of_delete cappedKeys_def [symmetric] split: list.splits)
qed

lemma storeSet_stamp: "fst (storeSet st key entry) = Suc (ms_stamp st)"
  by (simp add: storeSet_def Let_def)

lemma storeStep_stamp: "ms_stamp st \<le> ms_stamp (storeStep op st)"
proof (cases op)
  case (OpEvict m)
  have "ms_stamp (evictLoop p x ks st) = ms_stamp st" for p x ks
    unfolding evictLoop_def by (induction ks arbitrary: st) auto
  with OpEvict show ?thesis by (simp add: storeEvict_def)
qed (auto simp: storeSet_def Let_def storeDelete_def storeClear_def)

lemma storeGet_stamp: "store_inv st \<Longrightarrow> storeGet st k = Some e \<Longrightarrow> ce_stamp e \<le> ms_stamp st"
  using map_of_SomeD by (fastforce simp: storeGet_def store_inv_def)

lemma storeGet_unique:
  assumes "store_inv st" "storeGet st k = Some e" "storeGet st k' = Some e'" "ce_stamp e = ce_stamp e'"
  shows "e = e'"
proof -
  have d: "distinct (map (ce_stamp \<circ> snd) (ms_entries st))"
    using assms(1) by (simp add: store_inv_def)
  then have "inj_on (ce_stamp \<circ> snd) (set (ms_entries st))" by (simp add: distinct_map)
  moreover have "(keyOf k, e) \<in> set (ms_entries st)" "(keyOf k', e') \<in> set (ms_entries st)"
    using assms(2,3) map_of_SomeD by (simp_all add: storeGet_def, fastforce+)
  ultimately have "(keyOf k, e) = (keyOf k', e')"
    using assms(4) by (intro inj_onD [of "ce_stamp \<circ> snd" "set (ms_entries st)"]) simp_all
  then show ?thesis by simp
qed

subsection \<open>The contract of a store\<close>

text \<open>
  The methods the client calls; a custom store may throw. A method that throws may or may
  not have had its effect.
\<close>

record 's store_iface =
  si_get :: "'s \<Rightarrow> cache_key \<Rightarrow> err + cache_entry option"
  si_set :: "'s \<Rightarrow> cache_key \<Rightarrow> cache_input \<Rightarrow> (err + nat) \<times> 's"
  si_delete :: "'s \<Rightarrow> cache_key \<Rightarrow> err option \<times> 's"
  si_clear :: "'s \<Rightarrow> 's"

definition key_ok :: "cache_key \<Rightarrow> bool" where
  "key_ok k \<longleftrightarrow> NUL \<notin> set (ck_method k)"

locale response_store =
  fixes iface :: "'s store_iface"
    and valid :: "'s \<Rightarrow> bool"
    and clock :: "'s \<Rightarrow> nat"
  assumes set_valid: "valid s \<Longrightarrow> key_ok k \<Longrightarrow> valid (snd (si_set iface s k v))"
    and delete_valid: "valid s \<Longrightarrow> key_ok k \<Longrightarrow> valid (snd (si_delete iface s k))"
    and clear_valid: "valid s \<Longrightarrow> valid (si_clear iface s)"
    and set_get: "valid s \<Longrightarrow> key_ok k \<Longrightarrow> key_ok k' \<Longrightarrow>
      si_get iface (snd (si_set iface s k v)) k' = Inr (Some e) \<Longrightarrow>
      si_get iface s k' = Inr (Some e) \<or> same_key k k' \<and> cache_input.truncate e = v \<and> clock s < ce_stamp e"
    and set_hit: "valid s \<Longrightarrow> key_ok k \<Longrightarrow> si_set iface s k v = (Inr n, s') \<Longrightarrow>
      si_get iface s' k = Inr (Some (cache_input.extend v \<lparr>ce_stamp = n\<rparr>))"
    and delete_get: "valid s \<Longrightarrow> key_ok k \<Longrightarrow> key_ok k' \<Longrightarrow>
      si_get iface (snd (si_delete iface s k)) k' = Inr (Some e) \<Longrightarrow> si_get iface s k' = Inr (Some e)"
    and delete_miss: "valid s \<Longrightarrow> key_ok k \<Longrightarrow> key_ok k' \<Longrightarrow> si_delete iface s k = (None, s') \<Longrightarrow>
      same_key k k' \<Longrightarrow> si_get iface s' k' \<noteq> Inr (Some e)"
    and clear_get: "si_get iface (si_clear iface s) k \<noteq> Inr (Some e)"
    and stamp_clock: "valid s \<Longrightarrow> key_ok k \<Longrightarrow> si_get iface s k = Inr (Some e) \<Longrightarrow> ce_stamp e \<le> clock s"
    and clock_set: "clock s \<le> clock (snd (si_set iface s k v))"
    and clock_delete: "clock s \<le> clock (snd (si_delete iface s k))"
    and clock_clear: "clock s \<le> clock (si_clear iface s)"
    and stamp_unique: "valid s \<Longrightarrow> key_ok k \<Longrightarrow> key_ok k' \<Longrightarrow> si_get iface s k = Inr (Some e) \<Longrightarrow>
      si_get iface s k' = Inr (Some e') \<Longrightarrow> ce_stamp e = ce_stamp e' \<Longrightarrow> e = e'"
    and get_same: "key_ok k \<Longrightarrow> key_ok k' \<Longrightarrow> same_key k k' \<Longrightarrow> si_get iface s k = si_get iface s k'"

text \<open>The in-memory store never throws.\<close>

definition inMemory :: "mem_store store_iface" where
  "inMemory = \<lparr>si_get = \<lambda>s k. Inr (storeGet s k), si_set = \<lambda>s k v. apfst Inr (storeSet s k v),
     si_delete = \<lambda>s k. (None, storeDelete s k), si_clear = storeClear\<rparr>"

lemma inMemory_simps [simp]:
  "si_get inMemory s k = Inr (storeGet s k)" "si_set inMemory s k v = apfst Inr (storeSet s k v)"
  "si_delete inMemory s k = (None, storeDelete s k)" "si_clear inMemory s = storeClear s"
  by (simp_all add: inMemory_def)

interpretation memory: response_store inMemory store_inv ms_stamp
proof (unfold_locales, goal_cases)
  case (4 s k k' v e)
  then show ?case
    by (auto simp: key_ok_def storeGet_set storeSet_stamp cache_input.defs split: if_splits)
next
  case (5 s k v n s')
  then have "storeSet s k v = (n, s')" by (cases "storeSet s k v") simp
  then show ?case
    using storeGet_set [of k k s v] 5 by (simp add: key_ok_def same_key_def)
next
  case (9 s k e)
  then show ?case by (simp add: storeGet_stamp)
next
  case (10 s k v)
  then show ?case using storeStep_stamp [of s "OpSet k v"] by simp
next
  case (11 s k)
  then show ?case using storeStep_stamp [of s "OpDelete k"] by simp
next
  case (13 s k k' e e')
  then show ?case using storeGet_unique by simp
next
  case (14 k k' s)
  then show ?case using keyOf_injective [of k k'] 14 by (simp add: key_ok_def storeGet_def)
next
  case (12 s)
  then show ?case using storeStep_stamp [of s OpClear] by simp
qed (auto simp: key_ok_def set_inv storeDelete_inv storeClear_inv storeGet_delete split: if_splits)

subsection \<open>Properties of the in-memory store\<close>

lemma storeStep_max: "ms_maxEntries (storeStep op st) = ms_maxEntries st"
proof (cases op)
  case (OpEvict m)
  have "ms_maxEntries (evictLoop p x ks st) = ms_maxEntries st" for p x ks
    unfolding evictLoop_def by (induction ks arbitrary: st) auto
  with OpEvict show ?thesis by (simp add: storeEvict_def)
qed (auto simp: storeSet_def Let_def storeDelete_def storeClear_def)

lemma fold_max: "ms_maxEntries (fold storeStep ops st) = ms_maxEntries st"
  by (induction ops arbitrary: st) (simp_all add: storeStep_max)

text \<open>
  Whatever sequence of writes, deletions, evictions and clears an in-memory response
  store goes through, its counter of capped entries is exact, never exceeds maxEntries (512
  by default) when that is positive, its keys are distinct, and no two entries carry the
  same stamp.
\<close>

theorem store_stays_bounded:
  fixes maxEntries :: "int option"
  assumes "list_all op_ok ops"
  defines "st \<equiv> fold storeStep ops (newStore maxEntries)"
  shows "ms_cappedSize st = int (length (filter (\<lambda>k. methodOfKey k \<notin> set CAP_EXEMPT_METHODS) (map fst (ms_entries st))))
    \<and> (0 < or_else maxEntries 512 \<longrightarrow> ms_cappedSize st \<le> or_else maxEntries 512)
    \<and> distinct (map fst (ms_entries st)) \<and> distinct (map (ce_stamp \<circ> snd) (ms_entries st))"
proof -
  have "store_inv st" "ms_maxEntries st = or_else maxEntries 512"
    using fold_inv [OF newStore_inv assms(1), of maxEntries] fold_max [of ops "newStore maxEntries"]
    by (simp_all add: st_def newStore_def)
  then show ?thesis by (auto simp: store_inv_def cappedKeys_def)
qed

definition exampleKey :: "string \<Rightarrow> cache_key" where
  "exampleKey u = \<lparr>ck_method = ''resources/read'', ck_params = Some u, ck_partition = None\<rparr>"

theorem store_stays_bounded_witness:
  "ms_cappedSize (fold storeStep
     [OpSet (exampleKey ''a'') \<lparr>ci_value = ''1'', ci_expiresAt = None, ci_scope = None\<rparr>,
      OpSet (exampleKey ''b'') \<lparr>ci_value = ''2'', ci_expiresAt = None, ci_scope = None\<rparr>] (newStore (Some 1))) \<le> 1"
  using store_stays_bounded [of "[OpSet (exampleKey ''a'') \<lparr>ci_value = ''1'', ci_expiresAt = None, ci_scope = None\<rparr>,
      OpSet (exampleKey ''b'') \<lparr>ci_value = ''2'', ci_expiresAt = None, ci_scope = None\<rparr>]" "Some 1"]
  by (simp add: exampleKey_def NUL_def)

lemma displaced_capped:
  assumes "NUL \<notin> set (ck_method k')" "displaced st key k'"
  shows "ck_method k' \<notin> set CAP_EXEMPT_METHODS"
proof -
  have "keyOf k' \<in> set (cappedKeys st)"
    using assms(2) by (cases "cappedKeys st") (auto simp: displaced_def)
  then show ?thesis using assms(1) by (simp add: cappedKeys_def)
qed

text \<open>
  C19: The store implements a map from logical keys (method, partition, params) to entries:
  strings with delimiters or NULs in them never make two keys collide; a write is read back
  with its own stamp, a deletion removes one key, an eviction one method, and a write
  removes no other key unless the cap is reached, and then only the oldest
  capped one, never a list singleton.
\<close>

theorem store_implements_map:
  assumes "store_inv st" "NUL \<notin> set (ck_method key)" "NUL \<notin> set (ck_method k')" "NUL \<notin> set m"
  shows "storeGet (snd (storeSet st key entry)) k' =
      (if same_key key k' then Some (cache_input.extend entry \<lparr>ce_stamp = Suc (ms_stamp st)\<rparr>)
       else if displaced st key k' then None else storeGet st k')
    \<and> (displaced st key k' \<longrightarrow> ck_method k' \<notin> set CAP_EXEMPT_METHODS \<and> 0 < ms_maxEntries st
         \<and> ms_cappedSize st = ms_maxEntries st)
    \<and> storeGet (storeDelete st key) k' = (if same_key key k' then None else storeGet st k')
    \<and> storeGet (storeEvict st m) k' = (if ck_method k' = m then None else storeGet st k')
    \<and> storeGet (storeClear st) k' = None"
proof -
  have "ms_cappedSize st = ms_maxEntries st" if "displaced st key k'"
    using that assms(1) by (simp add: displaced_def store_inv_def)
  moreover have "0 < ms_maxEntries st" if "displaced st key k'"
    using that by (simp add: displaced_def)
  ultimately show ?thesis
    using storeGet_set [OF assms(2,3), of st entry] displaced_capped [OF assms(3)]
      storeGet_delete [OF assms(2,3)] storeGet_evict [OF assms(1,4,3)]
    by (simp add: storeSet_stamp)
qed

theorem store_implements_map_witness:
  "storeGet (snd (storeSet (newStore None) (exampleKey ''a'')
      \<lparr>ci_value = ''1'', ci_expiresAt = None, ci_scope = None\<rparr>)) (exampleKey ''a'')
   = Some \<lparr>ci_value = ''1'', ci_expiresAt = None, ci_scope = None, ce_stamp = 1\<rparr>"
  using store_implements_map [OF newStore_inv, of "exampleKey ''a''" "exampleKey ''a''" "''tools/list''" None
      "\<lparr>ci_value = ''1'', ci_expiresAt = None, ci_scope = None\<rparr>"]
  by (simp add: exampleKey_def NUL_def same_key_def newStore_def cache_input.defs)

end
