(* ===== verification/ClientCache.thy ===== *)
theory ClientCache
  imports ResponseCache
begin

text \<open>
  The client's cache coordination (packages/client/src/client/responseCache.ts,
  \<open>ClientResponseCache\<close>), over any store that meets the contract \<open>response_store\<close>.

  An operation first runs synchronously and then issues store calls separated by awaits. It
  is modelled as its synchronous part, which changes the client's record and fixes the list
  of calls; the first call is issued at once, the others are left to a later step. Several
  clients may share one store. The two probes of a lookup take the store each of them sees.
  Errors given to the \<open>reportError\<close> sink are observations.
\<close>

subsection \<open>State and keys\<close>

record 'v client_cache =
  cc_isUserSupplied :: bool
  cc_cachePartition :: string
  cc_serverIdentity :: string
  cc_evictionGeneration :: "(string \<times> nat) list"
  cc_toolIndex :: "(nat \<times> (string \<rightharpoonup> js)) option"
  cc_outputIndex :: "(nat \<times> (string \<rightharpoonup> 'v)) option"

definition newCache :: "bool \<Rightarrow> string \<Rightarrow> 'v client_cache" where
  "newCache isUserSupplied cachePartition =
     \<lparr>cc_isUserSupplied = isUserSupplied, cc_cachePartition = cachePartition, cc_serverIdentity = '''',
      cc_evictionGeneration = [], cc_toolIndex = None, cc_outputIndex = None\<rparr>"

definition setServerIdentity :: "string \<Rightarrow> 'v client_cache \<Rightarrow> 'v client_cache" where
  "setServerIdentity identity cc = cc\<lparr>cc_serverIdentity := identity\<rparr>"

definition partitionFor :: "'v client_cache \<Rightarrow> cache_scope \<Rightarrow> string" where
  "partitionFor cc scope =
     json_text (JArr [JStr (cc_serverIdentity cc), JStr (if scope = ScopePublic then '''' else cc_cachePartition cc)])"

definition slotKey :: "string \<Rightarrow> string \<Rightarrow> string \<Rightarrow> cache_key" where
  "slotKey method params slot = \<lparr>ck_method = method, ck_params = Some params, ck_partition = Some slot\<rparr>"

text \<open>Own slot first, then the server's shared slot, which is served only when its scope is public.\<close>

definition probe :: "'s store_iface \<Rightarrow> 's \<Rightarrow> 's \<Rightarrow> 'v client_cache \<Rightarrow> string \<Rightarrow> string option \<Rightarrow> err + cache_entry option" where
  "probe iface s1 s2 cc method params =
     (let key = slotKey method (or_else params '''');
          ownPartition = partitionFor cc ScopePrivate;
          sharedPartition = partitionFor cc ScopePublic
      in case si_get iface s1 (key ownPartition) of
           Inl e \<Rightarrow> Inl e
         | Inr (Some own) \<Rightarrow> Inr (Some own)
         | Inr None \<Rightarrow>
             if sharedPartition = ownPartition then Inr None
             else (case si_get iface s2 (key sharedPartition) of
                     Inl e \<Rightarrow> Inl e
                   | Inr None \<Rightarrow> Inr None
                   | Inr (Some shared) \<Rightarrow>
                       if ci_scope shared = Some ScopePublic then Inr (Some shared) else Inr None))"

subsection \<open>Store calls\<close>

datatype store_call =
    CallSet cache_key cache_input
  | CallDelete cache_key
  | CallReport err

text \<open>One guarded call: the new store and what is reported.\<close>

fun runCall :: "'s store_iface \<Rightarrow> store_call \<Rightarrow> 's \<Rightarrow> 's \<times> err list" where
  "runCall iface (CallSet k v) s =
     (case si_set iface s k v of (Inl e, s') \<Rightarrow> (s', [e]) | (Inr _, s') \<Rightarrow> (s', []))"
| "runCall iface (CallDelete k) s =
     (case si_delete iface s k of (Some e, s') \<Rightarrow> (s', [e]) | (None, s') \<Rightarrow> (s', []))"
| "runCall iface (CallReport e) s = (s, [e])"

text \<open>All calls of an operation with nothing in between.\<close>

definition runCalls :: "'s store_iface \<Rightarrow> store_call list \<Rightarrow> 's \<Rightarrow> 's" where
  "runCalls iface calls s = fold (\<lambda>c s. fst (runCall iface c s)) calls s"

definition deleteBoth :: "'v client_cache \<Rightarrow> string \<Rightarrow> string \<Rightarrow> store_call list" where
  "deleteBoth cc method params =
     (let ownPartition = partitionFor cc ScopePrivate;
          sharedPartition = partitionFor cc ScopePublic
      in CallDelete (slotKey method params ownPartition)
         # (if sharedPartition \<noteq> ownPartition then [CallDelete (slotKey method params sharedPartition)] else []))"

subsection \<open>Generations\<close>

definition generation :: "'v client_cache \<Rightarrow> string \<Rightarrow> nat" where
  "generation cc gk = or_else (map_of (cc_evictionGeneration cc) gk) 0"

definition setGeneration :: "string \<Rightarrow> nat \<Rightarrow> 'v client_cache \<Rightarrow> 'v client_cache" where
  "setGeneration gk n cc = cc\<lparr>cc_evictionGeneration := AList.update gk n (cc_evictionGeneration cc)\<rparr>"

definition evict :: "string \<Rightarrow> 'v client_cache \<Rightarrow> 'v client_cache \<times> store_call list" where
  "evict method cc = (setGeneration method (generation cc method + 1) cc, deleteBoth cc method '''')"

definition evictKey :: "string \<Rightarrow> string \<Rightarrow> 'v client_cache \<Rightarrow> 'v client_cache \<times> store_call list" where
  "evictKey method params cc =
     (let gk = genKey method (Some params) in
      (case map_of (cc_evictionGeneration cc) gk of
         None \<Rightarrow> cc
       | Some current \<Rightarrow> setGeneration gk (current + 1) cc,
       deleteBoth cc method params))"

definition captureGeneration :: "string \<Rightarrow> string option \<Rightarrow> 'v client_cache \<Rightarrow> nat \<times> 'v client_cache" where
  "captureGeneration method params cc =
     (let gk = genKey method params; current = generation cc gk in (current, setGeneration gk current cc))"

subsection \<open>Write and read\<close>

definition encodeCacheValue :: "js \<Rightarrow> err + string" where
  "encodeCacheValue value =
     (case JSON_stringify value of
        None \<Rightarrow> Inl (TypeErr ''cache value is not JSON-serializable: it has no JSON representation'')
      | Some json \<Rightarrow> Inr json)"

record freshness =
  fr_expiresAt :: int
  fr_scope :: cache_scope
  fr_params :: "string option"

definition writeOp :: "string \<Rightarrow> js \<Rightarrow> nat \<Rightarrow> freshness option \<Rightarrow> 'v client_cache \<Rightarrow> store_call list" where
  "writeOp method value capturedGen fr cc =
     (let params0 = (case fr of None \<Rightarrow> None | Some f \<Rightarrow> fr_params f) in
      if generation cc (genKey method params0) \<noteq> capturedGen then []
      else
        (let params = or_else params0 '''';
             ownPartition = partitionFor cc ScopePrivate;
             sharedPartition = partitionFor cc ScopePublic;
             part = (if (case fr of None \<Rightarrow> ScopePrivate | Some f \<Rightarrow> fr_scope f) = ScopePublic
                     then sharedPartition else ownPartition)
         in (case encodeCacheValue value of
               Inl e \<Rightarrow> CallReport e
             | Inr json \<Rightarrow> CallSet (slotKey method params part)
                 \<lparr>ci_value = json, ci_expiresAt = map_option fr_expiresAt fr, ci_scope = map_option fr_scope fr\<rparr>)
            # (if sharedPartition \<noteq> ownPartition
               then [CallDelete (slotKey method params
                       (if part = ownPartition then sharedPartition else ownPartition))]
               else [])))"

text \<open>What \<open>JSON.parse\<close> throws; its message is the engine's.\<close>

definition jsonSyntaxError :: err where
  "jsonSyntaxError = SyntaxErr ''JSON.parse''"

definition decodeDocument :: "(string \<Rightarrow> jnum) \<Rightarrow> string \<Rightarrow> err + js" where
  "decodeDocument num doc =
     (case JSON_parse num doc of
        None \<Rightarrow> Inl jsonSyntaxError
      | Some parsed \<Rightarrow>
          if isPlainObject parsed then Inr parsed else Inl (TypeErr ''cached document is not an object''))"

definition freshAt :: "int \<Rightarrow> cache_entry \<Rightarrow> bool" where
  "freshAt now entry = (case ci_expiresAt entry of None \<Rightarrow> False | Some t \<Rightarrow> now < t)"

text \<open>The result of \<open>read\<close> and the calls it issues: a corrupt fresh document is reported and deleted.\<close>

definition readOp ::
  "(string \<Rightarrow> jnum) \<Rightarrow> 's store_iface \<Rightarrow> int \<Rightarrow> 's \<Rightarrow> 's \<Rightarrow> string \<Rightarrow> string option \<Rightarrow> 'v client_cache
     \<Rightarrow> (err + js option) \<times> store_call list" where
  "readOp num iface now s1 s2 method params cc =
     (case probe iface s1 s2 cc method params of
        Inl e \<Rightarrow> (Inl e, [])
      | Inr None \<Rightarrow> (Inr None, [])
      | Inr (Some entry) \<Rightarrow>
          if \<not> freshAt now entry then (Inr None, [])
          else (case decodeDocument num (ci_value entry) of
                  Inr parsed \<Rightarrow> (Inr (Some parsed), [])
                | Inl e \<Rightarrow> (Inr None, CallReport e # deleteBoth cc method (or_else params ''''))))"

definition resetForReconnect :: "'s store_iface \<Rightarrow> 'v client_cache \<Rightarrow> 's \<Rightarrow> 'v client_cache \<times> 's" where
  "resetForReconnect iface cc s =
     (cc\<lparr>cc_evictionGeneration := [], cc_toolIndex := None, cc_outputIndex := None, cc_serverIdentity := ''''\<rparr>,
      if cc_isUserSupplied cc then s else si_clear iface s)"

subsection \<open>Views derived from the tool list\<close>

definition decodeListTools :: "(string \<Rightarrow> jnum) \<Rightarrow> cache_entry \<Rightarrow> err + js list" where
  "decodeListTools num entry =
     (case JSON_parse num (ci_value entry) of
        None \<Rightarrow> Inl jsonSyntaxError
      | Some parsed \<Rightarrow>
          (case getp parsed ''tools'' of
             JArr tools \<Rightarrow>
               if list_all (\<lambda>t. isPlainObject t \<or> isArray t) tools then Inr tools
               else Inl (TypeErr ''cached tools/list document has a malformed tools array'')
           | _ \<Rightarrow> Inl (TypeErr ''cached tools/list document has a malformed tools array'')))"

text \<open>
  The index by name, a later tool replacing an earlier one of the same name. A name that is
  not a string is a key no lookup asks for. A document that does not decode gives an empty
  index and one report.
\<close>

definition indexTools :: "(js \<Rightarrow> 'a option) \<Rightarrow> js list \<Rightarrow> string \<rightharpoonup> 'a" where
  "indexTools f tools =
     fold (\<lambda>tool ix. case (str_of (getp tool ''name''), f tool) of
             (Some name, Some x) \<Rightarrow> ix(name \<mapsto> x)
           | _ \<Rightarrow> ix) tools Map.empty"

definition deriveIndex :: "(string \<Rightarrow> jnum) \<Rightarrow> (js \<Rightarrow> 'a option) \<Rightarrow> cache_entry \<Rightarrow> (string \<rightharpoonup> 'a) \<times> err list" where
  "deriveIndex num f entry =
     (case decodeListTools num entry of
        Inl e \<Rightarrow> (Map.empty, [e])
      | Inr tools \<Rightarrow> (indexTools f tools, []))"

definition toolDefinition ::
  "(string \<Rightarrow> jnum) \<Rightarrow> 's store_iface \<Rightarrow> 's \<Rightarrow> 's \<Rightarrow> string \<Rightarrow> 'v client_cache
     \<Rightarrow> (err + js option) \<times> 'v client_cache \<times> err list" where
  "toolDefinition num iface s1 s2 name cc =
     (case probe iface s1 s2 cc ''tools/list'' None of
        Inl e \<Rightarrow> (Inl e, cc, [])
      | Inr None \<Rightarrow> (Inr None, cc\<lparr>cc_toolIndex := None\<rparr>, [])
      | Inr (Some entry) \<Rightarrow>
          (case cc_toolIndex cc of
             Some (stamp, byName) \<Rightarrow>
               if stamp = ce_stamp entry then (Inr (byName name), cc, [])
               else (let (byName', reports) = deriveIndex num Some entry in
                     (Inr (byName' name), cc\<lparr>cc_toolIndex := Some (ce_stamp entry, byName')\<rparr>, reports))
           | None \<Rightarrow>
               (let (byName', reports) = deriveIndex num Some entry in
                (Inr (byName' name), cc\<lparr>cc_toolIndex := Some (ce_stamp entry, byName')\<rparr>, reports))))"

definition outputValidator ::
  "(string \<Rightarrow> jnum) \<Rightarrow> 's store_iface \<Rightarrow> 's \<Rightarrow> 's \<Rightarrow> string \<Rightarrow> (js \<Rightarrow> 'v option) \<Rightarrow> 'v client_cache
     \<Rightarrow> (err + 'v option) \<times> 'v client_cache \<times> err list" where
  "outputValidator num iface s1 s2 name compile cc =
     (case probe iface s1 s2 cc ''tools/list'' None of
        Inl e \<Rightarrow> (Inl e, cc, [])
      | Inr None \<Rightarrow> (Inr None, cc\<lparr>cc_outputIndex := None\<rparr>, [])
      | Inr (Some entry) \<Rightarrow>
          (case cc_outputIndex cc of
             Some (stamp, byName) \<Rightarrow>
               if stamp = ce_stamp entry then (Inr (byName name), cc, [])
               else (let (byName', reports) = deriveIndex num compile entry in
                     (Inr (byName' name), cc\<lparr>cc_outputIndex := Some (ce_stamp entry, byName')\<rparr>, reports))
           | None \<Rightarrow>
               (let (byName', reports) = deriveIndex num compile entry in
                (Inr (byName' name), cc\<lparr>cc_outputIndex := Some (ce_stamp entry, byName')\<rparr>, reports))))"

subsection \<open>Clients sharing a store\<close>

record ('s, 'v) cache_system =
  cs_store :: 's
  cs_clients :: "nat \<Rightarrow> 'v client_cache"
  cs_pending :: "(nat \<times> store_call) list"

datatype cache_op =
    CSetIdentity string
  | CCapture string "string option"
  | CEvict string
  | CEvictKey string string
  | CWrite string js nat "freshness option"
  | CRead string "string option" int
  | CToolDefinition string
  | COutputValidator string
  | CReset

datatype cache_event = Do nat cache_op | Resume nat

text \<open>
  What is seen of a step. \<open>Stored\<close> and \<open>Served\<close> name the server identity and the principal of
  the client that wrote or read.
\<close>

datatype cache_obs =
    Stored string string cache_key cache_input
  | Served string string string "string option" js
  | Looked string "js option"
  | Reported err

text \<open>Issue the calls of an operation: the first at once, the others after an await.\<close>

definition issue :: "'s store_iface \<Rightarrow> nat \<Rightarrow> store_call list \<Rightarrow> ('s, 'v) cache_system \<Rightarrow> ('s, 'v) cache_system \<times> cache_obs list" where
  "issue iface c calls sys =
     (case calls of
        [] \<Rightarrow> (sys, [])
      | call # later \<Rightarrow>
          (let (s', reports) = runCall iface call (cs_store sys);
               stored = (case call of
                  CallSet k v \<Rightarrow>
                    [Stored (cc_serverIdentity (cs_clients sys c)) (cc_cachePartition (cs_clients sys c)) k v]
                | _ \<Rightarrow> [])
           in (sys\<lparr>cs_store := s', cs_pending := cs_pending sys @ map (Pair c) later\<rparr>, stored @ map Reported reports)))"

definition setClient :: "nat \<Rightarrow> 'v client_cache \<Rightarrow> ('s, 'v) cache_system \<Rightarrow> ('s, 'v) cache_system" where
  "setClient c cc sys = sys\<lparr>cs_clients := (cs_clients sys)(c := cc)\<rparr>"

fun clientStep ::
  "(string \<Rightarrow> jnum) \<Rightarrow> (js \<Rightarrow> 'v option) \<Rightarrow> 's store_iface \<Rightarrow> nat \<Rightarrow> cache_op \<Rightarrow> ('s, 'v) cache_system
     \<Rightarrow> ('s, 'v) cache_system \<times> cache_obs list" where
  "clientStep num compile iface c (CSetIdentity i) sys = (setClient c (setServerIdentity i (cs_clients sys c)) sys, [])"
| "clientStep num compile iface c (CCapture m p) sys = (setClient c (snd (captureGeneration m p (cs_clients sys c))) sys, [])"
| "clientStep num compile iface c (CEvict m) sys =
     (let (cc, calls) = evict m (cs_clients sys c) in issue iface c calls (setClient c cc sys))"
| "clientStep num compile iface c (CEvictKey m p) sys =
     (let (cc, calls) = evictKey m p (cs_clients sys c) in issue iface c calls (setClient c cc sys))"
| "clientStep num compile iface c (CWrite m v g fr) sys = issue iface c (writeOp m v g fr (cs_clients sys c)) sys"
| "clientStep num compile iface c (CRead m p now) sys =
     (let (r, calls) = readOp num iface now (cs_store sys) (cs_store sys) m p (cs_clients sys c);
          (sys', os) = issue iface c calls sys
      in (sys', (case r of Inr (Some v) \<Rightarrow> [Served (cc_serverIdentity (cs_clients sys c)) (cc_cachePartition (cs_clients sys c)) m p v]
                | Inl e \<Rightarrow> [Reported e] | _ \<Rightarrow> []) @ os))"
| "clientStep num compile iface c (CToolDefinition name) sys =
     (let (r, cc, reports) = toolDefinition num iface (cs_store sys) (cs_store sys) name (cs_clients sys c)
      in (setClient c cc sys, (case r of Inr t \<Rightarrow> [Looked name t] | Inl e \<Rightarrow> [Reported e]) @ map Reported reports))"
| "clientStep num compile iface c (COutputValidator name) sys =
     (let (r, cc, reports) = outputValidator num iface (cs_store sys) (cs_store sys) name compile (cs_clients sys c)
      in (setClient c cc sys, (case r of Inl e \<Rightarrow> [Reported e] | _ \<Rightarrow> []) @ map Reported reports))"
| "clientStep num compile iface c CReset sys =
     (let (cc, s) = resetForReconnect iface (cs_clients sys c) (cs_store sys)
      in ((setClient c cc sys)\<lparr>cs_store := s\<rparr>, []))"

text \<open>A continuation resumes in any order.\<close>

fun cacheStep ::
  "(string \<Rightarrow> jnum) \<Rightarrow> (js \<Rightarrow> 'v option) \<Rightarrow> 's store_iface \<Rightarrow> cache_event \<Rightarrow> ('s, 'v) cache_system
     \<Rightarrow> ('s, 'v) cache_system \<times> cache_obs list" where
  "cacheStep num compile iface (Do c op) sys = clientStep num compile iface c op sys"
| "cacheStep num compile iface (Resume i) sys =
     (if i < length (cs_pending sys)
      then issue iface (fst (cs_pending sys ! i)) [snd (cs_pending sys ! i)]
             (sys\<lparr>cs_pending := take i (cs_pending sys) @ drop (Suc i) (cs_pending sys)\<rparr>)
      else (sys, []))"

fun cacheRun ::
  "(string \<Rightarrow> jnum) \<Rightarrow> (js \<Rightarrow> 'v option) \<Rightarrow> 's store_iface \<Rightarrow> cache_event list \<Rightarrow> ('s, 'v) cache_system
     \<Rightarrow> ('s, 'v) cache_system \<times> cache_obs list" where
  "cacheRun num compile iface [] sys = (sys, [])"
| "cacheRun num compile iface (ev # evs) sys =
     (let (sys1, os1) = cacheStep num compile iface ev sys;
          (sys2, os2) = cacheRun num compile iface evs sys1
      in (sys2, os1 @ os2))"

subsection \<open>Slots\<close>

text \<open>The callers' obligation: method names hold no NUL.\<close>

fun cop_ok :: "cache_op \<Rightarrow> bool" where
  "cop_ok (CEvict m) = (NUL \<notin> set m)"
| "cop_ok (CEvictKey m p) = (NUL \<notin> set m)"
| "cop_ok (CWrite m v g fr) = (NUL \<notin> set m)"
| "cop_ok (CRead m p now) = (NUL \<notin> set m)"
| "cop_ok _ = True"

fun cev_ok :: "cache_event \<Rightarrow> bool" where
  "cev_ok (Do c op) = cop_ok op"
| "cev_ok (Resume i) = True"

text \<open>The slot of an identity and a principal, for a scope as it is stored.\<close>

definition slotFor :: "string \<Rightarrow> string \<Rightarrow> cache_scope option \<Rightarrow> string" where
  "slotFor identity user scope =
     json_text (JArr [JStr identity, JStr (if scope = Some ScopePublic then '''' else user)])"

lemma partitionFor_slot:
  "partitionFor cc scope = slotFor (cc_serverIdentity cc) (cc_cachePartition cc) (Some scope)"
  by (simp add: partitionFor_def slotFor_def)

lemma slotFor_eq:
  "slotFor i p a = slotFor j q b \<longleftrightarrow>
     i = j \<and> (if a = Some ScopePublic then '''' else p) = (if b = Some ScopePublic then '''' else q)"
proof
  assume "slotFor i p a = slotFor j q b"
  from json_pair_injective [OF this [unfolded slotFor_def]]
  show "i = j \<and> (if a = Some ScopePublic then [] else p) = (if b = Some ScopePublic then [] else q)" .
qed (simp only: slotFor_def)

lemma slotFor_default: "slotFor i p None = slotFor i p (Some ScopePrivate)"
  by (simp add: slotFor_def)

lemma slotKey_simps [simp]:
  "ck_method (slotKey m p s) = m" "ck_params (slotKey m p s) = Some p" "ck_partition (slotKey m p s) = Some s"
  by (simp_all add: slotKey_def)

lemma key_ok_slotKey [simp]: "key_ok (slotKey m p s) \<longleftrightarrow> NUL \<notin> set m"
  by (simp add: key_ok_def)

lemma same_slotKey [simp]: "same_key (slotKey m p s) (slotKey m' p' s') \<longleftrightarrow> m = m' \<and> p = p' \<and> s = s'"
  by (auto simp: same_key_def)

lemma tools_list_ok [simp]: "NUL \<notin> set ''tools/list''"
  by (simp add: NUL_def)

fun call_ok :: "store_call \<Rightarrow> bool" where
  "call_ok (CallSet k v) = key_ok k"
| "call_ok (CallDelete k) = key_ok k"
| "call_ok (CallReport e) = True"

fun is_delete :: "store_call \<Rightarrow> bool" where
  "is_delete (CallDelete k) = key_ok k"
| "is_delete _ = False"

lemma deleteBoth_deletes: "NUL \<notin> set m \<Longrightarrow> list_all is_delete (deleteBoth cc m p)"
  by (simp add: deleteBoth_def Let_def)

text \<open>The calls of a write: at most one write, first, to the slot of its scope; then deletions.\<close>

lemma writeOp_calls:
  assumes "NUL \<notin> set m" "writeOp m v g fr cc = call # later"
  shows "list_all is_delete later
    \<and> ((\<exists>e. call = CallReport e) \<or> (\<exists>input. ci_scope input = map_option fr_scope fr
        \<and> call = CallSet (slotKey m (or_else (case fr of None \<Rightarrow> None | Some f \<Rightarrow> fr_params f) '''')
            (slotFor (cc_serverIdentity cc) (cc_cachePartition cc) (ci_scope input))) input))"
proof -
  have g: "generation cc (genKey m (case fr of None \<Rightarrow> None | Some f \<Rightarrow> fr_params f)) = g"
    using assms(2) by (auto simp: writeOp_def Let_def split: if_splits)
  have later: "list_all is_delete later"
    using assms by (auto simp: writeOp_def Let_def g split: if_splits)
  have scope: "(if (case fr of None \<Rightarrow> ScopePrivate | Some f \<Rightarrow> fr_scope f) = ScopePublic
        then partitionFor cc ScopePublic else partitionFor cc ScopePrivate)
      = slotFor (cc_serverIdentity cc) (cc_cachePartition cc) (map_option fr_scope fr)"
    by (cases fr; cases "fr_scope (the fr)") (simp_all add: partitionFor_slot slotFor_default)
  show ?thesis
    using assms(2) later
    by (cases "encodeCacheValue v") (auto simp: writeOp_def Let_def g scope)
qed

subsection \<open>What a store call can change\<close>

context response_store
begin

definition evolves :: "'s \<Rightarrow> 's \<Rightarrow> bool" where
  "evolves s s' \<longleftrightarrow> clock s \<le> clock s' \<and>
     (\<forall>k e. key_ok k \<longrightarrow> si_get iface s' k = Inr (Some e) \<longrightarrow> si_get iface s k = Inr (Some e) \<or> clock s < ce_stamp e)"

lemma runCall_fst:
  "fst (runCall iface (CallSet k v) s) = snd (si_set iface s k v)"
  "fst (runCall iface (CallDelete k) s) = snd (si_delete iface s k)"
  "fst (runCall iface (CallReport x) s) = s"
  by (simp_all split: prod.splits sum.splits option.splits)

lemma runCall_valid: "valid s \<Longrightarrow> call_ok c \<Longrightarrow> valid (fst (runCall iface c s))"
  by (cases c) (simp_all add: runCall_fst set_valid delete_valid del: runCall.simps)

lemma runCall_get:
  assumes "valid s" "call_ok c" "key_ok k'" "si_get iface (fst (runCall iface c s)) k' = Inr (Some e)"
  shows "si_get iface s k' = Inr (Some e)
    \<or> (\<exists>k v. c = CallSet k v \<and> same_key k k' \<and> cache_input.truncate e = v \<and> clock s < ce_stamp e)"
  using assms set_get [of s _ k'] delete_get [of s _ k']
  by (cases c) (auto simp add: runCall_fst simp del: runCall.simps)

lemma runCall_clock: "clock s \<le> clock (fst (runCall iface c s))"
  by (cases c) (simp_all add: runCall_fst clock_set clock_delete del: runCall.simps)

lemma runCall_evolves: "valid s \<Longrightarrow> call_ok c \<Longrightarrow> evolves s (fst (runCall iface c s))"
  unfolding evolves_def using runCall_get runCall_clock by blast

lemma clear_evolves: "evolves s (si_clear iface s)"
  unfolding evolves_def using clear_get clock_clear by blast

lemma moves_refl: "evolves s s"
  by (simp add: evolves_def)

lemma moves_trans: "evolves s s' \<Longrightarrow> evolves s' s'' \<Longrightarrow> evolves s s''"
  unfolding evolves_def by (meson le_less_trans order_trans)

lemma is_delete_ok: "is_delete c \<Longrightarrow> call_ok c"
  by (cases c) simp_all

subsection \<open>The system invariant\<close>

definition sys_ok :: "('s, 'v) cache_system \<Rightarrow> bool" where
  "sys_ok sys \<longleftrightarrow> valid (cs_store sys) \<and> list_all (\<lambda>p. is_delete (snd p)) (cs_pending sys)"

text \<open>Every entry held was stored by a client, in the slot of that client and of the entry's scope.\<close>

definition accounted :: "'s \<Rightarrow> cache_obs list \<Rightarrow> bool" where
  "accounted s os \<longleftrightarrow>
     (\<forall>k e. key_ok k \<longrightarrow> si_get iface s k = Inr (Some e) \<longrightarrow>
        (\<exists>i p k'. Stored i p k' (cache_input.truncate e) \<in> set os \<and> same_key k' k
           \<and> ck_partition k' = Some (slotFor i p (ci_scope e))))"

lemma accounted_mono: "accounted s os \<Longrightarrow> set os \<subseteq> set os' \<Longrightarrow> accounted s os'"
  unfolding accounted_def by blast

lemma truncate_scope [simp]: "ci_scope (cache_input.truncate e) = ci_scope e"
  by (simp add: cache_input.defs)

lemma issue_store:
  "cs_store (fst (issue iface c (call # later) sys)) = fst (runCall iface call (cs_store sys))"
  "cs_clients (fst (issue iface c (call # later) sys)) = cs_clients sys"
  "cs_pending (fst (issue iface c (call # later) sys)) = cs_pending sys @ map (Pair c) later"
  by (simp_all add: issue_def Let_def split: prod.splits)

lemma issue_Nil [simp]: "issue iface c [] sys = (sys, [])"
  by (simp add: issue_def)

lemma issue_ok:
  assumes "sys_ok sys" "calls = [] \<or> call_ok (hd calls)" "list_all is_delete (tl calls)"
  shows "sys_ok (fst (issue iface c calls sys)) \<and> evolves (cs_store sys) (cs_store (fst (issue iface c calls sys)))
    \<and> cs_clients (fst (issue iface c calls sys)) = cs_clients sys"
  using assms runCall_valid runCall_evolves moves_refl
  by (cases calls) (auto simp: issue_store sys_ok_def list_all_iff)

lemma issue_accounted:
  assumes "sys_ok sys" "calls = [] \<or> call_ok (hd calls)" "accounted (cs_store sys) os"
    "\<And>k v. calls \<noteq> [] \<Longrightarrow> hd calls = CallSet k v \<Longrightarrow> ck_partition k
        = Some (slotFor (cc_serverIdentity (cs_clients sys c)) (cc_cachePartition (cs_clients sys c)) (ci_scope v))"
  shows "accounted (cs_store (fst (issue iface c calls sys))) (os @ snd (issue iface c calls sys))"
proof (cases calls)
  case (Cons call later)
  let ?s' = "fst (runCall iface call (cs_store sys))"
  show ?thesis unfolding Cons issue_store accounted_def
  proof (intro allI impI)
    fix k e assume k: "key_ok k" "si_get iface ?s' k = Inr (Some e)"
    then consider (old) "si_get iface (cs_store sys) k = Inr (Some e)"
      | (new) k0 where "call = CallSet k0 (cache_input.truncate e)" "same_key k0 k"
      using runCall_get [of "cs_store sys" call k e] assms(1,2) Cons by (auto simp: sys_ok_def)
    then show "\<exists>i p k'. Stored i p k' (cache_input.truncate e) \<in> set (os @ snd (issue iface c (call # later) sys)) \<and> same_key k' k
           \<and> ck_partition k' = Some (slotFor i p (ci_scope e))"
    proof cases
      case old
      then show ?thesis using assms(3) k(1) unfolding accounted_def by (metis Un_iff set_append)
    next
      case new
      then show ?thesis using assms(4) [of k0 "cache_input.truncate e"] Cons
        by (auto simp: issue_def Let_def split: prod.splits)
    qed
  qed
qed (use assms in simp)

lemma setClient_simps [simp]:
  "cs_store (setClient c cc sys) = cs_store sys" "cs_pending (setClient c cc sys) = cs_pending sys"
  "cs_clients (setClient c cc sys) = (cs_clients sys)(c := cc)"
  by (simp_all add: setClient_def)

lemma sys_ok_setClient [simp]: "sys_ok (setClient c cc sys) \<longleftrightarrow> sys_ok sys"
  by (simp add: sys_ok_def)

text \<open>The calls of each operation are admissible.\<close>

definition calls_ok :: "'v client_cache \<Rightarrow> store_call list \<Rightarrow> bool" where
  "calls_ok cc calls \<longleftrightarrow> (calls = [] \<or> call_ok (hd calls)) \<and> list_all is_delete (tl calls)
     \<and> (\<forall>k v. calls \<noteq> [] \<longrightarrow> hd calls = CallSet k v \<longrightarrow>
          ck_partition k = Some (slotFor (cc_serverIdentity cc) (cc_cachePartition cc) (ci_scope v)))"

lemma deletes_calls_ok: "list_all is_delete calls \<Longrightarrow> calls_ok cc calls"
  by (cases calls; cases "hd calls") (auto simp: calls_ok_def is_delete_ok)

lemma report_calls_ok: "list_all is_delete calls \<Longrightarrow> calls_ok cc (CallReport e # calls)"
  by (simp add: calls_ok_def)

lemma evict_calls: "NUL \<notin> set m \<Longrightarrow> calls_ok cc' (snd (evict m cc))"
  by (simp add: evict_def deleteBoth_deletes deletes_calls_ok)

lemma evictKey_calls: "NUL \<notin> set m \<Longrightarrow> calls_ok cc' (snd (evictKey m p cc))"
  by (simp add: evictKey_def Let_def deleteBoth_deletes deletes_calls_ok)

lemma writeOp_calls_ok: "NUL \<notin> set m \<Longrightarrow> calls_ok cc (writeOp m v g fr cc)"
  by (cases "writeOp m v g fr cc") (use writeOp_calls in \<open>fastforce simp: calls_ok_def\<close>)+

lemma readOp_calls_ok: "NUL \<notin> set m \<Longrightarrow> calls_ok cc' (snd (readOp num iface now s1 s2 m p cc))"
  by (auto simp: readOp_def deleteBoth_deletes calls_ok_def [of _ "[]"]
      intro!: report_calls_ok split: sum.splits option.splits)

definition step_good :: "('s, 'v) cache_system \<Rightarrow> cache_obs list \<Rightarrow> ('s, 'v) cache_system \<times> cache_obs list \<Rightarrow> bool" where
  "step_good sys os r \<longleftrightarrow> sys_ok (fst r) \<and> evolves (cs_store sys) (cs_store (fst r))
     \<and> accounted (cs_store (fst r)) (os @ snd r)"

lemma issue_good:
  assumes "sys_ok sys" "accounted (cs_store sys) os" "calls_ok (cs_clients sys c) calls"
  shows "step_good sys os (issue iface c calls sys)"
  unfolding step_good_def
  using issue_ok [of sys calls c] issue_accounted [of sys calls os c] assms
  by (auto simp: calls_ok_def)

lemma quiet_good:
  assumes "sys_ok sys" "accounted (cs_store sys) os" "cs_store sys' = cs_store sys" "cs_pending sys' = cs_pending sys"
  shows "step_good sys os (sys', os')"
  using assms moves_refl accounted_mono [of "cs_store sys" os "os @ os'"] by (simp add: step_good_def sys_ok_def)

lemma step_good_cong:
  "step_good sys' os (x, y) \<Longrightarrow> cs_store sys' = cs_store sys \<Longrightarrow> step_good sys os (x, extra @ y)"
  using accounted_mono [of "cs_store x" "os @ y" "os @ extra @ y"] by (auto simp: step_good_def)

lemma cacheStep_good:
  assumes ok: "sys_ok sys" and acc: "accounted (cs_store sys) os" and ev: "cev_ok ev"
  shows "step_good sys os (cacheStep num compile iface ev sys)"
proof (cases ev)
  case (Resume i)
  let ?sys = "sys\<lparr>cs_pending := take i (cs_pending sys) @ drop (Suc i) (cs_pending sys)\<rparr>"
  show ?thesis
  proof (cases "i < length (cs_pending sys)")
    case True
    then have "is_delete (snd (cs_pending sys ! i))"
      using ok by (simp add: sys_ok_def list_all_length)
    moreover have "sys_ok ?sys"
      using ok by (auto simp: sys_ok_def list_all_iff dest: in_set_takeD in_set_dropD)
    ultimately have "step_good ?sys os (issue iface (fst (cs_pending sys ! i)) [snd (cs_pending sys ! i)] ?sys)"
      using acc by (intro issue_good deletes_calls_ok) simp_all
    then show ?thesis using True Resume by (simp add: step_good_def)
  qed (use quiet_good [OF ok acc] Resume in simp)
next
  case (Do c op)
  let ?cc = "cs_clients sys c"
  show ?thesis
  proof (cases op)
    case (CEvict m)
    have "step_good (setClient c (fst (evict m ?cc)) sys) os
        (issue iface c (snd (evict m ?cc)) (setClient c (fst (evict m ?cc)) sys))"
      using ok acc ev Do CEvict by (intro issue_good evict_calls) simp_all
    then show ?thesis using Do CEvict by (simp add: step_good_def case_prod_unfold Let_def)
  next
    case (CEvictKey m p)
    have "step_good (setClient c (fst (evictKey m p ?cc)) sys) os
        (issue iface c (snd (evictKey m p ?cc)) (setClient c (fst (evictKey m p ?cc)) sys))"
      using ok acc ev Do CEvictKey by (intro issue_good evictKey_calls) simp_all
    then show ?thesis using Do CEvictKey by (simp add: step_good_def case_prod_unfold Let_def)
  next
    case (CWrite m v g fr)
    then show ?thesis
      using issue_good [OF ok acc writeOp_calls_ok] ev Do by simp
  next
    case (CRead m p now)
    let ?r = "readOp num iface now (cs_store sys) (cs_store sys) m p ?cc"
    have "step_good sys os (issue iface c (snd ?r) sys)"
      using issue_good [OF ok acc readOp_calls_ok] ev Do CRead by simp
    then show ?thesis
      using Do CRead step_good_cong [of sys os _ _ sys] by (simp add: case_prod_unfold Let_def)
  next
    case CReset
    have "valid (si_clear iface (cs_store sys))" using ok clear_valid by (simp add: sys_ok_def)
    moreover have "accounted (si_clear iface (cs_store sys)) os" using clear_get by (simp add: accounted_def)
    ultimately show ?thesis
      using Do CReset ok acc clear_evolves moves_refl
      by (auto simp: step_good_def resetForReconnect_def sys_ok_def)
  qed (use quiet_good [OF ok acc] Do in \<open>auto split: prod.splits\<close>)
qed

subsection \<open>Isolation\<close>

lemma probe_found:
  assumes "probe iface s s cc m p = Inr (Some e)"
  obtains scope where "si_get iface s (slotKey m (or_else p '''') (slotFor (cc_serverIdentity cc) (cc_cachePartition cc) (Some scope)))
      = Inr (Some e)" "scope = ScopePublic \<Longrightarrow> ci_scope e = Some ScopePublic"
  using assms
  by (auto simp: probe_def Let_def partitionFor_slot split: sum.splits option.splits if_splits)

text \<open>What a probe finds was stored under the same identity, as public or by the same principal.\<close>

lemma probe_accounted:
  assumes "probe iface s s cc m p = Inr (Some e)" "accounted s os" "NUL \<notin> set m"
  shows "\<exists>q k. Stored (cc_serverIdentity cc) q k (cache_input.truncate e) \<in> set os \<and> ck_method k = m
    \<and> or_else (ck_params k) '''' = or_else p '''' \<and> (ci_scope e = Some ScopePublic \<or> q = cc_cachePartition cc)"
proof -
  from assms(1) obtain scope where
    get: "si_get iface s (slotKey m (or_else p '''') (slotFor (cc_serverIdentity cc) (cc_cachePartition cc) (Some scope))) = Inr (Some e)"
    and public: "scope = ScopePublic \<Longrightarrow> ci_scope e = Some ScopePublic"
    using probe_found [OF assms(1)] by metis
  with assms(2,3) obtain i q k where k: "Stored i q k (cache_input.truncate e) \<in> set os"
    "same_key k (slotKey m (or_else p '''') (slotFor (cc_serverIdentity cc) (cc_cachePartition cc) (Some scope)))"
    "ck_partition k = Some (slotFor i q (ci_scope e))"
    unfolding accounted_def by (metis key_ok_slotKey)
  then have "i = cc_serverIdentity cc" "ci_scope e = Some ScopePublic \<or> q = cc_cachePartition cc"
    using public by (auto simp: same_key_def slotFor_eq split: if_splits)
  with k show ?thesis by (auto simp: same_key_def)
qed

lemma readOp_served:
  assumes "readOp num iface now s s m p cc = (Inr (Some v), calls)"
  obtains e where "probe iface s s cc m p = Inr (Some e)" "freshAt now e" "JSON_parse num (ci_value e) = Some v"
  using assms by (auto simp: readOp_def decodeDocument_def split: sum.splits option.splits if_splits)

lemma issue_no_serve: "Served i q m p v \<notin> set (snd (issue iface c calls sys))"
  by (auto simp: issue_def Let_def split: list.splits prod.splits store_call.splits)

lemma step_served:
  assumes "Served i q m p v \<in> set (snd (cacheStep num compile iface ev sys))" "accounted (cs_store sys) os" "cev_ok ev"
  shows "\<exists>q' k input. Stored i q' k input \<in> set os \<and> ck_method k = m \<and> or_else (ck_params k) '''' = or_else p ''''
    \<and> JSON_parse num (ci_value input) = Some v \<and> (ci_scope input = Some ScopePublic \<or> q' = q)"
proof -
  have none: "Served i q m p v \<in> set (snd (issue iface c calls sys')) \<longleftrightarrow> False" for c calls sys'
    using issue_no_serve by blast
  have "\<exists>c now. ev = Do c (CRead m p now)
      \<and> fst (readOp num iface now (cs_store sys) (cs_store sys) m p (cs_clients sys c)) = Inr (Some v)
      \<and> i = cc_serverIdentity (cs_clients sys c) \<and> q = cc_cachePartition (cs_clients sys c)"
  proof (cases ev)
    case (Do c op)
    with assms(1) show ?thesis
      by (cases op) (auto simp: none Let_def case_prod_unfold split: sum.splits option.splits)
  next
    case (Resume n)
    with assms(1) show ?thesis by (simp add: none split: if_splits)
  qed
  then obtain c now where ev: "ev = Do c (CRead m p now)"
    and r: "fst (readOp num iface now (cs_store sys) (cs_store sys) m p (cs_clients sys c)) = Inr (Some v)"
    and i: "i = cc_serverIdentity (cs_clients sys c)" "q = cc_cachePartition (cs_clients sys c)"
    by blast
  from r obtain calls where "readOp num iface now (cs_store sys) (cs_store sys) m p (cs_clients sys c) = (Inr (Some v), calls)"
    by (metis prod.collapse)
  then obtain e where e: "probe iface (cs_store sys) (cs_store sys) (cs_clients sys c) m p = Inr (Some e)"
    "JSON_parse num (ci_value e) = Some v"
    by (rule readOp_served)
  have "ci_value (cache_input.truncate e) = ci_value e" by (simp add: cache_input.defs)
  then show ?thesis
    using probe_accounted [OF e(1) assms(2)] assms(3) ev i e(2) by fastforce
qed

definition empty_system :: "('s, 'v) cache_system \<Rightarrow> bool" where
  "empty_system sys \<longleftrightarrow> valid (cs_store sys) \<and> cs_pending sys = []
     \<and> (\<forall>k e. si_get iface (cs_store sys) k \<noteq> Inr (Some e))"

lemma cacheRun_append:
  "cacheRun num compile iface (evs @ evs') sys =
     (let (sys1, os1) = cacheRun num compile iface evs sys; (sys2, os2) = cacheRun num compile iface evs' sys1
      in (sys2, os1 @ os2))"
  by (induction evs arbitrary: sys) (simp_all add: case_prod_unfold Let_def)

lemma cacheRun_good:
  "sys_ok sys \<Longrightarrow> accounted (cs_store sys) os \<Longrightarrow> list_all cev_ok evs \<Longrightarrow>
   step_good sys os (cacheRun num compile iface evs sys)"
proof (induction evs arbitrary: sys os)
  case Nil
  then show ?case using quiet_good [of sys os sys "[]"] by simp
next
  case (Cons ev evs)
  obtain sys1 os1 where st: "cacheStep num compile iface ev sys = (sys1, os1)" by fastforce
  have g: "step_good sys os (sys1, os1)"
    using cacheStep_good [OF Cons.prems(1,2), of ev num compile] Cons.prems(3) st by simp
  then have "step_good sys1 (os @ os1) (cacheRun num compile iface evs sys1)"
    using Cons.IH [of sys1 "os @ os1"] Cons.prems(3) by (auto simp: step_good_def)
  with g show ?case
    using moves_trans by (auto simp: st step_good_def case_prod_unfold Let_def)
qed

lemma isolation_history:
  assumes "sys_ok sys" "accounted (cs_store sys) os" "list_all cev_ok evs"
    "snd (cacheRun num compile iface evs sys) = pre @ Served i q m p v # post"
  shows "\<exists>q' k input. Stored i q' k input \<in> set (os @ pre) \<and> ck_method k = m \<and> or_else (ck_params k) [] = or_else p []
    \<and> JSON_parse num (ci_value input) = Some v \<and> (ci_scope input = Some ScopePublic \<or> q' = q)"
  using assms
proof (induction evs arbitrary: sys os pre)
  case (Cons ev evs)
  obtain sys1 os1 where st: "cacheStep num compile iface ev sys = (sys1, os1)" by fastforce
  let ?os2 = "snd (cacheRun num compile iface evs sys1)"
  have eq: "os1 @ ?os2 = pre @ Served i q m p v # post"
    using Cons.prems(4) by (simp add: st case_prod_unfold Let_def)
  show ?case
  proof (cases "length os1 \<le> length pre")
    case True
    then obtain pre' where pre: "pre = os1 @ pre'" and os2: "?os2 = pre' @ Served i q m p v # post"
      using eq by (auto simp: append_eq_append_conv_if split: if_splits)
        (metis append_take_drop_id append_eq_conv_conj)
    have "step_good sys os (sys1, os1)"
      using cacheStep_good [OF Cons.prems(1,2), of ev num compile] Cons.prems(3) st by simp
    then show ?thesis
      using Cons.IH [of sys1 "os @ os1" pre'] Cons.prems(3) os2 pre by (auto simp: step_good_def)
  next
    case False
    then have "Served i q m p v \<in> set os1"
      using eq by (metis append_eq_append_conv_if in_set_conv_decomp linorder_not_less nth_append nth_append_length nth_mem)
    then show ?thesis
      using step_served [of i q m p v num compile ev sys os] Cons.prems(2,3) st by fastforce
  qed
qed simp

lemma isolation:
  assumes "empty_system sys" "list_all cev_ok evs"
    "snd (cacheRun num compile iface evs sys) = pre @ Served i q m p v # post"
  shows "\<exists>q' k input. Stored i q' k input \<in> set pre \<and> ck_method k = m \<and> or_else (ck_params k) [] = or_else p []
    \<and> JSON_parse num (ci_value input) = Some v \<and> (ci_scope input = Some ScopePublic \<or> q' = q)"
  using isolation_history [of sys "[]" evs num compile pre i q m p v post] assms
  by (simp add: empty_system_def sys_ok_def accounted_def)

subsection \<open>The derived views are never stale\<close>

definition memo_ok :: "(string \<Rightarrow> jnum) \<Rightarrow> (js \<Rightarrow> 'a option) \<Rightarrow> (nat \<times> (string \<rightharpoonup> 'a)) option \<Rightarrow> 's \<Rightarrow> bool" where
  "memo_ok num f memo s \<longleftrightarrow>
     (\<forall>n ix. memo = Some (n, ix) \<longrightarrow> n \<le> clock s \<and>
        (\<forall>k e. key_ok k \<longrightarrow> si_get iface s k = Inr (Some e) \<longrightarrow> ce_stamp e = n \<longrightarrow> ix = fst (deriveIndex num f e)))"

lemma memo_None [simp]: "memo_ok num f None s"
  by (simp add: memo_ok_def)

lemma memo_Some:
  "memo_ok num f (Some (n, ix)) s \<longleftrightarrow> n \<le> clock s \<and>
     (\<forall>k e. key_ok k \<longrightarrow> si_get iface s k = Inr (Some e) \<longrightarrow> ce_stamp e = n \<longrightarrow> ix = fst (deriveIndex num f e))"
  by (auto simp: memo_ok_def)

lemma memo_evolves: "memo_ok num f memo s \<Longrightarrow> evolves s s' \<Longrightarrow> memo_ok num f memo s'"
proof (cases memo)
  case (Some p)
  assume "memo_ok num f memo s" "evolves s s'"
  then show ?thesis
    using Some by (cases p) (auto simp: memo_Some evolves_def dest: leD)
qed simp

lemma memo_derived:
  assumes "valid s" "probe iface s s cc ''tools/list'' None = Inr (Some e)"
  shows "memo_ok num f (Some (ce_stamp e, fst (deriveIndex num f e))) s"
proof -
  from probe_found [OF assms(2)] obtain k where k: "key_ok k" "si_get iface s k = Inr (Some e)"
    by (metis key_ok_slotKey tools_list_ok)
  show ?thesis
    using stamp_clock [OF assms(1) k] stamp_unique [OF assms(1) _ k(1) _ k(2)] by (auto simp: memo_ok_def)
qed

definition memos_ok :: "(string \<Rightarrow> jnum) \<Rightarrow> (js \<Rightarrow> 'v option) \<Rightarrow> ('s, 'v) cache_system \<Rightarrow> bool" where
  "memos_ok num compile sys \<longleftrightarrow>
     (\<forall>c. memo_ok num Some (cc_toolIndex (cs_clients sys c)) (cs_store sys)
        \<and> memo_ok num compile (cc_outputIndex (cs_clients sys c)) (cs_store sys))"

lemma toolDefinition_result:
  assumes "valid s" "memo_ok num Some (cc_toolIndex cc) s" "toolDefinition num iface s s name cc = (r, cc', reports)"
  shows "r = (case probe iface s s cc ''tools/list'' None of
        Inl e \<Rightarrow> Inl e | Inr None \<Rightarrow> Inr None | Inr (Some e) \<Rightarrow> Inr (fst (deriveIndex num Some e) name))
    \<and> memo_ok num Some (cc_toolIndex cc') s \<and> cc_outputIndex cc' = cc_outputIndex cc"
proof -
  have hit: "ix = fst (deriveIndex num Some e)"
    if "probe iface s s cc ''tools/list'' None = Inr (Some e)" "cc_toolIndex cc = Some (ce_stamp e, ix)" for e ix
    using probe_found [OF that(1)] assms(2) that(2) unfolding memo_ok_def by (metis key_ok_slotKey tools_list_ok)
  show ?thesis
    using assms hit memo_derived [OF assms(1)]
    by (auto simp: toolDefinition_def case_prod_unfold Let_def split: sum.splits option.splits prod.splits if_splits)
qed

lemma outputValidator_result:
  assumes "valid s" "memo_ok num compile (cc_outputIndex cc) s" "outputValidator num iface s s name compile cc = (r, cc', reports)"
  shows "r = (case probe iface s s cc ''tools/list'' None of
        Inl e \<Rightarrow> Inl e | Inr None \<Rightarrow> Inr None | Inr (Some e) \<Rightarrow> Inr (fst (deriveIndex num compile e) name))
    \<and> memo_ok num compile (cc_outputIndex cc') s \<and> cc_toolIndex cc' = cc_toolIndex cc"
proof -
  have hit: "ix = fst (deriveIndex num compile e)"
    if "probe iface s s cc ''tools/list'' None = Inr (Some e)" "cc_outputIndex cc = Some (ce_stamp e, ix)" for e ix
    using probe_found [OF that(1)] assms(2) that(2) unfolding memo_ok_def by (metis key_ok_slotKey tools_list_ok)
  show ?thesis
    using assms hit memo_derived [OF assms(1)]
    by (auto simp: outputValidator_def case_prod_unfold Let_def split: sum.splits option.splits prod.splits if_splits)
qed

text \<open>Every other step keeps each client's views or drops them.\<close>

lemma step_indices:
  assumes "\<And>c' name. ev \<noteq> Do c' (CToolDefinition name)" "\<And>c' name. ev \<noteq> Do c' (COutputValidator name)"
  shows "(cc_toolIndex (cs_clients (fst (cacheStep num compile iface ev sys)) c) \<in> {None, cc_toolIndex (cs_clients sys c)})
    \<and> (cc_outputIndex (cs_clients (fst (cacheStep num compile iface ev sys)) c) \<in> {None, cc_outputIndex (cs_clients sys c)})"
proof -
  have issue: "cs_clients (fst (issue iface c calls sys')) = cs_clients sys'" for c calls and sys' :: "('s, 'v) cache_system"
    by (cases calls) (simp_all add: issue_store)
  have gen: "cc_toolIndex (setGeneration gk n cc) = cc_toolIndex cc" "cc_outputIndex (setGeneration gk n cc) = cc_outputIndex cc"
    for gk n and cc :: "'v client_cache"
    by (simp_all add: setGeneration_def)
  show ?thesis
  proof (cases ev)
    case (Do c' op)
    with assms show ?thesis
      by (cases op) (auto simp: issue gen Let_def case_prod_unfold evict_def evictKey_def captureGeneration_def
          setServerIdentity_def resetForReconnect_def split: option.splits)
  qed (simp add: issue)
qed

lemma cacheStep_memos:
  assumes ok: "sys_ok sys" and acc: "accounted (cs_store sys) os" and ev: "cev_ok ev" and memos: "memos_ok num compile sys"
  shows "memos_ok num compile (fst (cacheStep num compile iface ev sys))"
proof (cases "\<exists>c name. ev = Do c (CToolDefinition name) \<or> ev = Do c (COutputValidator name)")
  case True
  then obtain c name where "ev = Do c (CToolDefinition name) \<or> ev = Do c (COutputValidator name)" by blast
  then show ?thesis
  proof
    assume ev: "ev = Do c (CToolDefinition name)"
    obtain r cc reports where t: "toolDefinition num iface (cs_store sys) (cs_store sys) name (cs_clients sys c) = (r, cc, reports)"
      by (metis prod_cases3)
    from toolDefinition_result [OF _ _ t] show ?thesis
      using memos ok by (auto simp: ev t memos_ok_def sys_ok_def)
  next
    assume ev: "ev = Do c (COutputValidator name)"
    obtain r cc reports where t: "outputValidator num iface (cs_store sys) (cs_store sys) name compile (cs_clients sys c) = (r, cc, reports)"
      by (metis prod_cases3)
    from outputValidator_result [OF _ _ t] show ?thesis
      using memos ok by (auto simp: ev t memos_ok_def sys_ok_def)
  qed
next
  case False
  have "evolves (cs_store sys) (cs_store (fst (cacheStep num compile iface ev sys)))"
    using cacheStep_good [OF ok acc ev] by (simp add: step_good_def)
  note keep = memo_evolves [OF _ this]
  have idx: "cc_toolIndex (cs_clients (fst (cacheStep num compile iface ev sys)) c) \<in> {None, cc_toolIndex (cs_clients sys c)}"
    "cc_outputIndex (cs_clients (fst (cacheStep num compile iface ev sys)) c) \<in> {None, cc_outputIndex (cs_clients sys c)}" for c
    using step_indices [of ev num compile sys c] False by blast+
  have m: "memo_ok num Some (cc_toolIndex (cs_clients sys c)) (cs_store sys)"
    "memo_ok num compile (cc_outputIndex (cs_clients sys c)) (cs_store sys)" for c
    using memos by (auto simp: memos_ok_def)
  have "memo_ok num Some (cc_toolIndex (cs_clients (fst (cacheStep num compile iface ev sys)) c))
        (cs_store (fst (cacheStep num compile iface ev sys)))" for c
    using idx(1) [of c] keep [OF m(1) [of c]] by auto
  moreover have "memo_ok num compile (cc_outputIndex (cs_clients (fst (cacheStep num compile iface ev sys)) c))
        (cs_store (fst (cacheStep num compile iface ev sys)))" for c
    using idx(2) [of c] keep [OF m(2) [of c]] by auto
  ultimately show ?thesis by (simp add: memos_ok_def)
qed

lemma cacheRun_memos:
  "sys_ok sys \<Longrightarrow> accounted (cs_store sys) os \<Longrightarrow> list_all cev_ok evs \<Longrightarrow> memos_ok num compile sys \<Longrightarrow>
   sys_ok (fst (cacheRun num compile iface evs sys)) \<and> memos_ok num compile (fst (cacheRun num compile iface evs sys))"
proof (induction evs arbitrary: sys os)
  case (Cons ev evs)
  obtain sys1 os1 where st: "cacheStep num compile iface ev sys = (sys1, os1)" by fastforce
  show ?case
    using Cons.IH [of sys1 "os @ os1"] cacheStep_good [OF Cons.prems(1,2), of ev num compile]
      cacheStep_memos [OF Cons.prems(1,2) _ Cons.prems(4), of ev] Cons.prems(3)
    by (simp add: st step_good_def case_prod_unfold Let_def)
qed simp

end

subsection \<open>Generations only move forward\<close>

definition recorded :: "'v client_cache \<Rightarrow> string \<Rightarrow> bool" where
  "recorded cc gk \<longleftrightarrow> map_of (cc_evictionGeneration cc) gk \<noteq> None"

lemma generation_set [simp]: "generation (setGeneration gk n cc) gk' = (if gk' = gk then n else generation cc gk')"
  by (simp add: generation_def setGeneration_def map_of_update)

lemma recorded_set [simp]: "recorded (setGeneration gk n cc) gk' \<longleftrightarrow> gk' = gk \<or> recorded cc gk'"
  by (simp add: recorded_def setGeneration_def map_of_update)

definition ahead :: "string \<Rightarrow> 'v client_cache \<Rightarrow> 'v client_cache \<Rightarrow> bool" where
  "ahead gk cc cc' \<longleftrightarrow> generation cc gk \<le> generation cc' gk \<and> (recorded cc gk \<longrightarrow> recorded cc' gk)"

lemma ahead_refl [simp]: "ahead gk cc cc"
  by (simp add: ahead_def)

lemma ahead_trans: "ahead gk cc cc' \<Longrightarrow> ahead gk cc' cc'' \<Longrightarrow> ahead gk cc cc''"
  by (auto simp: ahead_def)

lemma evict_ahead: "ahead gk cc (fst (evict m cc))"
  by (auto simp: ahead_def evict_def)

lemma evictKey_ahead: "ahead gk cc (fst (evictKey m p cc))"
  by (auto simp: ahead_def evictKey_def Let_def generation_def split: option.splits)
    (auto simp: setGeneration_def map_of_update recorded_def)

lemma capture_ahead: "ahead gk cc (snd (captureGeneration m p cc))"
  by (auto simp: ahead_def captureGeneration_def Let_def)

lemma ahead_same_generations:
  "cc_evictionGeneration cc' = cc_evictionGeneration cc \<Longrightarrow> ahead gk cc cc'"
  by (simp add: ahead_def generation_def recorded_def)

lemma issue_clients [simp]: "cs_clients (fst (issue iface c calls sys)) = cs_clients sys"
  by (auto simp: issue_def Let_def split: list.splits prod.splits)

lemma view_generations [simp]:
  "cc_evictionGeneration (fst (snd (toolDefinition num iface s1 s2 name cc))) = cc_evictionGeneration cc"
  "cc_evictionGeneration (fst (snd (outputValidator num iface s1 s2 name compile cc))) = cc_evictionGeneration cc"
  by (auto simp: toolDefinition_def outputValidator_def case_prod_unfold Let_def split: sum.splits option.splits)

lemma step_ahead:
  assumes "ev \<noteq> Do c CReset"
  shows "ahead gk (cs_clients sys c) (cs_clients (fst (cacheStep num compile iface ev sys)) c)"
proof (cases ev)
  case (Do c' op)
  with assms show ?thesis
    by (cases op) (auto simp: setClient_def Let_def case_prod_unfold evict_ahead evictKey_ahead capture_ahead
        setServerIdentity_def intro!: ahead_same_generations)
qed simp

lemma run_ahead:
  "Do c CReset \<notin> set evs \<Longrightarrow> ahead gk (cs_clients sys c) (cs_clients (fst (cacheRun num compile iface evs sys)) c)"
proof (induction evs arbitrary: sys)
  case (Cons ev evs)
  let ?sys1 = "fst (cacheStep num compile iface ev sys)"
  have "ahead gk (cs_clients sys c) (cs_clients ?sys1 c)"
    using Cons.prems by (intro step_ahead) auto
  moreover have "ahead gk (cs_clients ?sys1 c) (cs_clients (fst (cacheRun num compile iface evs ?sys1)) c)"
    using Cons by simp
  ultimately show ?case
    using ahead_trans by (auto simp: case_prod_unfold Let_def)
qed simp

definition invalidates :: "nat \<Rightarrow> string \<Rightarrow> string option \<Rightarrow> cache_event \<Rightarrow> bool" where
  "invalidates c m p ev \<longleftrightarrow>
     (case p of None \<Rightarrow> ev = Do c (CEvict m) | Some q \<Rightarrow> ev = Do c (CEvictKey m q))"

lemma invalidates_bumps:
  assumes "invalidates c m p ev" "recorded (cs_clients sys c) (genKey m p)"
  shows "generation (cs_clients sys c) (genKey m p)
    < generation (cs_clients (fst (cacheStep num compile iface ev sys)) c) (genKey m p)"
  using assms
  by (cases p) (auto simp: invalidates_def setClient_def Let_def case_prod_unfold evict_def evictKey_def genKey_def
      recorded_def generation_def setGeneration_def map_of_update)

lemma run_bumps:
  assumes "ev \<in> set evs" "invalidates c m p ev" "Do c CReset \<notin> set evs" "recorded (cs_clients sys c) (genKey m p)"
  shows "generation (cs_clients sys c) (genKey m p)
    < generation (cs_clients (fst (cacheRun num compile iface evs sys)) c) (genKey m p)"
  using assms
proof (induction evs arbitrary: sys)
  case (Cons e evs)
  let ?sys1 = "fst (cacheStep num compile iface e sys)"
  have run: "fst (cacheRun num compile iface (e # evs) sys) = fst (cacheRun num compile iface evs ?sys1)"
    by (simp add: case_prod_unfold Let_def)
  have a: "ahead (genKey m p) (cs_clients sys c) (cs_clients ?sys1 c)"
    using Cons.prems(3) by (intro step_ahead) auto
  have later: "ahead (genKey m p) (cs_clients ?sys1 c) (cs_clients (fst (cacheRun num compile iface evs ?sys1)) c)"
    using Cons.prems(3) by (intro run_ahead) auto
  show ?case
  proof (cases "ev = e")
    case True
    then show ?thesis unfolding run
      using invalidates_bumps [OF Cons.prems(2,4), of num compile iface] later by (simp add: ahead_def)
  next
    case False
    then have "generation (cs_clients ?sys1 c) (genKey m p)
        < generation (cs_clients (fst (cacheRun num compile iface evs ?sys1)) c) (genKey m p)"
      using a Cons.prems by (intro Cons.IH) (simp_all add: ahead_def)
    with a show ?thesis unfolding run by (simp add: ahead_def)
  qed
qed simp


subsection \<open>The cache over the in-memory store\<close>

type_synonym 'v mem_system = "(mem_store, 'v) cache_system"

definition newSystem :: "int option \<Rightarrow> (nat \<Rightarrow> 'v client_cache) \<Rightarrow> 'v mem_system" where
  "newSystem maxEntries clients = \<lparr>cs_store = newStore maxEntries, cs_clients = clients, cs_pending = []\<rparr>"

lemma newSystem_empty: "memory.empty_system (newSystem maxEntries clients)"
  by (simp add: memory.empty_system_def newSystem_def newStore_inv) (simp add: newStore_def storeGet_def)

lemma newSystem_ok:
  "memory.sys_ok (newSystem maxEntries clients)" "memory.accounted (cs_store (newSystem maxEntries clients)) []"
  using newSystem_empty [of maxEntries clients]
  by (simp_all add: memory.empty_system_def memory.sys_ok_def memory.accounted_def)

text \<open>
  C16: Clients of different servers and principals can share one store: whatever they do and
  however their store calls interleave, a value served to a client was stored earlier for the
  same method and parameters, under the same server identity, and either as public or by
  the same principal.
\<close>

theorem shared_store_isolates:
  assumes "list_all cev_ok evs"
    and "snd (cacheRun num compile inMemory evs (newSystem maxEntries clients)) = pre @ Served i q m p v # post"
  shows "\<exists>q' k input. Stored i q' k input \<in> set pre \<and> ck_method k = m \<and> or_else (ck_params k) [] = or_else p []
    \<and> JSON_parse num (ci_value input) = Some v \<and> (ci_scope input = Some ScopePublic \<or> q' = q)"
  by (rule memory.isolation [OF newSystem_empty assms])

text \<open>
  C18: The memoized tool index is never stale: in every state clients sharing a store can
  reach, \<open>toolDefinition\<close> answers with what decoding the currently held tool list gives, and
  with nothing when none is held.
\<close>

theorem tool_index_is_current:
  fixes clients :: "nat \<Rightarrow> 'v client_cache"
  assumes "list_all cev_ok evs" "\<And>c. cc_toolIndex (clients c) = None \<and> cc_outputIndex (clients c) = None"
    and "sys = fst (cacheRun num compile inMemory evs (newSystem maxEntries clients))"
  shows "fst (toolDefinition num inMemory (cs_store sys) (cs_store sys) name (cs_clients sys c))
    = (case probe inMemory (cs_store sys) (cs_store sys) (cs_clients sys c) ''tools/list'' None of
         Inl e \<Rightarrow> Inl e
       | Inr None \<Rightarrow> Inr None
       | Inr (Some entry) \<Rightarrow> Inr (case decodeListTools num entry of
            Inl _ \<Rightarrow> None | Inr tools \<Rightarrow> indexTools Some tools name))"
proof -
  have "memory.memos_ok num compile (newSystem maxEntries clients)"
    using assms(2) by (simp add: memory.memos_ok_def newSystem_def)
  then have ok: "memory.sys_ok sys" "memory.memos_ok num compile sys"
    unfolding assms(3)
    using memory.cacheRun_memos [OF newSystem_ok(1) newSystem_ok(2) assms(1)] by blast+
  obtain r cc reports where
    t: "toolDefinition num inMemory (cs_store sys) (cs_store sys) name (cs_clients sys c) = (r, cc, reports)"
    by (metis prod_cases3)
  have "fst (deriveIndex num Some entry) name = (case decodeListTools num entry of
      Inl _ \<Rightarrow> None | Inr tools \<Rightarrow> indexTools Some tools name)" for entry
    by (simp add: deriveIndex_def split: sum.splits)
  then show ?thesis
    using memory.toolDefinition_result [OF _ _ t] ok
    by (simp add: t memory.sys_ok_def memory.memos_ok_def split: sum.split option.split)
qed

text \<open>
  An eviction bumps the generation and removes exactly the entries of its method (its
  resource) in the two slots of this client's server and principal: entries of any other
  server identity, and private entries of other principals, stay.
\<close>

lemma deleteBoth_get:
  assumes "NUL \<notin> set m" "key_ok k"
  shows "storeGet (runCalls inMemory (deleteBoth cc m p) s) k =
    (if ck_method k = m \<and> or_else (ck_params k) [] = p
        \<and> or_else (ck_partition k) [] \<in> {partitionFor cc ScopePrivate, partitionFor cc ScopePublic}
     then None else storeGet s k)"
  using assms by (auto simp: runCalls_def deleteBoth_def Let_def storeGet_delete key_ok_def same_key_def)

theorem eviction_is_scoped:
  assumes "NUL \<notin> set m" "evict m cc = (cc', calls)" "evictKey m u cc = (cc'', calls')" "NUL \<notin> set (ck_method k)"
  shows "generation cc' m = generation cc m + 1
    \<and> storeGet (runCalls inMemory calls s) k =
       (if ck_method k = m \<and> or_else (ck_params k) [] = []
           \<and> or_else (ck_partition k) [] \<in> {partitionFor cc ScopePrivate, partitionFor cc ScopePublic}
        then None else storeGet s k)
    \<and> storeGet (runCalls inMemory calls' s) k =
       (if ck_method k = m \<and> or_else (ck_params k) [] = u
           \<and> or_else (ck_partition k) [] \<in> {partitionFor cc ScopePrivate, partitionFor cc ScopePublic}
        then None else storeGet s k)
    \<and> (partitionFor other scope \<in> {partitionFor cc ScopePrivate, partitionFor cc ScopePublic} \<longrightarrow>
         cc_serverIdentity other = cc_serverIdentity cc \<and>
         (scope = ScopePublic \<or> cc_cachePartition other \<in> {[], cc_cachePartition cc}))"
proof -
  have "cc_serverIdentity other = cc_serverIdentity cc \<and>
        (scope = ScopePublic \<or> cc_cachePartition other \<in> {[], cc_cachePartition cc})"
    if "partitionFor other scope \<in> {partitionFor cc ScopePrivate, partitionFor cc ScopePublic}"
    using that by (auto simp: partitionFor_slot slotFor_eq split: if_splits)
  then show ?thesis
    using assms deleteBoth_get [of m k cc _ s]
    by (auto simp: evict_def evictKey_def Let_def key_ok_def)
qed

lemma inMemory_set: "fst (runCall inMemory (CallSet k v) s) = snd (storeSet s k v)"
  by (simp add: case_prod_unfold)

lemma written_is_read:
  assumes "NUL \<notin> set m" "json_value num (JObj doc)" "generation cc (genKey m (fr_params fr)) = g"
    and "s' = runCalls inMemory (writeOp m (JObj doc) g (Some fr) cc) s"
  shows "readOp num inMemory now s' s' m (fr_params fr) cc
    = (Inr (if now < fr_expiresAt fr then Some (JObj doc) else None), [])"
proof -
  let ?own = "partitionFor cc ScopePrivate" and ?shared = "partitionFor cc ScopePublic"
  let ?part = "if fr_scope fr = ScopePublic then ?shared else ?own"
  let ?key = "slotKey m (or_else (fr_params fr) [])"
  let ?input = "\<lparr>ci_value = json_text (JObj doc), ci_expiresAt = Some (fr_expiresAt fr), ci_scope = Some (fr_scope fr)\<rparr>"
  let ?entry = "cache_input.extend ?input \<lparr>ce_stamp = fst (storeSet s (?key ?part) ?input)\<rparr>"
  have s': "s' = (if ?shared = ?own then snd (storeSet s (?key ?part) ?input)
      else storeDelete (snd (storeSet s (?key ?part) ?input)) (?key (if ?part = ?own then ?shared else ?own)))"
    using assms(3)
    by (simp add: assms(4) runCalls_def writeOp_def Let_def encodeCacheValue_def JSON_stringify_def case_prod_unfold
        del: json_text.simps)
  have hit: "storeGet s' (?key ?part) = Some ?entry"
    using assms(1) unfolding s' by (auto simp: storeGet_delete storeGet_set)
  have miss: "storeGet s' (?key ?own) = None" if "?part \<noteq> ?own"
    using that assms(1) unfolding s' by (auto simp: storeGet_delete split: if_splits)
  have "probe inMemory s' s' cc m (fr_params fr) = Inr (Some ?entry)"
    using hit miss by (cases "?part = ?own") (auto simp: probe_def Let_def cache_input.defs split: if_splits)
  moreover have "freshAt now ?entry \<longleftrightarrow> now < fr_expiresAt fr" "ci_value ?entry = json_text (JObj doc)"
    by (simp_all add: freshAt_def cache_input.defs del: json_text.simps)
  ultimately show ?thesis
    using json_roundtrip [OF assms(2)] by (simp add: readOp_def decodeDocument_def del: json_text.simps)
qed

text \<open>
  What a client writes with a future expiry it reads back, byte for byte as a value,
  until the expiry and not from then on, whatever other slot held an older entry for the key.
\<close>

theorem write_then_read:
  assumes "NUL \<notin> set m" "json_value num (JObj doc)" "generation cc (genKey m (fr_params fr)) = g"
    and "s' = runCalls inMemory (writeOp m (JObj doc) g (Some fr) cc) s"
  shows "readOp num inMemory now s' s' m (fr_params fr) cc
    = (Inr (if now < fr_expiresAt fr then Some (JObj doc) else None), [])"
  by (rule written_is_read [OF assms])

subsection \<open>Witnesses\<close>

lemma exampleKey_ok: "NUL \<notin> set (ck_method (exampleKey u))"
  by (simp add: exampleKey_def NUL_def)

definition demoNum :: "string \<Rightarrow> jnum" where
  "demoNum t = (if t = ''1'' then NInt 1 else NNaN)"

definition demoClients :: "nat \<Rightarrow> unit client_cache" where
  "demoClients c = setServerIdentity ''srv@1'' (newCache True (if c = 0 then ''alice'' else ''bob''))"

definition demoFresh :: freshness where
  "demoFresh = \<lparr>fr_expiresAt = 10, fr_scope = ScopePublic, fr_params = Some ''u''\<rparr>"

definition demoWrite :: cache_event where
  "demoWrite = Do 0 (CWrite ''resources/read'' (JObj []) 0 (Some demoFresh))"

definition demoRead :: cache_event where
  "demoRead = Do 1 (CRead ''resources/read'' (Some ''u'') 5)"

lemma demo_served:
  "snd (cacheRun demoNum (\<lambda>_. None) inMemory [demoWrite, demoRead] (newSystem None demoClients))
   = [Stored ''srv@1'' ''alice'' (slotKey ''resources/read'' ''u'' (slotFor ''srv@1'' [] (Some ScopePrivate)))
        \<lparr>ci_value = ''{}'', ci_expiresAt = Some 10, ci_scope = Some ScopePublic\<rparr>]
     @ Served ''srv@1'' ''bob'' ''resources/read'' (Some ''u'') (JObj []) # []"
  by code_simp

theorem shared_store_isolates_witness:
  "\<exists>q' k input. Stored ''srv@1'' q' k input \<in> set
      [Stored ''srv@1'' ''alice'' (slotKey ''resources/read'' ''u'' (slotFor ''srv@1'' [] (Some ScopePrivate)))
        \<lparr>ci_value = ''{}'', ci_expiresAt = Some 10, ci_scope = Some ScopePublic\<rparr>]
    \<and> ck_method k = ''resources/read'' \<and> or_else (ck_params k) [] = or_else (Some ''u'') []
    \<and> JSON_parse demoNum (ci_value input) = Some (JObj []) \<and> (ci_scope input = Some ScopePublic \<or> q' = ''bob'')"
  using shared_store_isolates [OF _ demo_served] by (simp add: demoWrite_def demoRead_def NUL_def)

theorem tool_index_is_current_witness:
  "fst (toolDefinition demoNum inMemory (newStore None) (newStore None) ''t'' (demoClients 0)) = Inr None"
proof -
  have none: "cc_toolIndex (demoClients c) = None \<and> cc_outputIndex (demoClients c) = None" for c
    by (simp add: demoClients_def newCache_def setServerIdentity_def)
  have "probe inMemory (newStore None) (newStore None) (demoClients 0) ''tools/list'' None = Inr None"
    by (simp add: probe_def Let_def newStore_def storeGet_def)
  then show ?thesis
    using tool_index_is_current [of "[]" demoClients _ demoNum "\<lambda>_. None" None "''t''" 0, OF _ none refl]
    by (simp add: newSystem_def)
qed


theorem eviction_is_scoped_witness:
  "generation (fst (evict ''tools/list'' (demoClients 0))) ''tools/list'' = generation (demoClients 0) ''tools/list'' + 1"
  using eviction_is_scoped [of "''tools/list''" "demoClients 0" _ _ "[]" _ _ "exampleKey []" "newStore None" "demoClients 1" ScopePublic]
  by (metis prod.collapse tools_list_ok exampleKey_ok)

theorem write_then_read_witness:
  "readOp demoNum inMemory 5 (runCalls inMemory (writeOp ''resources/read'' (JObj []) 0 (Some demoFresh) (demoClients 0)) (newStore None))
     (runCalls inMemory (writeOp ''resources/read'' (JObj []) 0 (Some demoFresh) (demoClients 0)) (newStore None))
     ''resources/read'' (fr_params demoFresh) (demoClients 0) = (Inr (Some (JObj [])), [])"
  using write_then_read [of "''resources/read''" demoNum "[]" "demoClients 0" demoFresh 0 _ "newStore None" 5]
  by (simp add: NUL_def owf_def okeys_def demoFresh_def demoClients_def setServerIdentity_def newCache_def generation_def
      del: json_text.simps)

end
