(* ===== verification/CachedVerbs.thy ===== *)
theory CachedVerbs
  imports ClientCache McpParamValues Guards
begin

text \<open>
  The client's cacheable verbs (packages/client/src/client/client.ts): the page walk behind
  the list verbs, the freshness a result is stored with, reads through the cache and the
  invalidation that notifications cause.

  The server is the argument \<open>srv\<close>: its answer to the n-th page request with a cursor. The
  walk is a \<open>partial_function\<close> because the cap on pages can be disabled, and then a server
  that always has another page makes it run for ever; \<open>None\<close> is that non-termination.
\<close>

subsection \<open>Freshness\<close>

definition MAX_CACHE_TTL_MS :: int where
  "MAX_CACHE_TTL_MS = 86400000"

text \<open>
  \<open>now + min(max(0, ttlMs), MAX)\<close>. Clock readings are integers, and a comparison with an
  integer sees only the ceiling of a fractional number, which the argument \<open>ceil\<close> gives; NaN
  is never greater than a clock reading, as \<open>now\<close> itself is not.
\<close>

definition clampTtl :: "(string \<Rightarrow> int) \<Rightarrow> jnum \<Rightarrow> int" where
  "clampTtl ceil ttl =
     (case ttl of
        NInt n \<Rightarrow> min (max 0 n) MAX_CACHE_TTL_MS
      | NFrac t \<Rightarrow> min (max 0 (ceil t)) MAX_CACHE_TTL_MS
      | NPosInf \<Rightarrow> MAX_CACHE_TTL_MS
      | NNegInf \<Rightarrow> 0
      | NNaN \<Rightarrow> 0)"

definition freshnessOf :: "(string \<Rightarrow> int) \<Rightarrow> jnum \<Rightarrow> int \<Rightarrow> obj \<Rightarrow> string option \<Rightarrow> freshness" where
  "freshnessOf ceil defaultCacheTtlMs now result params =
     (let ttlMs = (case oget result ''ttlMs'' of JNum n \<Rightarrow> n | _ \<Rightarrow> defaultCacheTtlMs);
          scope = (if oget result ''cacheScope'' = JStr ''public'' then ScopePublic else ScopePrivate)
      in \<lparr>fr_expiresAt = now + clampTtl ceil ttlMs, fr_scope = scope, fr_params = params\<rparr>)"

subsection \<open>The page walk\<close>

definition DEFAULT_LIST_MAX_PAGES :: int where
  "DEFAULT_LIST_MAX_PAGES = 64"

text \<open>The items of a page; the result schema guarantees an array.\<close>

definition pageItems :: "string \<Rightarrow> obj \<Rightarrow> js list" where
  "pageItems key page = (case oget page key of JArr vs \<Rightarrow> vs | _ \<Rightarrow> [])"

definition paginationExceeded :: "string \<Rightarrow> int \<Rightarrow> err" where
  "paginationExceeded method maxPages =
     SdkError ListPaginationExceeded
       (method @ '': exceeded listMaxPages ('' @ show_int maxPages @ ''); server pagination did not terminate'')
       (JObj [(''method'', JStr method), (''listMaxPages'', JNum (NInt maxPages))])"

text \<open>The same items and the same cursor as the page before: no progress.\<close>

definition stuck :: "string \<Rightarrow> js \<Rightarrow> obj \<Rightarrow> obj \<Rightarrow> bool" where
  "stuck key cursor page previous \<longleftrightarrow>
     oget page ''nextCursor'' = cursor
     \<and> json_text (JArr (pageItems key page)) = json_text (JArr (pageItems key previous))"

definition extendItems :: "string \<Rightarrow> obj \<Rightarrow> obj \<Rightarrow> obj" where
  "extendItems key acc page = oset acc key (JArr (pageItems key acc @ pageItems key page))"

text \<open>The while loop. The result pairs the outcome with the cursors requested, in order.\<close>

partial_function (option) walkPages ::
  "(nat \<Rightarrow> js \<Rightarrow> err + obj) \<Rightarrow> int \<Rightarrow> string \<Rightarrow> string \<Rightarrow> obj \<Rightarrow> js \<Rightarrow> obj \<Rightarrow> nat \<Rightarrow> js list
     \<Rightarrow> ((err + obj) \<times> js list) option" where
  "walkPages srv maxPages method key acc cursor previous pages asked =
     (if cursor = JUndef then Some (Inr acc, asked)
      else if maxPages \<noteq> 0 \<and> maxPages \<le> int pages then Some (Inl (paginationExceeded method maxPages), asked)
      else (case srv pages cursor of
              Inl e \<Rightarrow> Some (Inl e, asked @ [cursor])
            | Inr page \<Rightarrow>
                if stuck key cursor page previous then Some (Inr acc, asked @ [cursor])
                else walkPages srv maxPages method key (extendItems key acc page)
                       (oget page ''nextCursor'') page (pages + 1) (asked @ [cursor])))"

text \<open>From the first page to the aggregate without its cursor.\<close>

definition aggregate ::
  "(nat \<Rightarrow> js \<Rightarrow> err + obj) \<Rightarrow> int \<Rightarrow> string \<Rightarrow> string \<Rightarrow> (obj \<Rightarrow> obj) \<Rightarrow> obj \<Rightarrow> ((err + obj) \<times> js list) option" where
  "aggregate srv maxPages method key finalize first =
     map_option (apfst (map_sum id (\<lambda>acc. finalize (odel acc ''nextCursor''))))
       (walkPages srv maxPages method key first (oget first ''nextCursor'') first 1 [])"

text \<open>The exclusion of tools with invalid header declarations, the \<open>finalize\<close> of \<open>listTools\<close>.\<close>

definition excludeInvalidXMcpHeaderTools :: "bool \<Rightarrow> obj \<Rightarrow> obj" where
  "excludeInvalidXMcpHeaderTools active result =
     (if \<not> active then result
      else (let tools = pageItems ''tools'' result;
                filtered = filter (\<lambda>tool. case scanXMcpHeaderDeclarations (getp tool ''inputSchema'') of
                                     Inl _ \<Rightarrow> False | Inr _ \<Rightarrow> True) tools
            in if length filtered \<noteq> length tools then oset result ''tools'' (JArr filtered) else result))"

datatype cache_mode = ModeUse | ModeRefresh | ModeBypass

text \<open>What the list verbs write when the walk has ended.\<close>

definition listWrite ::
  "(string \<Rightarrow> int) \<Rightarrow> jnum \<Rightarrow> int \<Rightarrow> cache_mode \<Rightarrow> string \<Rightarrow> obj \<Rightarrow> nat \<Rightarrow> 'v client_cache \<Rightarrow> store_call list" where
  "listWrite ceil defaultTtl now mode method acc g cc =
     (if mode = ModeBypass then []
      else writeOp method (JObj acc) g (Some (freshnessOf ceil defaultTtl now acc None)) cc)"

subsection \<open>Reads through the cache\<close>

text \<open>A store that throws is reported and counts as a miss; an aborted signal turns a hit into its error.\<close>

definition serveFromCache ::
  "(string \<Rightarrow> jnum) \<Rightarrow> 's store_iface \<Rightarrow> int \<Rightarrow> 's \<Rightarrow> cache_mode \<Rightarrow> err option \<Rightarrow> string \<Rightarrow> string option \<Rightarrow> 'v client_cache
     \<Rightarrow> (err + js option) \<times> store_call list" where
  "serveFromCache num iface now s mode aborted method params cc =
     (if mode \<noteq> ModeUse then (Inr None, [])
      else (case readOp num iface now s s method params cc of
              (Inl e, calls) \<Rightarrow> (Inr None, CallReport e # calls)
            | (Inr None, calls) \<Rightarrow> (Inr None, calls)
            | (Inr (Some v), calls) \<Rightarrow> ((case aborted of None \<Rightarrow> Inr (Some v) | Some e \<Rightarrow> Inl e), calls)))"

text \<open>What \<open>readResource\<close> does with the result of its request.\<close>

definition readResourceWrite ::
  "(string \<Rightarrow> int) \<Rightarrow> jnum \<Rightarrow> int \<Rightarrow> int \<Rightarrow> cache_mode \<Rightarrow> string \<Rightarrow> obj \<Rightarrow> nat \<Rightarrow> 'v client_cache
     \<Rightarrow> 'v client_cache \<times> store_call list" where
  "readResourceWrite ceil defaultTtl now now' mode uri result g cc =
     (if mode = ModeBypass then (cc, [])
      else (let fr = freshnessOf ceil defaultTtl now result (Some uri) in
            if now' < fr_expiresAt fr then (cc, writeOp ''resources/read'' (JObj result) g (Some fr) cc)
            else if mode = ModeRefresh then evictKey ''resources/read'' uri cc
            else (cc, [])))"

subsection \<open>Invalidation by notifications\<close>

definition LIST_CHANGED_EVICTIONS :: "(string \<times> string list) list" where
  "LIST_CHANGED_EVICTIONS =
     [(''notifications/tools/list_changed'', [''tools/list'']),
      (''notifications/prompts/list_changed'', [''prompts/list'']),
      (''notifications/resources/list_changed'', [''resources/list'', ''resources/templates/list''])]"

text \<open>The cache operations an inbound notification issues, before it is dispatched.\<close>

definition invalidationOf :: "obj \<Rightarrow> cache_op list" where
  "invalidationOf raw =
     (case oget raw ''method'' of
        JStr m \<Rightarrow>
          if m = ''notifications/resources/updated'' then
            (case getp (oget raw ''params'') ''uri'' of JStr uri \<Rightarrow> [CEvictKey ''resources/read'' uri] | _ \<Rightarrow> [])
          else (case map_of LIST_CHANGED_EVICTIONS m of None \<Rightarrow> [] | Some evicted \<Rightarrow> map CEvict evicted)
      | _ \<Rightarrow> [])"

text \<open>
  The identity a connection files its entries under: the server's name and version, else the
  session of the transport, else a surrogate.
\<close>

definition deriveServerIdentity :: "(string \<times> string) option \<Rightarrow> string option \<Rightarrow> string \<Rightarrow> string" where
  "deriveServerIdentity serverVersion sessionId surrogate =
     (case serverVersion of
        Some (n, v) \<Rightarrow> n @ ''@'' @ v
      | None \<Rightarrow> or_else sessionId (''anonymous:'' @ surrogate))"

subsection \<open>The walk ends\<close>

lemma walk_terminates:
  assumes "maxPages \<noteq> 0"
  shows "\<exists>r later. walkPages srv maxPages method key acc cursor previous pages asked = Some (r, asked @ later)
    \<and> int (length later) \<le> max 0 (maxPages - int pages)"
proof (induction "nat (maxPages - int pages)" arbitrary: acc cursor previous pages asked rule: less_induct)
  case less
  show ?case
  proof (cases "cursor = JUndef \<or> maxPages \<le> int pages")
    case True
    then show ?thesis using assms by (subst walkPages.simps) auto
  next
    case False
    then have lt: "nat (maxPages - int (pages + 1)) < nat (maxPages - int pages)" by simp
    show ?thesis
    proof (cases "srv pages cursor")
      case (Inr page)
      obtain r later where r: "walkPages srv maxPages method key (extendItems key acc page)
            (oget page ''nextCursor'') page (pages + 1) (asked @ [cursor]) = Some (r, (asked @ [cursor]) @ later)"
          "int (length later) \<le> max 0 (maxPages - int (pages + 1))"
        using less [OF lt] by blast
      show ?thesis
      proof (cases "stuck key cursor page previous")
        case True
        then show ?thesis using False Inr by (subst walkPages.simps) simp
      next
        case stuck: False
        have "walkPages srv maxPages method key acc cursor previous pages asked = Some (r, asked @ cursor # later)"
          using False Inr r(1) stuck assms by (subst walkPages.simps) simp
        moreover have "int (length (cursor # later)) \<le> max 0 (maxPages - int pages)"
          using r(2) False by simp
        ultimately show ?thesis by blast
      qed
    qed (use False in \<open>subst walkPages.simps; simp\<close>)
  qed
qed

text \<open>
  C21: With a page limit (64 by default, 0 disables it) the walk of a list verb always ends,
  however the server behaves, after requesting at most limit - 1 further pages.
\<close>

theorem list_walk_terminates:
  assumes "maxPages \<noteq> 0"
  shows "\<exists>r asked. aggregate srv maxPages method key finalize first = Some (r, asked)
    \<and> int (length asked) \<le> max 0 (maxPages - 1)"
  using walk_terminates [OF assms, of srv "method" key first "oget first ''nextCursor''" first 1 "[]"]
  by (auto simp: aggregate_def)

theorem list_walk_terminates_witness:
  "\<exists>r asked. aggregate (\<lambda>n _. Inr [(''tools'', JArr [JNum (NInt (int n))]), (''nextCursor'', JStr ''again'')]) 3
      ''tools/list'' ''tools'' id [(''nextCursor'', JStr ''again'')] = Some (r, asked) \<and> int (length asked) \<le> 2"
  using list_walk_terminates [of 3 "\<lambda>n _. Inr [(''tools'', JArr [JNum (NInt (int n))]), (''nextCursor'', JStr ''again'')]"
      "''tools/list''" "''tools''" id "[(''nextCursor'', JStr ''again'')]"] by simp

subsection \<open>What the walk returns\<close>

text \<open>A list of pages each of which the server gave for the cursor of the one before.\<close>

fun chain :: "(nat \<Rightarrow> js \<Rightarrow> err + obj) \<Rightarrow> obj \<Rightarrow> nat \<Rightarrow> obj list \<Rightarrow> bool" where
  "chain srv previous n [] = True"
| "chain srv previous n (page # pages) =
     (srv n (oget previous ''nextCursor'') = Inr page \<and> chain srv page (Suc n) pages)"

text \<open>No page is left, or the next one makes no progress.\<close>

definition exhausted :: "(nat \<Rightarrow> js \<Rightarrow> err + obj) \<Rightarrow> string \<Rightarrow> obj \<Rightarrow> nat \<Rightarrow> bool" where
  "exhausted srv key page n \<longleftrightarrow>
     (let cursor = oget page ''nextCursor'' in
      cursor = JUndef \<or> (case srv n cursor of Inl _ \<Rightarrow> False | Inr next_page \<Rightarrow> stuck key cursor next_page page))"

lemma pageItems_extend [simp]: "pageItems key (extendItems key acc page) = pageItems key acc @ pageItems key page"
  by (simp add: extendItems_def pageItems_def)

lemma oget_extend: "k \<noteq> key \<Longrightarrow> oget (extendItems key acc page) k = oget acc k"
  by (simp add: extendItems_def)

lemma walk_collects:
  assumes "walkPages srv maxPages method key acc cursor previous n asked = Some (r, asked')"
    "r = Inr acc'" "cursor = oget previous ''nextCursor''"
  shows "\<exists>pages. chain srv previous n pages
    \<and> pageItems key acc' = pageItems key acc @ concat (map (pageItems key) pages)
    \<and> exhausted srv key (last (previous # pages)) (n + length pages)
    \<and> (\<forall>k. k \<noteq> key \<longrightarrow> oget acc' k = oget acc k)"
proof -
  let ?goal = "\<lambda>srv key acc previous n acc'. \<exists>pages. chain srv previous n pages
    \<and> pageItems key acc' = pageItems key acc @ concat (map (pageItems key) pages)
    \<and> exhausted srv key (last (previous # pages)) (n + length pages)
    \<and> (\<forall>k. k \<noteq> key \<longrightarrow> oget acc' k = oget acc k)"
  have "\<forall>acc'. fst (r, asked') = Inr acc' \<longrightarrow> cursor = oget previous ''nextCursor'' \<longrightarrow> ?goal srv key acc previous n acc'"
  proof (rule walkPages.raw_induct [OF _ assms(1), where
        P = "\<lambda>srv maxPages method key acc cursor previous n asked r. \<forall>acc'. fst r = Inr acc' \<longrightarrow>
          cursor = oget previous ''nextCursor'' \<longrightarrow> ?goal srv key acc previous n acc'"], intro allI impI)
    fix walk srv maxPages "method" key acc cursor previous n asked r acc'
    assume IH: "\<And>srv maxPages method key acc cursor previous n asked r.
        walk srv maxPages method key acc cursor previous n asked = Some r \<Longrightarrow>
        \<forall>acc'. fst r = Inr acc' \<longrightarrow> cursor = oget previous ''nextCursor'' \<longrightarrow> ?goal srv key acc previous n acc'"
      and body: "(if cursor = JUndef then Some (Inr acc, asked)
         else if maxPages \<noteq> 0 \<and> maxPages \<le> int n then Some (Inl (paginationExceeded method maxPages), asked)
         else (case srv n cursor of
                 Inl e \<Rightarrow> Some (Inl e, asked @ [cursor])
               | Inr page \<Rightarrow>
                   if stuck key cursor page previous then Some (Inr acc, asked @ [cursor])
                   else walk srv maxPages method key (extendItems key acc page)
                          (oget page ''nextCursor'') page (n + 1) (asked @ [cursor]))) = Some r"
      and r: "fst r = Inr acc'" and cursor: "cursor = oget previous ''nextCursor''"
    show "?goal srv key acc previous n acc'"
    proof (cases "cursor = JUndef \<or> (\<exists>page. srv n cursor = Inr page \<and> stuck key cursor page previous)")
      case True
      then have "acc' = acc" "exhausted srv key previous n"
        using body r cursor by (auto simp: exhausted_def Let_def split: if_splits)
      then show ?thesis by (intro exI [of _ "[]"]) simp
    next
      case False
      then obtain page where page: "srv n cursor = Inr page" "\<not> stuck key cursor page previous"
        using body r by (auto split: if_splits sum.splits)
      then have "walk srv maxPages method key (extendItems key acc page) (oget page ''nextCursor'') page (n + 1)
          (asked @ [cursor]) = Some r"
        using body r False by (auto split: if_splits)
      from IH [OF this] r obtain pages where p: "chain srv page (n + 1) pages"
        "pageItems key acc' = pageItems key (extendItems key acc page) @ concat (map (pageItems key) pages)"
        "exhausted srv key (last (page # pages)) (n + 1 + length pages)"
        "\<forall>k. k \<noteq> key \<longrightarrow> oget acc' k = oget (extendItems key acc page) k"
        by blast
      then show ?thesis
        using page cursor by (intro exI [of _ "page # pages"]) (auto simp: oget_extend)
    qed
  qed
  then show ?thesis using assms(2,3) by simp
qed


subsection \<open>How long a result is served\<close>

lemma clampTtl_bounds: "0 \<le> clampTtl ceil ttl" "clampTtl ceil ttl \<le> MAX_CACHE_TTL_MS"
  by (simp_all add: clampTtl_def MAX_CACHE_TTL_MS_def split: jnum.split)

text \<open>
  A server cannot pin a result: what a cacheable verb stores is served for as long as its
  \<open>ttlMs\<close> (or the default) says, never when that is zero or negative, and never 24 hours or
  more after it was stored.
\<close>

theorem ttl_is_capped:
  assumes "NUL \<notin> set m" "json_value num (JObj doc)" "generation cc (genKey m params) = g"
    and "s' = runCalls inMemory (writeOp m (JObj doc) g (Some (freshnessOf ceil defaultTtl now doc params)) cc) s"
  shows "fst (readOp num inMemory now' s' s' m params cc)
      = Inr (if now' < now + clampTtl ceil (case oget doc ''ttlMs'' of JNum n \<Rightarrow> n | _ \<Rightarrow> defaultTtl)
             then Some (JObj doc) else None)
    \<and> (now + MAX_CACHE_TTL_MS \<le> now' \<longrightarrow> fst (readOp num inMemory now' s' s' m params cc) = Inr None)"
proof -
  let ?fr = "freshnessOf ceil defaultTtl now doc params"
  have p: "fr_params ?fr = params"
    and e: "fr_expiresAt ?fr = now + clampTtl ceil (case oget doc ''ttlMs'' of JNum n \<Rightarrow> n | _ \<Rightarrow> defaultTtl)"
    by (simp_all add: freshnessOf_def Let_def)
  have "readOp num inMemory now' s' s' m params cc
      = (Inr (if now' < fr_expiresAt ?fr then Some (JObj doc) else None), [])"
    using written_is_read [OF assms(1,2), of cc ?fr g s' s now'] assms(3,4) by (simp only: p)
  then show ?thesis
    using clampTtl_bounds(2) [of ceil "case oget doc ''ttlMs'' of JNum n \<Rightarrow> n | _ \<Rightarrow> defaultTtl"]
    by (simp add: e)
qed

text \<open>
  Two different servers can derive the same identity: the concatenation with an at sign is
  not injective, although the partition encoding built on it is.
\<close>

lemma identities_collide:
  "deriveServerIdentity (Some (''a'', ''b@c'')) s1 r1 = deriveServerIdentity (Some (''a@b'', ''c'')) s2 r2"
  by (simp add: deriveServerIdentity_def)

subsection \<open>Witnesses\<close>

definition demoServer :: "nat \<Rightarrow> js \<Rightarrow> err + obj" where
  "demoServer n cursor = Inr [(''tools'', JArr [JBool True])]"

definition demoFirst :: obj where
  "demoFirst = [(''tools'', JArr [JBool False]), (''nextCursor'', JStr ''2''), (''ttlMs'', JNum (NInt 1))]"

lemma demo_walk:
  "aggregate demoServer 64 ''tools/list'' ''tools'' id demoFirst
   = Some (Inr [(''tools'', JArr [JBool False, JBool True]), (''ttlMs'', JNum (NInt 1))], [JStr ''2''])"
  by (simp add: aggregate_def demoServer_def demoFirst_def walkPages.simps stuck_def extendItems_def pageItems_def odel_def)


theorem ttl_is_capped_witness:
  "fst (readOp demoNum inMemory 86400001
     (runCalls inMemory (writeOp ''resources/read'' (JObj []) 0
       (Some (freshnessOf (\<lambda>_. 0) (NInt 100000000) 1 [] (Some ''u''))) (demoClients 0)) (newStore None))
     (runCalls inMemory (writeOp ''resources/read'' (JObj []) 0
       (Some (freshnessOf (\<lambda>_. 0) (NInt 100000000) 1 [] (Some ''u''))) (demoClients 0)) (newStore None))
     ''resources/read'' (Some ''u'') (demoClients 0)) = Inr None"
  using ttl_is_capped [of "''resources/read''" demoNum "[]" "demoClients 0" "Some ''u''" 0 _ "\<lambda>_. 0" "NInt 100000000" 1
      "newStore None" 86400001]
  by (simp add: NUL_def owf_def okeys_def demoClients_def setServerIdentity_def newCache_def generation_def
      MAX_CACHE_TTL_MS_def clampTtl_def)

end
