(* ===== verification/ClientConnect.thy ===== *)
theory ClientConnect
  imports VersionNegotiation CachedVerbs
begin

text \<open>
  How a client connects (packages/client/src/client/client.ts): the \<open>initialize\<close> handshake,
  the negotiated connect over the probe of VersionNegotiation, the adoption of a cached
  verdict, and what of the connection state survives.

  The environment of one connect is a record: what the transport is and does, the probe
  exchanges, the answer to \<open>initialize\<close>, and how the steps outside the model end. A connect
  returns its effects in order, the state it leaves and the error it rejects with, if any.
  List-changed handlers and the auto-opened listen stream enter as their outcome.
\<close>

record conn_state =
  cn_negotiated :: "string option"
  cn_serverCapabilities :: js
  cn_serverVersion :: js
  cn_instructions :: js
  cn_discover :: js
  cn_identity :: string

definition freshState :: conn_state where
  "freshState = \<lparr>cn_negotiated = None, cn_serverCapabilities = JUndef, cn_serverVersion = JUndef,
     cn_instructions = JUndef, cn_discover = JUndef, cn_identity = []\<rparr>"

datatype conn_effect =
    Attach
  | SendProbe js
  | SendInitialize string
  | NotifyInitialized
  | SetProtocolVersion string
  | CloseTransport

record connect_env =
  ce_sessionId :: "string option"
  ce_setsVersion :: bool
  ce_kind :: transport_kind
  ce_stdioParams :: bool
  ce_environment :: probe_environment
  ce_timeoutMs :: int
  ce_startError :: "thrown option"
  ce_attachError :: "connect_error option"
  ce_probe :: "nat \<Rightarrow> window_event list"
  ce_callerClose :: caller_close
  ce_initialize :: "connect_error + js"
  ce_initialized :: "connect_error option"
  ce_setupHandlers :: "connect_error option"
  ce_autoListen :: "connect_error option"
  ce_surrogate :: string

record connect_config =
  cg_negotiation :: "negotiation_options option"
  cg_supported :: "string list option"
  cg_clientInfo :: js
  cg_capabilities :: js

type_synonym connect_run = "conn_effect list \<times> conn_state \<times> connect_error option"

datatype prior_discovery = PriorModern obj | PriorLegacy

definition resetConnectionState :: "conn_state \<Rightarrow> conn_state" where
  "resetConnectionState st = freshState"

text \<open>The versions of \<open>Protocol._supportedProtocolVersions\<close>, and the legacy ones a handshake may use.\<close>

definition handshakeVersions :: "connect_config \<Rightarrow> string list" where
  "handshakeVersions cfg = legacyProtocolVersions (or_else (cg_supported cfg) SUPPORTED_PROTOCOL_VERSIONS)"

definition implementationName :: "js \<Rightarrow> (string \<times> string) option" where
  "implementationName v =
     (case (getp v ''name'', getp v ''version'') of (JStr n, JStr w) \<Rightarrow> Some (n, w) | _ \<Rightarrow> None)"

definition serverInfoFromDiscover :: "(js \<Rightarrow> bool) \<Rightarrow> obj \<Rightarrow> js" where
  "serverInfoFromDiscover implementationOk discover =
     (let fromMeta = getp (oget discover ''_meta'') SERVER_INFO_META_KEY in
      if implementationOk fromMeta then fromMeta else JUndef)"

definition pushVersion :: "connect_env \<Rightarrow> string \<Rightarrow> conn_effect list" where
  "pushVersion env v = (if ce_setsVersion env then [SetProtocolVersion v] else [])"

text \<open>The members a handshake or a discovery fills in.\<close>

definition adoptServer :: "connect_env \<Rightarrow> js \<Rightarrow> js \<Rightarrow> js \<Rightarrow> js \<Rightarrow> conn_state \<Rightarrow> conn_state" where
  "adoptServer env capabilities serverVersion instructions discover st =
     st\<lparr>cn_serverCapabilities := capabilities, cn_serverVersion := serverVersion, cn_instructions := instructions,
        cn_discover := discover,
        cn_identity := deriveServerIdentity (implementationName serverVersion) (ce_sessionId env) (ce_surrogate env)\<rparr>"

definition noLegacyVersion :: connect_error where
  "noLegacyVersion = Raised (SdkError EraNegotiationFailed
     ''Cannot run the initialize handshake: supportedProtocolVersions contains no pre-2026-07-28 protocol version'' JUndef)"

definition invalidInitializeResult :: connect_error where
  "invalidInitializeResult = Raised (PlainErr ''Server sent invalid initialize result: undefined'')"

definition unsupportedServerVersion :: "string \<Rightarrow> connect_error" where
  "unsupportedServerVersion v = Raised (PlainErr (''Server's protocol version is not supported: '' @ v))"

text \<open>The \<open>catch\<close> of the handshake: the connection is closed, which resets its state.\<close>

definition failHandshake :: "conn_effect list \<Rightarrow> conn_state \<Rightarrow> connect_error \<Rightarrow> connect_run" where
  "failHandshake done_so_far st e = (done_so_far @ [CloseTransport], resetConnectionState st, Some e)"

definition legacyHandshake :: "connect_config \<Rightarrow> connect_env \<Rightarrow> conn_effect list \<Rightarrow> conn_state \<Rightarrow> connect_run" where
  "legacyHandshake cfg env before st =
     (case handshakeVersions cfg of
        [] \<Rightarrow> failHandshake before st noLegacyVersion
      | offered # _ \<Rightarrow>
          (let sent = before @ [SendInitialize offered] in
           case ce_initialize env of
             Inl e \<Rightarrow> failHandshake sent st e
           | Inr result \<Rightarrow>
               if result = JUndef then failHandshake sent st invalidInitializeResult else
               (let version = or_else (str_of (getp result ''protocolVersion'')) [] in
                if version \<notin> set (handshakeVersions cfg) then failHandshake sent st (unsupportedServerVersion version)
                else (let st1 = adoptServer env (getp result ''capabilities'') (getp result ''serverInfo'')
                             (getp result ''instructions'') (cn_discover st) st;
                          sent1 = sent @ pushVersion env version @ [NotifyInitialized] in
                      case ce_initialized env of
                        Some e \<Rightarrow> failHandshake sent1 st1 e
                      | None \<Rightarrow>
                          (case ce_setupHandlers env of
                             Some e \<Rightarrow> failHandshake sent1 st1 e
                           | None \<Rightarrow> (sent1, st1\<lparr>cn_negotiated := Some version\<rparr>, None))))))"

text \<open>A transport with a session id resumes: the negotiated version is pushed to it and nothing else happens.\<close>

definition resume :: "connect_env \<Rightarrow> conn_state \<Rightarrow> connect_run" where
  "resume env st =
     (case ce_attachError env of
        Some e \<Rightarrow> ([Attach], st, Some e)
      | None \<Rightarrow> (Attach # (case cn_negotiated st of None \<Rightarrow> [] | Some v \<Rightarrow> pushVersion env v), st, None))"

definition connectPlainLegacy :: "connect_config \<Rightarrow> connect_env \<Rightarrow> conn_state \<Rightarrow> connect_run" where
  "connectPlainLegacy cfg env st =
     (if ce_sessionId env \<noteq> None then resume env st
      else (case ce_attachError env of
              Some e \<Rightarrow> ([Attach], st, Some e)
            | None \<Rightarrow> legacyHandshake cfg env [Attach] (resetConnectionState st)))"

definition depsOf :: "connect_config \<Rightarrow> connect_env \<Rightarrow> negotiation_deps" where
  "depsOf cfg env =
     \<lparr>nd_clientInfo = cg_clientInfo cfg, nd_capabilities = cg_capabilities cfg, nd_environment = ce_environment env,
      nd_transportKind = ce_kind env, nd_defaultTimeoutMs = ce_timeoutMs env, nd_disposableProbe = False\<rparr>"

text \<open>
  The negotiation of a fresh connect: on a disposable sibling when the transport is the SDK's
  own stdio transport, where no probe touches the session transport, in place otherwise.
\<close>

definition negotiate ::
  "(string \<Rightarrow> jnum) \<Rightarrow> (js \<Rightarrow> obj option) \<Rightarrow> probe_plan \<Rightarrow> connect_config \<Rightarrow> connect_env
     \<Rightarrow> conn_effect list \<times> (connect_error + negotiation_result)" where
  "negotiate num ds plan cfg env =
     (if ce_kind env = Stdio \<and> ce_stdioParams env then
        ([], negotiateStdioViaSibling num ds plan (depsOf cfg env) (ce_startError env) (ce_callerClose env) (ce_probe env))
      else (let run = negotiateEra num ds plan (depsOf cfg env) (ce_startError env) True (ce_probe env) in
            (map SendProbe (er_sent run), er_result run)))"

definition adoptModern ::
  "(js \<Rightarrow> bool) \<Rightarrow> connect_env \<Rightarrow> string \<Rightarrow> obj \<Rightarrow> conn_state \<Rightarrow> conn_state" where
  "adoptModern implementationOk env version discover st =
     (adoptServer env (oget discover ''capabilities'') (serverInfoFromDiscover implementationOk discover)
        (oget discover ''instructions'') (JObj discover) st)\<lparr>cn_negotiated := Some version\<rparr>"

definition connectNegotiated ::
  "(string \<Rightarrow> jnum) \<Rightarrow> (js \<Rightarrow> obj option) \<Rightarrow> (js \<Rightarrow> bool) \<Rightarrow> probe_plan \<Rightarrow> connect_config \<Rightarrow> connect_env
     \<Rightarrow> conn_state \<Rightarrow> connect_run" where
  "connectNegotiated num ds implementationOk plan cfg env st =
     (if ce_sessionId env \<noteq> None then resume env st
      else (let st0 = resetConnectionState st in
        case negotiate num ds plan cfg env of
          (probes, Inl e) \<Rightarrow> (probes @ [CloseTransport], st0, Some e)
        | (probes, Inr result) \<Rightarrow>
            (case ce_attachError env of
               Some e \<Rightarrow> (probes @ [Attach], st0, Some e)
             | None \<Rightarrow>
                 (case result of
                    EraLegacy \<Rightarrow> legacyHandshake cfg env (probes @ [Attach]) st0
                  | EraModern version discover \<Rightarrow>
                      (let sent = probes @ Attach # pushVersion env version;
                           st1 = adoptModern implementationOk env version discover st0 in
                       case ce_autoListen env of
                         Some e \<Rightarrow> (sent @ [CloseTransport], resetConnectionState st1, Some e)
                       | None \<Rightarrow> (sent, st1, None))))))"

definition noModernOverlap :: connect_error where
  "noModernOverlap = Raised (SdkError EraNegotiationFailed
     (''connect({ prior }) with a modern verdict requires a 2026-07-28+ mutual protocol version; the supplied DiscoverResult and ''
      @ ''this client's supportedProtocolVersions have no modern overlap. For a server known to be legacy, pass ''
      @ ''prior: { kind: '' @ sq ''legacy'' @ '' } to skip the probe and initialize directly, or use ''
      @ ''versionNegotiation: { mode: '' @ sq ''auto'' @ '' } to re-probe with legacy fallback.'') JUndef)"

definition connectFromPrior ::
  "(js \<Rightarrow> bool) \<Rightarrow> connect_config \<Rightarrow> connect_env \<Rightarrow> prior_discovery \<Rightarrow> conn_state \<Rightarrow> connect_run" where
  "connectFromPrior implementationOk cfg env prior st =
     (case prior of
        PriorLegacy \<Rightarrow> connectPlainLegacy cfg env st
      | PriorModern discover \<Rightarrow>
          (let st0 = resetConnectionState st in
           case List.find (\<lambda>v. v \<in> set (supportedVersionsOf discover)) (offeredModern (cg_supported cfg)) of
             None \<Rightarrow> ([], st0, Some noModernOverlap)
           | Some version \<Rightarrow>
               (case ce_attachError env of
                  Some e \<Rightarrow> ([Attach], st0, Some e)
                | None \<Rightarrow>
                    (Attach # pushVersion env version, adoptModern implementationOk env version discover st0, None))))"

text \<open>The check of a cached verdict before anything happens.\<close>

definition unrecognizedPrior :: connect_error where
  "unrecognizedPrior = Raised (SdkError EraNegotiationFailed
     (''connect({ prior }): unrecognized prior - expected { kind: '' @ sq ''modern'' @ '', discover } or { kind: '' @ sq ''legacy'' @ '' }'') JUndef)"

definition validatePrior :: "(js \<Rightarrow> bool) \<Rightarrow> js \<Rightarrow> connect_error + prior_discovery" where
  "validatePrior discoverOk prior =
     (case prior of
        JObj o' \<Rightarrow>
          if oget o' ''kind'' = JStr ''legacy'' \<and> \<not> ohas o' ''supportedVersions'' \<and> \<not> ohas o' ''discover'' then Inr PriorLegacy
          else if oget o' ''kind'' = JStr ''modern'' \<and> discoverOk (oget o' ''discover'') then
            (case oget o' ''discover'' of JObj d \<Rightarrow> Inr (PriorModern d) | _ \<Rightarrow> Inl unrecognizedPrior)
          else Inl unrecognizedPrior
      | _ \<Rightarrow> Inl unrecognizedPrior)"

definition connect ::
  "(string \<Rightarrow> jnum) \<Rightarrow> (js \<Rightarrow> obj option) \<Rightarrow> (js \<Rightarrow> bool) \<Rightarrow> (js \<Rightarrow> bool) \<Rightarrow> connect_config \<Rightarrow> connect_env
     \<Rightarrow> js \<Rightarrow> conn_state \<Rightarrow> connect_run" where
  "connect num ds implementationOk discoverOk cfg env prior st =
     (if prior \<noteq> JUndef \<and> prior \<noteq> JNull then
        (case validatePrior discoverOk prior of
           Inl e \<Rightarrow> ([], st, Some e)
         | Inr p \<Rightarrow> connectFromPrior implementationOk cfg env p st)
      else (case resolveVersionNegotiation (cg_negotiation cfg) (cg_supported cfg) of
              Inl e \<Rightarrow> ([], st, Some (Raised e))
            | Inr negotiation \<Rightarrow>
                (case planOf negotiation (depsOf cfg env) of
                   None \<Rightarrow> connectPlainLegacy cfg env st
                 | Some plan \<Rightarrow> connectNegotiated num ds implementationOk plan cfg env st)))"

subsection \<open>The handshake\<close>

fun initializeOf :: "conn_effect \<Rightarrow> string option" where
  "initializeOf (SendInitialize v) = Some v"
| "initializeOf _ = None"

fun pushedOf :: "conn_effect \<Rightarrow> string option" where
  "pushedOf (SetProtocolVersion v) = Some v"
| "pushedOf _ = None"

definition initializes :: "conn_effect list \<Rightarrow> string list" where
  "initializes effs = List.map_filter initializeOf effs"

definition pushes :: "conn_effect list \<Rightarrow> string list" where
  "pushes effs = List.map_filter pushedOf effs"

lemma effect_projections [simp]:
  "initializes [] = []" "initializes (a @ b) = initializes a @ initializes b"
  "initializes (e # es) = (case initializeOf e of None \<Rightarrow> initializes es | Some v \<Rightarrow> v # initializes es)"
  "pushes [] = []" "pushes (a @ b) = pushes a @ pushes b"
  "pushes (e # es) = (case pushedOf e of None \<Rightarrow> pushes es | Some v \<Rightarrow> v # pushes es)"
  by (simp_all add: initializes_def pushes_def map_filter_def split: option.split)

lemma pushVersion_simps [simp]:
  "initializes (pushVersion env v) = []" "pushes (pushVersion env v) = (if ce_setsVersion env then [v] else [])"
  "NotifyInitialized \<notin> set (pushVersion env v)"
  by (simp_all add: pushVersion_def)

lemma probes_simps [simp]: "initializes (map SendProbe rs) = []" "pushes (map SendProbe rs) = []"
  by (induction rs) simp_all

lemma initializes_mem: "SendInitialize v \<in> set effs \<longleftrightarrow> v \<in> set (initializes effs)"
proof (induction effs)
  case (Cons e effs)
  then show ?case by (cases e) auto
qed simp

text \<open>What every run of the handshake has in common, and how it ends.\<close>

lemma handshake_run:
  assumes "legacyHandshake cfg env before st = (effs, st', err)"
  shows "initializes effs = initializes before @ (case handshakeVersions cfg of [] \<Rightarrow> [] | v # _ \<Rightarrow> [v])"
    and "err = None \<Longrightarrow> \<exists>v. cn_negotiated st' = Some v \<and> v \<in> set (handshakeVersions cfg)
           \<and> pushes effs = pushes before @ (if ce_setsVersion env then [v] else [])"
    and "err = Some e \<Longrightarrow> st' = freshState \<and> last effs = CloseTransport"
proof -
  have "initializes effs = initializes before @ (case handshakeVersions cfg of [] \<Rightarrow> [] | v # _ \<Rightarrow> [v])
    \<and> (err = None \<longrightarrow> (\<exists>v. cn_negotiated st' = Some v \<and> v \<in> set (handshakeVersions cfg)
           \<and> pushes effs = pushes before @ (if ce_setsVersion env then [v] else [])))
    \<and> (err \<noteq> None \<longrightarrow> st' = freshState \<and> last effs = CloseTransport)"
    using assms
    by (auto simp: legacyHandshake_def failHandshake_def Let_def resetConnectionState_def
        split: list.splits sum.splits js.splits option.splits if_splits)
  then show "initializes effs = initializes before @ (case handshakeVersions cfg of [] \<Rightarrow> [] | v # _ \<Rightarrow> [v])"
    "err = None \<Longrightarrow> \<exists>v. cn_negotiated st' = Some v \<and> v \<in> set (handshakeVersions cfg)
           \<and> pushes effs = pushes before @ (if ce_setsVersion env then [v] else [])"
    "err = Some e \<Longrightarrow> st' = freshState \<and> last effs = CloseTransport"
    by auto
qed

lemma handshake_legacy: "v \<in> set (handshakeVersions cfg) \<Longrightarrow> \<not> isModernProtocolVersion v"
  by (simp add: handshakeVersions_def legacyProtocolVersions_def)

lemma offered_modern: "v \<in> set (offeredModern s) \<Longrightarrow> isModernProtocolVersion v"
  by (auto simp: offeredModern_def Let_def modernProtocolVersions_def SUPPORTED_MODERN_PROTOCOL_VERSIONS_def
      isModernProtocolVersion_def split: if_splits option.splits)

lemma adoptModern_simps [simp]:
  "cn_negotiated (adoptModern ok env v d st) = Some v" "cn_discover (adoptModern ok env v d st) = JObj d"
  by (simp_all add: adoptModern_def adoptServer_def)

text \<open>Whatever path the negotiation takes, a modern result is one of \<open>negotiateEra\<close>.\<close>

lemma negotiate_modern:
  assumes "negotiate num ds plan cfg env = (probes, Inr (EraModern v d))"
    and "resolveVersionNegotiation (cg_negotiation cfg) (cg_supported cfg) = Inr negotiation"
    and "planOf negotiation (depsOf cfg env) = Some plan"
  shows "isModernProtocolVersion v \<and> v \<in> set (supportedVersionsOf d)
    \<and> (case pp_pin plan of Some pin \<Rightarrow> v = pin | None \<Rightarrow> v \<in> set (offeredModern (cg_supported cfg)))"
proof -
  obtain deps saved where d: "nd_defaultTimeoutMs deps = nd_defaultTimeoutMs (depsOf cfg env)"
    "er_result (negotiateEra num ds plan deps (ce_startError env) saved (ce_probe env)) = Inr (EraModern v d)"
  proof (cases "ce_kind env = Stdio \<and> ce_stdioParams env")
    case True
    let ?deps = "(depsOf cfg env)\<lparr>nd_transportKind := Stdio, nd_disposableProbe := True\<rparr>"
    have "er_result (negotiateEra num ds plan ?deps (ce_startError env) False (ce_probe env)) = Inr (EraModern v d)"
      using assms(1) True by (auto simp: negotiate_def negotiateStdioViaSibling_def Let_def split: if_splits sum.splits)
    then show thesis using that [of ?deps False] by simp
  next
    case False
    then show thesis using assms(1) that [of "depsOf cfg env" True] by (auto simp: negotiate_def Let_def)
  qed
  then have p: "planOf negotiation deps = Some plan" using assms(3) by (simp add: planOf_def)
  from negotiateEra_run(3) [OF d(2)] obtain run where
    "run_ok num ds plan deps (ce_probe env) (hd (pp_modernVersions plan)) 0 run" "pr_result run = Inr (EraModern v d)" by auto
  then have "v \<in> set (pp_modernVersions plan)" "v \<in> set (supportedVersionsOf d)" by (auto simp: run_ok_def Let_def)
  then show ?thesis
    using plan_versions [OF assms(2) p] by (auto simp: list_all_iff split: option.splits)
qed

lemma negotiate_probes: "negotiate num ds plan cfg env = (probes, r) \<Longrightarrow> \<exists>rs. probes = map SendProbe rs"
  by (auto simp: negotiate_def Let_def split: if_splits)

subsection \<open>Connecting\<close>

text \<open>
  C26: A connect that succeeds without resuming a session leaves one negotiated version, pushed
  to the transport exactly once (when it takes one). A modern one was found in the server's
  discovery and no \<open>initialize\<close> was sent; a legacy one is one the client supports, after exactly one
  \<open>initialize\<close>, offering the first legacy version the client supports.
\<close>

theorem connected_era_is_sound:
  assumes "connect num ds implementationOk discoverOk cfg env prior st = (effs, st', None)" "ce_sessionId env = None"
  shows "\<exists>v. cn_negotiated st' = Some v \<and> pushes effs = (if ce_setsVersion env then [v] else [])
    \<and> (if isModernProtocolVersion v
       then initializes effs = [] \<and> NotifyInitialized \<notin> set effs
            \<and> (\<exists>d. cn_discover st' = JObj d \<and> v \<in> set (supportedVersionsOf d))
       else v \<in> set (handshakeVersions cfg) \<and> initializes effs = [hd (handshakeVersions cfg)])"
proof -
  have legacy: ?thesis if l: "legacyHandshake cfg env before s = (effs, st', None)" "initializes before = []" "pushes before = []"
    for before s
  proof -
    obtain v where v: "cn_negotiated st' = Some v" "v \<in> set (handshakeVersions cfg)"
      "pushes effs = (if ce_setsVersion env then [v] else [])"
      using handshake_run(2) [OF l(1) refl] l(3) by auto
    moreover have "initializes effs = [hd (handshakeVersions cfg)]"
      using handshake_run(1) [OF l(1)] l(2) v(2) by (cases "handshakeVersions cfg") auto
    ultimately show ?thesis using handshake_legacy [OF v(2)] by (intro exI [of _ v]) simp
  qed
  have plain: ?thesis if "connectPlainLegacy cfg env s = (effs, st', None)" for s
  proof -
    have "legacyHandshake cfg env [Attach] (resetConnectionState s) = (effs, st', None)"
      using that assms(2) by (auto simp: connectPlainLegacy_def split: option.splits)
    then show ?thesis by (rule legacy) simp_all
  qed
  show ?thesis
  proof (cases "prior \<noteq> JUndef \<and> prior \<noteq> JNull")
    case True
    then obtain p where p: "connectFromPrior implementationOk cfg env p st = (effs, st', None)"
      using assms(1) by (auto simp: connect_def split: sum.splits)
    show ?thesis
    proof (cases p)
      case PriorLegacy
      then have "connectPlainLegacy cfg env st = (effs, st', None)" using p by (simp add: connectFromPrior_def)
      then show ?thesis by (rule plain)
    next
      case (PriorModern d)
      then obtain v where "v \<in> set (supportedVersionsOf d)" "v \<in> set (offeredModern (cg_supported cfg))"
        "effs = Attach # pushVersion env v" "st' = adoptModern implementationOk env v d (resetConnectionState st)"
        using p by (auto simp: connectFromPrior_def Let_def dest!: find_Some_mem split: option.splits)
      then show ?thesis using offered_modern by (intro exI [of _ v]) simp
    qed
  next
    case False
    then obtain negotiation where r: "resolveVersionNegotiation (cg_negotiation cfg) (cg_supported cfg) = Inr negotiation"
      using assms(1) by (auto simp: connect_def split: sum.splits)
    show ?thesis
    proof (cases "planOf negotiation (depsOf cfg env)")
      case None
      then have "connectPlainLegacy cfg env st = (effs, st', None)"
        using assms(1) False r by (auto simp: connect_def split: if_splits)
      then show ?thesis by (rule plain)
    next
      case (Some plan)
      then have c: "connectNegotiated num ds implementationOk plan cfg env st = (effs, st', None)"
        using assms(1) False r by (auto simp: connect_def split: if_splits)
      then obtain probes result where n: "negotiate num ds plan cfg env = (probes, Inr result)" "ce_attachError env = None"
        using assms(2) by (auto simp: connectNegotiated_def Let_def split: prod.splits sum.splits option.splits)
      obtain rs where rs: "probes = map SendProbe rs" using negotiate_probes [OF n(1)] by blast
      show ?thesis
      proof (cases result)
        case EraLegacy
        then have "legacyHandshake cfg env (probes @ [Attach]) (resetConnectionState st) = (effs, st', None)"
          using c n assms(2) by (auto simp: connectNegotiated_def Let_def)
        then show ?thesis by (rule legacy) (simp_all add: rs)
      next
        case (EraModern v d)
        then have "effs = probes @ Attach # pushVersion env v" "st' = adoptModern implementationOk env v d (resetConnectionState st)"
          using c n assms(2) by (auto simp: connectNegotiated_def Let_def split: option.splits)
        then show ?thesis
          using negotiate_modern [OF n(1) [unfolded EraModern] r Some] rs by (intro exI [of _ v]) auto
      qed
    qed
  qed
qed

text \<open>
  The \<open>initialize\<close> handshake never carries a modern version: whatever a connect does and
  however it ends, it sends at most one \<open>initialize\<close>, offering the first legacy version of
  the client's list, and none when that list has no legacy version.
\<close>

theorem initialize_never_offers_modern:
  assumes "connect num ds implementationOk discoverOk cfg env prior st = (effs, st', err)"
  shows "initializes effs = [] \<or> initializes effs = [hd (handshakeVersions cfg)]
    \<and> handshakeVersions cfg \<noteq> [] \<and> \<not> isModernProtocolVersion (hd (handshakeVersions cfg))"
proof -
  have legacy: ?thesis if "legacyHandshake cfg env before s = (effs, st', err)" "initializes before = []" for before s
    using handshake_run(1) [OF that(1)] that(2) handshake_legacy [of "hd (handshakeVersions cfg)" cfg]
    by (cases "handshakeVersions cfg") auto
  have res: ?thesis if "resume env s = (effs, st', err)" for s
    using that by (auto simp: resume_def split: option.splits)
  have plain: ?thesis if "connectPlainLegacy cfg env s = (effs, st', err)" for s
    using that res legacy [of "[Attach]"] by (auto simp: connectPlainLegacy_def split: option.splits if_splits)
  have negotiated: ?thesis if "connectNegotiated num ds implementationOk plan cfg env s = (effs, st', err)" for plan s
  proof (cases "ce_sessionId env = None")
    case True
    obtain probes r where n: "negotiate num ds plan cfg env = (probes, r)" by fastforce
    obtain rs where rs: "probes = map SendProbe rs" using negotiate_probes [OF n] by blast
    show ?thesis
      using that True n rs legacy [of "probes @ [Attach]" "resetConnectionState s"]
      by (auto simp: connectNegotiated_def Let_def split: sum.splits option.splits negotiation_result.splits)
  next
    case False
    then show ?thesis using that res by (simp add: connectNegotiated_def)
  qed
  have prior: ?thesis if "connectFromPrior implementationOk cfg env p s = (effs, st', err)" for p s
    using that plain by (auto simp: connectFromPrior_def Let_def split: prior_discovery.splits option.splits)
  show ?thesis
    using assms plain negotiated prior by (auto simp: connect_def split: if_splits sum.splits option.splits)
qed


text \<open>
  Resuming a session keeps the negotiation: on a transport that has a session id nothing
  is probed and no handshake runs, the state is unchanged, and the version negotiated before
  is pushed to the transport.
\<close>

theorem resume_keeps_negotiation:
  assumes "resolveVersionNegotiation (cg_negotiation cfg) (cg_supported cfg) = Inr negotiation"
    and "ce_sessionId env = Some sid" "ce_attachError env = None"
  shows "connect num ds implementationOk discoverOk cfg env JUndef st
    = (Attach # (case cn_negotiated st of None \<Rightarrow> [] | Some v \<Rightarrow> pushVersion env v), st, None)"
  using assms by (simp add: connect_def connectPlainLegacy_def connectNegotiated_def resume_def split: option.split)

text \<open>
  A cached verdict costs no round trip: a modern one is adopted without any request, at a
  modern version both sides list, or refused before the transport is touched; a legacy one
  connects exactly as a client without negotiation does.
\<close>

theorem cached_verdict_costs_nothing:
  assumes "validatePrior discoverOk prior = Inr p" "connect num ds implementationOk discoverOk cfg env prior st = (effs, st', err)"
  shows "case p of
      PriorLegacy \<Rightarrow> connect num ds implementationOk discoverOk (cfg\<lparr>cg_negotiation := None\<rparr>) env JUndef st = (effs, st', err)
    | PriorModern d \<Rightarrow>
        initializes effs = [] \<and> (\<forall>r. SendProbe r \<notin> set effs)
        \<and> (err = None \<longrightarrow> (\<exists>v. cn_negotiated st' = Some v \<and> isModernProtocolVersion v
             \<and> v \<in> set (supportedVersionsOf d) \<and> v \<in> set (offeredModern (cg_supported cfg))))
        \<and> (set (supportedVersionsOf d) \<inter> set (offeredModern (cg_supported cfg)) = {} \<longrightarrow> effs = [] \<and> err = Some noModernOverlap)"
proof -
  have "prior \<noteq> JUndef \<and> prior \<noteq> JNull" using assms(1) by (cases prior) (simp_all add: validatePrior_def)
  then have c: "connectFromPrior implementationOk cfg env p st = (effs, st', err)"
    using assms by (simp add: connect_def)
  show ?thesis
  proof (cases p)
    case PriorLegacy
    have h: "handshakeVersions (cfg\<lparr>cg_negotiation := None\<rparr>) = handshakeVersions cfg" by (simp add: handshakeVersions_def)
    have "legacyHandshake (cfg\<lparr>cg_negotiation := None\<rparr>) env b s = legacyHandshake cfg env b s" for b s
      unfolding legacyHandshake_def h by (rule refl)
    then have "connectPlainLegacy (cfg\<lparr>cg_negotiation := None\<rparr>) env st = connectPlainLegacy cfg env st"
      by (cases "ce_attachError env") (simp_all add: connectPlainLegacy_def)
    then show ?thesis
      using c PriorLegacy
      by (simp add: connectFromPrior_def connect_def resolveVersionNegotiation_def DEFAULT_VERSION_NEGOTIATION_MODE_def
          planOf_def Let_def)
  next
    case (PriorModern d)
    have "SendProbe r \<notin> set (pushVersion env v)" for r v by (simp add: pushVersion_def)
    then show ?thesis
      using c PriorModern offered_modern
      by (auto simp: connectFromPrior_def Let_def find_None_iff dest!: find_Some_mem split: option.splits)
  qed
qed

subsection \<open>Witnesses\<close>

definition demoEnv :: connect_env where
  "demoEnv = \<lparr>ce_sessionId = None, ce_setsVersion = True, ce_kind = Http, ce_stdioParams = False,
     ce_environment = Node, ce_timeoutMs = 60000, ce_startError = None, ce_attachError = None, ce_probe = demoAnswer,
     ce_callerClose = NoClose,
     ce_initialize = Inr (JObj [(''protocolVersion'', JStr ''2025-06-18'')]),
     ce_initialized = None, ce_setupHandlers = None, ce_autoListen = None, ce_surrogate = ''s''\<rparr>"

definition demoConfig :: connect_config where
  "demoConfig = \<lparr>cg_negotiation = demoOptions, cg_supported = None, cg_clientInfo = JNull, cg_capabilities = JNull\<rparr>"

abbreviation demoConnect :: "connect_config \<Rightarrow> connect_env \<Rightarrow> js \<Rightarrow> connect_run" where
  "demoConnect cfg env prior \<equiv> connect (\<lambda>_. NNaN) demoSchema (\<lambda>_. False) (\<lambda>v. v = JObj demoDiscover) cfg env prior freshState"

lemma demo_connect:
  "cn_negotiated (fst (snd (demoConnect demoConfig demoEnv JUndef))) = Some ''2026-07-28''"
  "snd (snd (demoConnect demoConfig demoEnv JUndef)) = None"
  "cn_negotiated (fst (snd (demoConnect (demoConfig\<lparr>cg_negotiation := None\<rparr>) demoEnv JUndef))) = Some ''2025-06-18''"
  "fst (demoConnect (demoConfig\<lparr>cg_negotiation := None\<rparr>) demoEnv JUndef)
     = [Attach, SendInitialize ''2025-11-25'', SetProtocolVersion ''2025-06-18'', NotifyInitialized]"
  "isModernProtocolVersion ''2026-07-28''"
  by code_simp+

theorem connected_era_is_sound_witness:
  "initializes (fst (demoConnect demoConfig demoEnv JUndef)) = []
   \<and> pushes (fst (demoConnect demoConfig demoEnv JUndef)) = [''2026-07-28'']"
proof -
  let ?run = "demoConnect demoConfig demoEnv JUndef"
  have "?run = (fst ?run, fst (snd ?run), None)" using demo_connect(2) by (metis prod.collapse)
  from connected_era_is_sound [OF this] show ?thesis
    using demo_connect(1,5) by (auto simp: demoEnv_def split: if_splits)
qed

theorem initialize_never_offers_modern_witness:
  "initializes [Attach, SendInitialize ''2025-11-25'', SetProtocolVersion ''2025-06-18'', NotifyInitialized]
     = [hd (handshakeVersions (demoConfig\<lparr>cg_negotiation := None\<rparr>))]"
proof -
  let ?run = "demoConnect (demoConfig\<lparr>cg_negotiation := None\<rparr>) demoEnv JUndef"
  have "?run = ([Attach, SendInitialize ''2025-11-25'', SetProtocolVersion ''2025-06-18'', NotifyInitialized],
      fst (snd ?run), snd (snd ?run))"
    using demo_connect(4) by (metis prod.collapse)
  from initialize_never_offers_modern [OF this] show ?thesis by simp
qed

text \<open>A server that answers the probe with status 503.\<close>

definition demoFailing :: connect_env where
  "demoFailing = demoEnv\<lparr>ce_probe := (\<lambda>_. [WSendFailed ''server-discover-probe-1''
     (closedError\<lparr>th_http := Some \<lparr>hd_status = 503, hd_statusText = None, hd_text = JUndef\<rparr>\<rparr>)])\<rparr>"


theorem resume_keeps_negotiation_witness:
  "connect (\<lambda>_. NNaN) demoSchema (\<lambda>_. False) (\<lambda>_. False) demoConfig (demoEnv\<lparr>ce_sessionId := Some ''s1''\<rparr>) JUndef
       (freshState\<lparr>cn_negotiated := Some ''2026-07-28''\<rparr>)
     = ([Attach, SetProtocolVersion ''2026-07-28''], freshState\<lparr>cn_negotiated := Some ''2026-07-28''\<rparr>, None)"
  by (subst resume_keeps_negotiation [where sid = "''s1''"])
    (simp_all add: demoConfig_def demo_resolved demoEnv_def pushVersion_def)

definition demoPrior :: js where
  "demoPrior = JObj [(''kind'', JStr ''modern''), (''discover'', JObj demoDiscover)]"

theorem cached_verdict_costs_nothing_witness:
  "initializes (fst (demoConnect demoConfig demoEnv demoPrior)) = [] \<and> (\<forall>r. SendProbe r \<notin> set (fst (demoConnect demoConfig demoEnv demoPrior)))"
proof -
  let ?run = "demoConnect demoConfig demoEnv demoPrior"
  have v: "validatePrior (\<lambda>v. v = JObj demoDiscover) demoPrior = Inr (PriorModern demoDiscover)" by code_simp
  have "?run = (fst ?run, fst (snd ?run), snd (snd ?run))" by simp
  from cached_verdict_costs_nothing [OF v this] show ?thesis by simp
qed

end
