(* ===== verification/Subscriptions.thy ===== *)
theory Subscriptions
  imports InboundClassification Json "HOL-Library.AList"
begin

text \<open>
  Server-side change subscriptions (packages/server/src/server/serverEventBus.ts,
  listenRouter.ts, sseKeepAlive.ts and the listen routing of serveStdio.ts).

  The HTTP router keeps its streams in a list, a stream's number being its position; the set
  of open subscriptions, the bus's listener set and the armed keep-alive timers are lists of
  stream numbers in insertion order. A stream records the frames enqueued on it. Events of
  the outside world (a listen request, a published change, a timer tick, an abort, the
  client closing the stream, \<open>closeAll\<close>) are the constructors of \<open>listen_event\<close>.

  The validation of the listen request by the 2026 codec is the argument \<open>parse\<close>.
\<close>

subsection \<open>Events and filters\<close>

datatype server_event =
    ToolsListChanged
  | PromptsListChanged
  | ResourcesListChanged
  | ResourceUpdated string

definition SUBSCRIPTION_ID_META_KEY :: string where
  "SUBSCRIPTION_ID_META_KEY = ''io.modelcontextprotocol/subscriptionId''"

fun listenFilterAccepts :: "obj \<Rightarrow> server_event \<Rightarrow> bool" where
  "listenFilterAccepts f ToolsListChanged = (oget f ''toolsListChanged'' = JBool True)"
| "listenFilterAccepts f PromptsListChanged = (oget f ''promptsListChanged'' = JBool True)"
| "listenFilterAccepts f ResourcesListChanged = (oget f ''resourcesListChanged'' = JBool True)"
| "listenFilterAccepts f (ResourceUpdated uri) =
     (case oget f ''resourceSubscriptions'' of JArr uris \<Rightarrow> JStr uri \<in> set uris | _ \<Rightarrow> False)"

text \<open>The capability bit of a change type.\<close>

definition capabilityBit :: "js \<Rightarrow> string \<Rightarrow> string \<Rightarrow> js" where
  "capabilityBit capabilities area flag = getp (getp capabilities area) flag"

definition allowBit :: "js option \<Rightarrow> string \<Rightarrow> string \<Rightarrow> bool" where
  "allowBit capabilities area flag =
     (case capabilities of None \<Rightarrow> True | Some c \<Rightarrow> capabilityBit c area flag = JBool True)"

definition honoredSubset :: "obj \<Rightarrow> js option \<Rightarrow> obj" where
  "honoredSubset requested capabilities =
     (let h1 = oset_if (oget requested ''toolsListChanged'' = JBool True \<and> allowBit capabilities ''tools'' ''listChanged'')
                 [] ''toolsListChanged'' (JBool True);
          h2 = oset_if (oget requested ''promptsListChanged'' = JBool True \<and> allowBit capabilities ''prompts'' ''listChanged'')
                 h1 ''promptsListChanged'' (JBool True);
          h3 = oset_if (oget requested ''resourcesListChanged'' = JBool True \<and> allowBit capabilities ''resources'' ''listChanged'')
                 h2 ''resourcesListChanged'' (JBool True)
      in (case oget requested ''resourceSubscriptions'' of
            JArr uris \<Rightarrow> oset_if (uris \<noteq> [] \<and> allowBit capabilities ''resources'' ''subscribe'')
                            h3 ''resourceSubscriptions'' (JArr uris)
          | _ \<Rightarrow> h3))"

fun serverEventToNotification :: "server_event \<Rightarrow> string \<times> obj" where
  "serverEventToNotification ToolsListChanged = (''notifications/tools/list_changed'', [])"
| "serverEventToNotification PromptsListChanged = (''notifications/prompts/list_changed'', [])"
| "serverEventToNotification ResourcesListChanged = (''notifications/resources/list_changed'', [])"
| "serverEventToNotification (ResourceUpdated uri) = (''notifications/resources/updated'', [(''uri'', JStr uri)])"

text \<open>The params of a notification with the subscription id in their \<open>_meta\<close>.\<close>

definition stampSubscriptionId :: "obj \<Rightarrow> js \<Rightarrow> obj" where
  "stampSubscriptionId params sid =
     oset params ''_meta'' (JObj (oset (or_else (obj_of (oget params ''_meta'')) []) SUBSCRIPTION_ID_META_KEY sid))"

definition notificationMessage :: "string \<Rightarrow> obj \<Rightarrow> js" where
  "notificationMessage method params =
     JObj [(''jsonrpc'', JStr ''2.0''), (''method'', JStr method), (''params'', JObj params)]"

definition ackMessage :: "obj \<Rightarrow> js \<Rightarrow> js" where
  "ackMessage honored sid =
     notificationMessage ''notifications/subscriptions/acknowledged''
       (stampSubscriptionId [(''notifications'', JObj honored)] sid)"

definition changeMessage :: "server_event \<Rightarrow> js \<Rightarrow> js" where
  "changeMessage ev sid =
     (case serverEventToNotification ev of (method, params) \<Rightarrow>
        notificationMessage method (stampSubscriptionId params sid))"

definition closeMessage :: "js \<Rightarrow> js \<Rightarrow> js" where
  "closeMessage sid serverInfo =
     JObj [(''jsonrpc'', JStr ''2.0''), (''id'', sid),
       (''result'', JObj [(''resultType'', JStr ''complete''),
          (''_meta'', JObj [(SUBSCRIPTION_ID_META_KEY, sid), (SERVER_INFO_META_KEY, serverInfo)])])]"

subsection \<open>The HTTP router\<close>

datatype sse_frame = Msg js | KeepAlive

definition nl :: char where
  "nl = CHR 0x0A"

definition frameText :: "sse_frame \<Rightarrow> string" where
  "frameText f =
     (case f of
        Msg v \<Rightarrow> ''event: message'' @ [nl] @ ''data: '' @ json_text v @ [nl, nl]
      | KeepAlive \<Rightarrow> '': keepalive'' @ [nl, nl])"

record listen_stream =
  ls_id :: js
  ls_honored :: obj
  ls_serverInfo :: js
  ls_frames :: "sse_frame list"
  ls_closed :: bool

record listen_router =
  lr_streams :: "listen_stream list"
  lr_open :: "nat list"
  lr_listeners :: "nat list"
  lr_timers :: "nat list"

record listen_config =
  lc_maxSubscriptions :: int
  lc_keepAliveMs :: int

definition DEFAULT_MAX_SUBSCRIPTIONS :: int where
  "DEFAULT_MAX_SUBSCRIPTIONS = 1024"

definition DEFAULT_SSE_KEEP_ALIVE_MS :: int where
  "DEFAULT_SSE_KEEP_ALIVE_MS = 15000"

definition listenConfig :: "int option \<Rightarrow> int option \<Rightarrow> listen_config" where
  "listenConfig maxSubscriptions keepAliveMs =
     \<lparr>lc_maxSubscriptions = or_else maxSubscriptions DEFAULT_MAX_SUBSCRIPTIONS,
      lc_keepAliveMs = or_else keepAliveMs DEFAULT_SSE_KEEP_ALIVE_MS\<rparr>"

text \<open>The interval of the keep-alive timer, if it is armed.\<close>

definition armSseKeepAlive :: "int \<Rightarrow> int option" where
  "armSseKeepAlive intervalMs = (if intervalMs < 1 then None else Some (min intervalMs (2 ^ 31 - 1)))"

definition newRouter :: listen_router where
  "newRouter = \<lparr>lr_streams = [], lr_open = [], lr_listeners = [], lr_timers = []\<rparr>"

definition updStream :: "nat \<Rightarrow> (listen_stream \<Rightarrow> listen_stream) \<Rightarrow> listen_router \<Rightarrow> listen_router" where
  "updStream i f r = (if i < length (lr_streams r) then r\<lparr>lr_streams := (lr_streams r)[i := f (lr_streams r ! i)]\<rparr> else r)"

definition writeFrame :: "sse_frame \<Rightarrow> listen_stream \<Rightarrow> listen_stream" where
  "writeFrame frame s = (if ls_closed s then s else s\<lparr>ls_frames := ls_frames s @ [frame]\<rparr>)"

text \<open>The teardown of a stream: the final result when graceful, then everything is released.\<close>

definition teardown :: "bool \<Rightarrow> nat \<Rightarrow> listen_router \<Rightarrow> listen_router" where
  "teardown graceful i r =
     (if i < length (lr_streams r) \<and> \<not> ls_closed (lr_streams r ! i) then
        (let s = lr_streams r ! i;
             s1 = (if graceful then writeFrame (Msg (closeMessage (ls_id s) (ls_serverInfo s))) s else s)
         in r\<lparr>lr_streams := (lr_streams r)[i := s1\<lparr>ls_closed := True\<rparr>],
              lr_listeners := removeAll i (lr_listeners r),
              lr_timers := removeAll i (lr_timers r),
              lr_open := removeAll i (lr_open r)\<rparr>)
      else r)"

datatype listen_reply = Refused js | Streaming nat

definition jsonRpcError :: "js \<Rightarrow> int \<Rightarrow> string \<Rightarrow> js" where
  "jsonRpcError i c message =
     JObj [(''jsonrpc'', JStr ''2.0''), (''error'', JObj [(''code'', JNum (NInt c)), (''message'', JStr message)]), (''id'', i)]"

definition invalidFilterMessage :: string where
  "invalidFilterMessage = ''Invalid params: '' @ sq ''notifications'' @ '' is required and must be a valid SubscriptionFilter''"

text \<open>The start of a stream: the acknowledgement, then delivery is activated unless nothing is honored.\<close>

definition startStream :: "listen_config \<Rightarrow> js \<Rightarrow> obj \<Rightarrow> js \<Rightarrow> listen_router \<Rightarrow> listen_router" where
  "startStream cfg sid honored serverInfo r =
     (let i = length (lr_streams r);
          r1 = r\<lparr>lr_streams := lr_streams r @ [\<lparr>ls_id = sid, ls_honored = honored, ls_serverInfo = serverInfo,
                   ls_frames = [Msg (ackMessage honored sid)], ls_closed = False\<rparr>]\<rparr>
      in if honored = [] then teardown True i r1
         else r1\<lparr>lr_listeners := lr_listeners r1 @ [i],
                 lr_timers := (if armSseKeepAlive (lc_keepAliveMs cfg) \<noteq> None then lr_timers r1 @ [i] else lr_timers r1),
                 lr_open := lr_open r1 @ [i]\<rparr>)"

text \<open>One listen request: the router, its reply, and what is reported. \<open>aborted\<close> is the state of the signal.\<close>

definition serveListen ::
  "(obj \<Rightarrow> obj option) \<Rightarrow> listen_config \<Rightarrow> obj \<Rightarrow> bool \<Rightarrow> js \<Rightarrow> js \<Rightarrow> listen_router
     \<Rightarrow> listen_router \<times> listen_reply \<times> string list" where
  "serveListen parse cfg message aborted capabilities serverInfo r =
     (if lc_maxSubscriptions cfg \<le> int (length (lr_open r)) then
        (r, Refused (jsonRpcError (oget message ''id'') (-32603) ''Subscription limit reached''),
         [''subscriptions/listen refused: subscription limit reached ('' @ show_int (lc_maxSubscriptions cfg) @ '')''])
      else (case parse message of
              None \<Rightarrow> (r, Refused (jsonRpcError (oget message ''id'') (-32602) invalidFilterMessage), [])
            | Some requested \<Rightarrow>
                (let i = length (lr_streams r);
                     r1 = startStream cfg (oget message ''id'') (honoredSubset requested (Some capabilities)) serverInfo r
                 in (if aborted then teardown False i r1 else r1, Streaming i, []))))"

text \<open>A listener of the bus: the stream it belongs to gets the stamped notification it opted in to.\<close>

definition listener :: "server_event \<Rightarrow> nat \<Rightarrow> listen_router \<Rightarrow> listen_router" where
  "listener ev i r =
     updStream i (\<lambda>s. if ls_closed s \<or> \<not> listenFilterAccepts (ls_honored s) ev then s
                      else writeFrame (Msg (changeMessage ev (ls_id s))) s) r"

text \<open>\<open>InMemoryServerEventBus.publish\<close>: the live listeners, in the order they subscribed.\<close>

definition publish :: "server_event \<Rightarrow> listen_router \<Rightarrow> listen_router" where
  "publish ev r = fold (listener ev) (lr_listeners r) r"

definition keepAliveTick :: "nat \<Rightarrow> listen_router \<Rightarrow> listen_router" where
  "keepAliveTick i r = (if i \<in> set (lr_timers r) then updStream i (writeFrame KeepAlive) r else r)"

definition closeAll :: "listen_router \<Rightarrow> listen_router" where
  "closeAll r = fold (teardown True) (lr_open r) r"

datatype listen_event =
    EvListen obj bool js js
  | EvPublish server_event
  | EvTick nat
  | EvAbort nat
  | EvCancel nat
  | EvCloseAll

fun routerStep :: "(obj \<Rightarrow> obj option) \<Rightarrow> listen_config \<Rightarrow> listen_event \<Rightarrow> listen_router \<Rightarrow> listen_router" where
  "routerStep parse cfg (EvListen message aborted capabilities serverInfo) r =
     fst (serveListen parse cfg message aborted capabilities serverInfo r)"
| "routerStep parse cfg (EvPublish ev) r = publish ev r"
| "routerStep parse cfg (EvTick i) r = keepAliveTick i r"
| "routerStep parse cfg (EvAbort i) r = teardown False i r"
| "routerStep parse cfg (EvCancel i) r = teardown False i r"
| "routerStep parse cfg EvCloseAll r = closeAll r"

definition routerRun :: "(obj \<Rightarrow> obj option) \<Rightarrow> listen_config \<Rightarrow> listen_event list \<Rightarrow> listen_router \<Rightarrow> listen_router" where
  "routerRun parse cfg evs r = fold (routerStep parse cfg) evs r"

subsection \<open>The invariant of the router\<close>

text \<open>
  Exactly the streams that are not closed are open, the bus's listeners are the open
  streams in the order they were opened, every open stream has a timer when keep-alive is on, and the number
  of open streams respects the limit.
\<close>

definition keepAliveArmed :: "listen_config \<Rightarrow> bool" where
  "keepAliveArmed cfg \<longleftrightarrow> armSseKeepAlive (lc_keepAliveMs cfg) \<noteq> None"

definition router_inv :: "listen_config \<Rightarrow> listen_router \<Rightarrow> bool" where
  "router_inv cfg r \<longleftrightarrow>
     distinct (lr_open r) \<and> set (lr_open r) = {i. i < length (lr_streams r) \<and> \<not> ls_closed (lr_streams r ! i)}
     \<and> lr_listeners r = lr_open r
     \<and> (\<forall>i. i \<in> set (lr_timers r) \<longleftrightarrow> i \<in> set (lr_open r) \<and> keepAliveArmed cfg)
     \<and> int (length (lr_open r)) \<le> max 0 (lc_maxSubscriptions cfg)"

lemma updStream_simps [simp]:
  "lr_open (updStream i f r) = lr_open r" "lr_listeners (updStream i f r) = lr_listeners r"
  "lr_timers (updStream i f r) = lr_timers r" "length (lr_streams (updStream i f r)) = length (lr_streams r)"
  by (simp_all add: updStream_def)

lemma updStream_nth:
  "j < length (lr_streams r) \<Longrightarrow> lr_streams (updStream i f r) ! j = (if j = i then f (lr_streams r ! j) else lr_streams r ! j)"
  by (simp add: updStream_def)

lemma teardown_simps [simp]:
  "length (lr_streams (teardown g i r)) = length (lr_streams r)"
  by (simp add: teardown_def Let_def)

text \<open>The stream after a teardown.\<close>

definition tornDown :: "bool \<Rightarrow> listen_stream \<Rightarrow> listen_stream" where
  "tornDown graceful s =
     (if ls_closed s then s
      else s\<lparr>ls_frames := ls_frames s @ (if graceful then [Msg (closeMessage (ls_id s) (ls_serverInfo s))] else []),
             ls_closed := True\<rparr>)"

lemma tornDown_closed [simp]: "ls_closed (tornDown g s)"
  by (simp add: tornDown_def)

lemma teardown_nth:
  "j < length (lr_streams r) \<Longrightarrow>
   lr_streams (teardown g i r) ! j = (if j = i then tornDown g (lr_streams r ! j) else lr_streams r ! j)"
  by (auto simp: teardown_def tornDown_def writeFrame_def Let_def)

lemma teardown_lists:
  assumes "router_inv cfg r"
  shows "lr_open (teardown g i r) = removeAll i (lr_open r)" "lr_listeners (teardown g i r) = removeAll i (lr_open r)"
    "set (lr_timers (teardown g i r)) = set (lr_timers r) - {i}"
proof -
  have "i \<notin> set (lr_open r)" if "\<not> (i < length (lr_streams r) \<and> \<not> ls_closed (lr_streams r ! i))"
    using that assms by (auto simp: router_inv_def)
  then show "lr_open (teardown g i r) = removeAll i (lr_open r)" "lr_listeners (teardown g i r) = removeAll i (lr_open r)"
    "set (lr_timers (teardown g i r)) = set (lr_timers r) - {i}"
    using assms by (auto simp: teardown_def Let_def router_inv_def removeAll_id)
qed

lemma writeFrame_closed [simp]: "ls_closed (writeFrame f s) = ls_closed s"
  by (simp add: writeFrame_def)

lemma teardown_inv: "router_inv cfg r \<Longrightarrow> router_inv cfg (teardown g i r)"
proof -
  assume inv: "router_inv cfg r"
  then have "int (length (lr_open r)) \<le> max 0 (lc_maxSubscriptions cfg)" by (simp add: router_inv_def)
  then have "int (length (removeAll i (lr_open r))) \<le> max 0 (lc_maxSubscriptions cfg)"
    by (meson length_removeAll_less_eq of_nat_le_iff order_trans)
  then show ?thesis
    using inv teardown_lists [OF inv, of g i]
    by (auto simp: router_inv_def distinct_removeAll teardown_nth split: if_splits)
qed

lemma fold_teardown:
  assumes "router_inv cfg r"
  shows "router_inv cfg (fold (teardown g) js r) \<and> length (lr_streams (fold (teardown g) js r)) = length (lr_streams r)
    \<and> lr_open (fold (teardown g) js r) = filter (\<lambda>i. i \<notin> set js) (lr_open r)
    \<and> (\<forall>j < length (lr_streams r). lr_streams (fold (teardown g) js r) ! j
         = (if j \<in> set js then tornDown g (lr_streams r ! j) else lr_streams r ! j))"
  using assms
proof (induction js arbitrary: r)
  case (Cons i js)
  have d: "tornDown g (tornDown g s) = tornDown g s" for s by (simp add: tornDown_def)
  show ?case
    using Cons.IH [OF teardown_inv [OF Cons.prems], of g i] teardown_lists [OF Cons.prems, of g i]
    by (auto simp: teardown_nth d removeAll_filter_not_eq intro!: filter_cong)
qed simp

lemma fold_listener:
  assumes "distinct js"
  shows "length (lr_streams (fold (listener ev) js r)) = length (lr_streams r)
    \<and> lr_open (fold (listener ev) js r) = lr_open r \<and> lr_listeners (fold (listener ev) js r) = lr_listeners r
    \<and> lr_timers (fold (listener ev) js r) = lr_timers r
    \<and> (\<forall>j < length (lr_streams r). lr_streams (fold (listener ev) js r) ! j
         = (if j \<in> set js \<and> \<not> ls_closed (lr_streams r ! j) \<and> listenFilterAccepts (ls_honored (lr_streams r ! j)) ev
            then writeFrame (Msg (changeMessage ev (ls_id (lr_streams r ! j)))) (lr_streams r ! j)
            else lr_streams r ! j))"
  using assms
proof (induction js arbitrary: r)
  case (Cons i js)
  then show ?case
    using Cons.IH [of "listener ev i r"] by (auto simp: listener_def updStream_nth)
qed simp

subsection \<open>What a stream sees of an event\<close>

fun emitted :: "listen_event \<Rightarrow> nat \<Rightarrow> bool \<Rightarrow> listen_stream \<Rightarrow> sse_frame list" where
  "emitted (EvPublish ev) i armed s =
     (if listenFilterAccepts (ls_honored s) ev then [Msg (changeMessage ev (ls_id s))] else [])"
| "emitted (EvTick j) i armed s = (if j = i \<and> armed then [KeepAlive] else [])"
| "emitted EvCloseAll i armed s = [Msg (closeMessage (ls_id s) (ls_serverInfo s))]"
| "emitted _ i armed s = []"

fun ends :: "listen_event \<Rightarrow> nat \<Rightarrow> bool" where
  "ends (EvAbort j) i = (j = i)"
| "ends (EvCancel j) i = (j = i)"
| "ends EvCloseAll i = True"
| "ends _ i = False"

definition advance :: "listen_event \<Rightarrow> nat \<Rightarrow> bool \<Rightarrow> listen_stream \<Rightarrow> listen_stream" where
  "advance ev i armed s =
     (if ls_closed s then s
      else s\<lparr>ls_frames := ls_frames s @ emitted ev i armed s, ls_closed := ends ev i\<rparr>)"

lemma startStream_nth:
  "j < length (lr_streams r) \<Longrightarrow> lr_streams (startStream cfg sid honored info r) ! j = lr_streams r ! j"
  by (simp add: startStream_def Let_def teardown_nth nth_append)

lemma startStream_length [simp]:
  "length (lr_streams (startStream cfg sid honored info r)) = Suc (length (lr_streams r))"
  by (simp add: startStream_def Let_def)

lemma startStream_inv:
  assumes "router_inv cfg r" "int (length (lr_open r)) < lc_maxSubscriptions cfg"
  shows "router_inv cfg (startStream cfg sid honored info r)"
proof (cases "honored = []")
  case True
  then show ?thesis
    using assms
    by (auto simp: startStream_def Let_def teardown_def writeFrame_def router_inv_def nth_append list_update_append
        less_Suc_eq nth_list_update split: if_splits)
next
  case False
  then show ?thesis
    using assms by (auto simp: startStream_def Let_def router_inv_def nth_append less_Suc_eq keepAliveArmed_def)
qed

lemma routerStep_inv: "router_inv cfg r \<Longrightarrow> router_inv cfg (routerStep parse cfg ev r)"
proof (cases ev)
  case (EvListen message aborted capabilities info)
  assume "router_inv cfg r"
  then show ?thesis
    using EvListen startStream_inv teardown_inv by (auto simp: serveListen_def Let_def split: option.splits)
next
  case (EvPublish e)
  assume inv: "router_inv cfg r"
  then have "distinct (lr_listeners r)" by (simp add: router_inv_def)
  note pub = fold_listener [OF this, of e r, folded publish_def]
  have "ls_closed (lr_streams (publish e r) ! j) = ls_closed (lr_streams r ! j)" if "j < length (lr_streams r)" for j
    using that pub by simp
  then have "{j. j < length (lr_streams (publish e r)) \<and> \<not> ls_closed (lr_streams (publish e r) ! j)}
      = {j. j < length (lr_streams r) \<and> \<not> ls_closed (lr_streams r ! j)}"
    using conjunct1 [OF pub] by auto
  with pub inv EvPublish show ?thesis by (simp add: router_inv_def)
next
  case (EvTick i)
  assume "router_inv cfg r"
  then show ?thesis
    using EvTick by (auto simp: keepAliveTick_def router_inv_def updStream_nth writeFrame_def split: if_splits)
next
  case EvCloseAll
  assume "router_inv cfg r"
  then show ?thesis using EvCloseAll fold_teardown [of cfg r True "lr_open r"] by (simp add: closeAll_def)
qed (use teardown_inv in auto)

lemma advance_closed: "ls_closed s \<Longrightarrow> advance ev i armed s = s"
  by (simp add: advance_def)

lemma tornDown_advance: "tornDown True s = advance EvCloseAll i armed s"
  "tornDown False s = advance (EvAbort i) i armed s" "tornDown False s = advance (EvCancel i) i armed s"
  by (simp_all add: tornDown_def advance_def)

lemma advance_idle: "emitted ev i armed s = [] \<Longrightarrow> \<not> ends ev i \<Longrightarrow> advance ev i armed s = s"
  by (simp add: advance_def)

text \<open>A step of the router moves every stream by what the event means for it, and no stream is lost.\<close>

lemma routerStep_stream:
  assumes inv: "router_inv cfg r" and i: "i < length (lr_streams r)"
  shows "i < length (lr_streams (routerStep parse cfg ev r))
    \<and> lr_streams (routerStep parse cfg ev r) ! i = advance ev i (i \<in> set (lr_timers r)) (lr_streams r ! i)"
proof (cases ev)
  case (EvListen message aborted capabilities info)
  then show ?thesis
    using i by (auto simp: serveListen_def Let_def advance_idle teardown_nth startStream_nth split: option.splits)
next
  case (EvPublish e)
  have "distinct (lr_listeners r)" using inv by (simp add: router_inv_def)
  from fold_listener [OF this, of e r] show ?thesis
    using inv i EvPublish by (auto simp: publish_def router_inv_def advance_def writeFrame_def)
next
  case (EvTick j)
  have "\<not> ls_closed (lr_streams r ! i)" if "i \<in> set (lr_timers r)"
    using that inv by (auto simp: router_inv_def)
  with EvTick i show ?thesis
    by (auto simp: keepAliveTick_def updStream_nth advance_def writeFrame_def)
next
  case EvCloseAll
  then show ?thesis
    using fold_teardown [OF inv, of True "lr_open r"] inv i
    by (auto simp: closeAll_def tornDown_advance advance_closed router_inv_def)
next
  case (EvAbort j)
  then show ?thesis using i by (auto simp: teardown_nth tornDown_advance advance_idle)
next
  case (EvCancel j)
  then show ?thesis using i by (auto simp: teardown_nth tornDown_advance advance_idle)
qed

lemma routerRun_inv: "router_inv cfg r \<Longrightarrow> router_inv cfg (routerRun parse cfg evs r)"
  unfolding routerRun_def by (induction evs arbitrary: r) (simp_all add: routerStep_inv)

lemma newRouter_inv: "router_inv cfg newRouter"
  by (simp add: router_inv_def newRouter_def)

subsection \<open>The specification of one stream\<close>

text \<open>What a stream opened by a listen request is to carry after its acknowledgement.\<close>

fun expected :: "bool \<Rightarrow> nat \<Rightarrow> listen_stream \<Rightarrow> listen_event list \<Rightarrow> sse_frame list" where
  "expected armed i s [] = []"
| "expected armed i s (ev # evs) = emitted ev i armed s @ (if ends ev i then [] else expected armed i s evs)"

definition same_subscription :: "listen_stream \<Rightarrow> listen_stream \<Rightarrow> bool" where
  "same_subscription s s' \<longleftrightarrow> ls_id s = ls_id s' \<and> ls_honored s = ls_honored s' \<and> ls_serverInfo s = ls_serverInfo s'"

lemma emitted_same: "same_subscription s s' \<Longrightarrow> emitted ev i armed s = emitted ev i armed s'"
  by (cases "(ev, i, armed, s)" rule: emitted.cases) (simp_all add: same_subscription_def)

lemma expected_same: "same_subscription s s' \<Longrightarrow> expected armed i s evs = expected armed i s' evs"
  by (induction evs) (simp_all add: emitted_same [of s s'])

lemma run_stream:
  assumes "router_inv cfg r" "i < length (lr_streams r)"
  shows "lr_streams (routerRun parse cfg evs r) ! i
    = (let s = lr_streams r ! i in
       if ls_closed s then s
       else s\<lparr>ls_frames := ls_frames s @ expected (keepAliveArmed cfg) i s evs, ls_closed := list_ex (\<lambda>ev. ends ev i) evs\<rparr>)"
  using assms
proof (induction evs arbitrary: r)
  case Nil
  then show ?case by (simp add: routerRun_def Let_def)
next
  case (Cons ev evs)
  let ?s = "lr_streams r ! i"
  have step: "i < length (lr_streams (routerStep parse cfg ev r))"
    "lr_streams (routerStep parse cfg ev r) ! i = advance ev i (i \<in> set (lr_timers r)) ?s"
    using routerStep_stream [OF Cons.prems, of parse ev] by blast+
  have armed: "i \<in> set (lr_timers r) \<longleftrightarrow> keepAliveArmed cfg" if "\<not> ls_closed ?s"
    using Cons.prems that by (auto simp: router_inv_def keepAliveArmed_def)
  have "routerRun parse cfg (ev # evs) r = routerRun parse cfg evs (routerStep parse cfg ev r)"
    by (simp add: routerRun_def)
  moreover have "expected (keepAliveArmed cfg) i
      (?s\<lparr>ls_frames := ls_frames ?s @ emitted ev i (keepAliveArmed cfg) ?s, ls_closed := False\<rparr>) evs
      = expected (keepAliveArmed cfg) i ?s evs"
    by (rule expected_same) (simp add: same_subscription_def)
  ultimately show ?case
    using Cons.IH [OF routerStep_inv [OF Cons.prems(1)] step(1)] armed
    by (cases "ls_closed ?s"; cases "ends ev i") (simp_all add: step(2) advance_def Let_def)
qed

lemma serveListen_stream:
  assumes inv: "router_inv cfg r" and serve: "serveListen parse cfg message False capabilities info r = (r', Streaming i, reports)"
    and parse: "parse message = Some requested"
  defines "honored \<equiv> honoredSubset requested (Some capabilities)" and "sid \<equiv> oget message ''id''"
  shows "router_inv cfg r' \<and> i < length (lr_streams r')
    \<and> lr_streams r' ! i = \<lparr>ls_id = sid, ls_honored = honored, ls_serverInfo = info,
        ls_frames = Msg (ackMessage honored sid) # (if honored = [] then [Msg (closeMessage sid info)] else []),
        ls_closed = (honored = [])\<rparr>"
proof -
  have r': "r' = startStream cfg sid honored info r" and i: "i = length (lr_streams r)"
    and room: "int (length (lr_open r)) < lc_maxSubscriptions cfg"
    using serve parse by (auto simp: serveListen_def Let_def honored_def sid_def split: if_splits)
  show ?thesis
    using startStream_inv [OF inv room, of sid honored info]
    by (auto simp: r' i startStream_def Let_def teardown_nth tornDown_def)
qed

lemma stream_frames:
  assumes "r = routerRun parse cfg evs newRouter"
    and "serveListen parse cfg message False capabilities info r = (r', Streaming i, reports)"
    and "parse message = Some requested"
    and "honored = honoredSubset requested (Some capabilities)" "sid = oget message ''id''"
  shows "ls_frames (lr_streams (routerRun parse cfg evs' r') ! i)
    = Msg (ackMessage honored sid)
      # (if honored = [] then [Msg (closeMessage sid info)]
         else expected (keepAliveArmed cfg) i
           \<lparr>ls_id = sid, ls_honored = honored, ls_serverInfo = info, ls_frames = [], ls_closed = False\<rparr> evs')"
proof -
  have inv: "router_inv cfg r" using routerRun_inv [OF newRouter_inv] assms(1) by simp
  from serveListen_stream [OF inv assms(2,3)]
  have s: "router_inv cfg r'" "i < length (lr_streams r')"
    "lr_streams r' ! i = \<lparr>ls_id = sid, ls_honored = honored, ls_serverInfo = info,
        ls_frames = Msg (ackMessage honored sid) # (if honored = [] then [Msg (closeMessage sid info)] else []),
        ls_closed = (honored = [])\<rparr>"
    by (simp_all add: assms(4,5))
  have "expected (keepAliveArmed cfg) i (lr_streams r' ! i) evs' = expected (keepAliveArmed cfg) i
      \<lparr>ls_id = sid, ls_honored = honored, ls_serverInfo = info, ls_frames = [], ls_closed = False\<rparr> evs'"
    by (rule expected_same) (simp add: same_subscription_def s(3))
  then show ?thesis
    using run_stream [OF s(1,2), of parse evs'] by (cases "honored = []") (simp_all add: s(3) Let_def)
qed

text \<open>
  C22: The stream of a listen request carries exactly what its specification says, whatever
  else the router does: the acknowledgement with the honored filter first; then, in order,
  one stamped notification for each published event the filter accepts and the keep-alive
  comments; on a graceful close the empty result, last; and nothing after it ended. A
  request with nothing to honor is acknowledged and completed at once.
\<close>

theorem listen_stream_conforms:
  assumes "r = routerRun parse cfg evs newRouter"
    and "serveListen parse cfg message False capabilities info r = (r', Streaming i, reports)"
    and "parse message = Some requested"
    and "honored = honoredSubset requested (Some capabilities)" "sid = oget message ''id''"
  shows "ls_frames (lr_streams (routerRun parse cfg evs' r') ! i)
    = Msg (ackMessage honored sid)
      # (if honored = [] then [Msg (closeMessage sid info)]
         else expected (keepAliveArmed cfg) i
           \<lparr>ls_id = sid, ls_honored = honored, ls_serverInfo = info, ls_frames = [], ls_closed = False\<rparr> evs')"
  by (rule stream_frames [OF assms])

subsection \<open>Delivery\<close>

fun published :: "listen_event list \<Rightarrow> server_event list" where
  "published [] = []"
| "published (EvPublish ev # evs) = ev # published evs"
| "published (_ # evs) = published evs"

lemma expected_delivery:
  "\<not> list_ex (\<lambda>ev. ends ev i) evs \<Longrightarrow>
   filter (\<lambda>f. f \<noteq> KeepAlive) (expected armed i s evs)
   = map (\<lambda>e. Msg (changeMessage e (ls_id s))) (filter (listenFilterAccepts (ls_honored s)) (published evs))"
proof (induction evs)
  case (Cons ev evs)
  then show ?case by (cases ev) auto
qed simp

text \<open>
  C23: While a subscription is open, every event published that its filter accepts has been
  enqueued on its stream, exactly once and in the order of publication, right behind the
  acknowledgement, and nothing else has.
\<close>

theorem accepted_events_are_delivered:
  assumes "r = routerRun parse cfg evs newRouter"
    and "serveListen parse cfg message False capabilities info r = (r', Streaming i, reports)"
    and "parse message = Some requested"
    and "honored = honoredSubset requested (Some capabilities)" "honored \<noteq> []" "sid = oget message ''id''"
    and "\<not> list_ex (\<lambda>ev. ends ev i) evs'"
  shows "filter (\<lambda>f. f \<noteq> KeepAlive) (ls_frames (lr_streams (routerRun parse cfg evs' r') ! i))
    = Msg (ackMessage honored sid) # map (\<lambda>e. Msg (changeMessage e sid)) (filter (listenFilterAccepts honored) (published evs'))"
  using stream_frames [OF assms(1-3) assms(4) assms(6), of evs'] assms(5,7)
  by (simp add: expected_delivery)

lemma oget_oset_if: "oget (oset_if c o' k v) k' = (if c \<and> k = k' then v else oget o' k')"
  by (simp add: oset_if_def)

lemma honoredSubset_accepts:
  "listenFilterAccepts (honoredSubset requested (Some capabilities)) ev \<longleftrightarrow>
     listenFilterAccepts requested ev \<and>
     (case ev of
        ToolsListChanged \<Rightarrow> capabilityBit capabilities ''tools'' ''listChanged'' = JBool True
      | PromptsListChanged \<Rightarrow> capabilityBit capabilities ''prompts'' ''listChanged'' = JBool True
      | ResourcesListChanged \<Rightarrow> capabilityBit capabilities ''resources'' ''listChanged'' = JBool True
      | ResourceUpdated _ \<Rightarrow> capabilityBit capabilities ''resources'' ''subscribe'' = JBool True)"
  by (cases ev; cases "oget requested ''resourceSubscriptions''")
    (auto simp: honoredSubset_def Let_def oget_oset_if allowBit_def)

text \<open>The subscription id a message on a stream carries.\<close>

definition subscriptionIdOf :: "js \<Rightarrow> js" where
  "subscriptionIdOf m =
     (let carrier = (if getp m ''method'' = JUndef then getp m ''result'' else getp m ''params'')
      in getp (getp carrier ''_meta'') SUBSCRIPTION_ID_META_KEY)"

lemma stamped [simp]:
  "subscriptionIdOf (ackMessage honored sid) = sid" "subscriptionIdOf (changeMessage ev sid) = sid"
  "subscriptionIdOf (closeMessage sid info) = sid"
  by (simp_all add: subscriptionIdOf_def ackMessage_def changeMessage_def closeMessage_def notificationMessage_def
      stampSubscriptionId_def SUBSCRIPTION_ID_META_KEY_def SERVER_INFO_META_KEY_def split: prod.split)

lemma expected_frame:
  "f \<in> set (expected armed i s evs) \<Longrightarrow>
     f = KeepAlive \<or> f = Msg (closeMessage (ls_id s) (ls_serverInfo s))
     \<or> (\<exists>e. EvPublish e \<in> set evs \<and> listenFilterAccepts (ls_honored s) e \<and> f = Msg (changeMessage e (ls_id s)))"
proof (induction evs)
  case (Cons ev evs)
  then show ?case by (cases ev) (auto split: if_splits)
qed simp

text \<open>
  Every message on a stream carries the id of its listen request, and a change
  notification is only ever sent for a published event of a type that the request asked for
  and that the server advertises (for a resource: one of the URIs asked for).
\<close>

theorem only_requested_types_delivered:
  assumes "r = routerRun parse cfg evs newRouter"
    and "serveListen parse cfg message False capabilities info r = (r', Streaming i, reports)"
    and "parse message = Some requested"
    and "Msg m \<in> set (ls_frames (lr_streams (routerRun parse cfg evs' r') ! i))"
  shows "subscriptionIdOf m = oget message ''id''
    \<and> (m = ackMessage (honoredSubset requested (Some capabilities)) (oget message ''id'')
       \<or> m = closeMessage (oget message ''id'') info
       \<or> (\<exists>e. m = changeMessage e (oget message ''id'') \<and> EvPublish e \<in> set evs' \<and> listenFilterAccepts requested e
            \<and> (case e of
                 ToolsListChanged \<Rightarrow> capabilityBit capabilities ''tools'' ''listChanged'' = JBool True
               | PromptsListChanged \<Rightarrow> capabilityBit capabilities ''prompts'' ''listChanged'' = JBool True
               | ResourcesListChanged \<Rightarrow> capabilityBit capabilities ''resources'' ''listChanged'' = JBool True
               | ResourceUpdated _ \<Rightarrow> capabilityBit capabilities ''resources'' ''subscribe'' = JBool True)))"
  using assms(4) stream_frames [OF assms(1-3) refl refl, of evs'] honoredSubset_accepts [of requested capabilities]
  by (auto dest!: expected_frame split: if_splits)

text \<open>
  The number of open streams never exceeds the limit, a listener and a keep-alive timer
  are held for open streams only, and a request beyond the limit is refused with an error
  that names its id, leaving the router as it was.
\<close>

theorem open_streams_are_bounded:
  assumes "r = routerRun parse cfg evs newRouter"
  shows "int (length (lr_open r)) \<le> max 0 (lc_maxSubscriptions cfg)
    \<and> distinct (lr_open r) \<and> lr_listeners r = lr_open r \<and> set (lr_timers r) \<subseteq> set (lr_open r)
    \<and> (\<forall>i. i \<in> set (lr_open r) \<longleftrightarrow> i < length (lr_streams r) \<and> \<not> ls_closed (lr_streams r ! i))
    \<and> (lc_maxSubscriptions cfg \<le> int (length (lr_open r)) \<longrightarrow>
         (\<exists>text. serveListen parse cfg message aborted capabilities info r
           = (r, Refused (jsonRpcError (oget message ''id'') (-32603) ''Subscription limit reached''), [text])))"
proof -
  have "router_inv cfg r" using routerRun_inv [OF newRouter_inv] assms by simp
  then show ?thesis by (auto simp: router_inv_def serveListen_def split: if_splits)
qed

subsection \<open>The stdio router\<close>

record stdio_listen =
  sl_subs :: "(js \<times> obj) list"
  sl_maxSubscriptions :: int
  sl_serverCapabilities :: "js option"
  sl_serverInfo :: "js option"

definition newStdioListen :: "int option \<Rightarrow> stdio_listen" where
  "newStdioListen maxSubscriptions =
     \<lparr>sl_subs = [], sl_maxSubscriptions = or_else maxSubscriptions DEFAULT_MAX_SUBSCRIPTIONS,
      sl_serverCapabilities = None, sl_serverInfo = None\<rparr>"

definition setServerCapabilities :: "js \<Rightarrow> js option \<Rightarrow> stdio_listen \<Rightarrow> stdio_listen" where
  "setServerCapabilities capabilities serverInfo st =
     st\<lparr>sl_serverCapabilities := Some capabilities,
        sl_serverInfo := (case serverInfo of None \<Rightarrow> sl_serverInfo st | Some info \<Rightarrow> Some info)\<rparr>"

definition jsonRpcErrorReply :: "js \<Rightarrow> int \<Rightarrow> string \<Rightarrow> js" where
  "jsonRpcErrorReply i c message =
     JObj [(''jsonrpc'', JStr ''2.0''), (''id'', i), (''error'', JObj [(''code'', JNum (NInt c)), (''message'', JStr message)])]"

text \<open>The reply to put on the wire, or the error thrown before the capabilities are known.\<close>

definition serveStdioListen :: "(obj \<Rightarrow> obj option) \<Rightarrow> obj \<Rightarrow> stdio_listen \<Rightarrow> err + stdio_listen \<times> js" where
  "serveStdioListen parse message st =
     (case sl_serverCapabilities st of
        None \<Rightarrow> Inl (PlainErr ''StdioListenRouter.serve() called before setServerCapabilities(); refusing to honor a filter without capabilities'')
      | Some capabilities \<Rightarrow>
          if sl_maxSubscriptions st \<le> int (length (sl_subs st)) then
            Inr (st, jsonRpcErrorReply (oget message ''id'') (-32603) ''Subscription limit reached'')
          else (case parse message of
                  None \<Rightarrow> Inr (st, jsonRpcErrorReply (oget message ''id'') (-32602) invalidFilterMessage)
                | Some requested \<Rightarrow>
                    (let honored = honoredSubset requested (Some capabilities) in
                     Inr (st\<lparr>sl_subs := AList.update (oget message ''id'') honored (sl_subs st)\<rparr>,
                          ackMessage honored (oget message ''id'')))))"

definition hasListen :: "js \<Rightarrow> stdio_listen \<Rightarrow> bool" where
  "hasListen sid st \<longleftrightarrow> map_of (sl_subs st) sid \<noteq> None"

definition cancelListen :: "js \<Rightarrow> stdio_listen \<Rightarrow> stdio_listen \<times> bool" where
  "cancelListen sid st = (st\<lparr>sl_subs := AList.delete sid (sl_subs st)\<rparr>, map_of (sl_subs st) sid \<noteq> None)"

definition CHANGE_NOTIFICATION_METHODS :: "string list" where
  "CHANGE_NOTIFICATION_METHODS =
     [''notifications/tools/list_changed'', ''notifications/prompts/list_changed'',
      ''notifications/resources/list_changed'', ''notifications/resources/updated'']"

definition notificationToServerEvent :: "string \<Rightarrow> string option \<Rightarrow> server_event" where
  "notificationToServerEvent method uri =
     (if method = ''notifications/tools/list_changed'' then ToolsListChanged
      else if method = ''notifications/prompts/list_changed'' then PromptsListChanged
      else if method = ''notifications/resources/list_changed'' then ResourcesListChanged
      else ResourceUpdated (or_else uri ''''))"

text \<open>\<open>None\<close> is passthrough; otherwise the stamped copies, in registration order.\<close>

definition routeOutbound :: "string \<Rightarrow> obj \<Rightarrow> stdio_listen \<Rightarrow> js list option" where
  "routeOutbound method params st =
     (if method \<notin> set CHANGE_NOTIFICATION_METHODS then None
      else (let ev = notificationToServerEvent method (str_of (oget params ''uri'')) in
            Some (map (\<lambda>p. notificationMessage method (stampSubscriptionId params (fst p)))
                    (filter (\<lambda>p. listenFilterAccepts (snd p) ev) (sl_subs st)))))"

definition teardownAll :: "stdio_listen \<Rightarrow> stdio_listen \<times> js list" where
  "teardownAll st =
     (st\<lparr>sl_subs := []\<rparr>,
      map (\<lambda>p. JObj [(''jsonrpc'', JStr ''2.0''), (''id'', fst p),
             (''result'', JObj [(''resultType'', JStr ''complete''),
                (''_meta'', JObj ((SUBSCRIPTION_ID_META_KEY, fst p)
                   # (case sl_serverInfo st of None \<Rightarrow> [] | Some info \<Rightarrow> [(SERVER_INFO_META_KEY, info)])))])])
        (sl_subs st))"

text \<open>
  \<open>tryServeListen\<close> of the stdio entry: whether the message was served here, and what is sent.
  The envelope of a listen request is checked first, then its revision.
\<close>

definition envelopeIssue :: "schema_issues \<Rightarrow> js \<Rightarrow> issue option" where
  "envelopeIssue schemaIssues params =
     (if hasEnvelopeClaim params then
        (case requestMetaOf params of
           None \<Rightarrow> None
         | Some meta \<Rightarrow> (case validateEnvelopeMeta schemaIssues meta of [] \<Rightarrow> None | i # _ \<Rightarrow> Some i))
      else Some (''_meta'', ''the per-request envelope is required on protocol revision 2026-07-28''))"

definition unsupportedRevisionReply :: "js \<Rightarrow> string option \<Rightarrow> js" where
  "unsupportedRevisionReply i claimed =
     (let requested = or_else claimed ''unknown'';
          e = unsupportedProtocolVersionError (JArr (map JStr SUPPORTED_MODERN_PROTOCOL_VERSIONS)) requested
                (unsupportedVersionMessage requested)
      in JObj [(''jsonrpc'', JStr ''2.0''), (''id'', i),
           (''error'', JObj [(''code'', JNum (NInt (pe_code e))), (''message'', JStr (pe_message e)), (''data'', pe_data e)])])"

definition tryServeListen ::
  "schema_issues \<Rightarrow> (obj \<Rightarrow> obj option) \<Rightarrow> js \<Rightarrow> stdio_listen \<Rightarrow> err + stdio_listen \<times> bool \<times> js list" where
  "tryServeListen schemaIssues parse message st =
     (if isJSONRPCRequest message \<and> getp message ''method'' = JStr ''subscriptions/listen'' then
        (let params = getp message ''params''; i = getp message ''id'' in
         case envelopeIssue schemaIssues params of
           Some issue \<Rightarrow>
             Inr (st, True, [jsonRpcErrorReply i (-32602) (''Invalid _meta envelope: '' @ fst issue @ '': '' @ snd issue)])
         | None \<Rightarrow>
             (case envelopeClaimVersion params of
                None \<Rightarrow> Inr (st, True, [unsupportedRevisionReply i None])
              | Some v \<Rightarrow>
                  if v \<notin> set SUPPORTED_MODERN_PROTOCOL_VERSIONS then Inr (st, True, [unsupportedRevisionReply i (Some v)])
                  else (case serveStdioListen parse (or_else (obj_of message) []) st of
                          Inl e \<Rightarrow> Inl e
                        | Inr (st', reply) \<Rightarrow> Inr (st', True, [reply]))))
      else if isJSONRPCNotification message \<and> getp message ''method'' = JStr ''notifications/cancelled'' then
        (let cancelledId = getp (getp message ''params'') ''requestId'' in
         if cancelledId \<noteq> JUndef \<and> snd (cancelListen cancelledId st)
         then Inr (fst (cancelListen cancelledId st), True, [])
         else Inr (st, False, []))
      else Inr (st, False, []))"

datatype stdio_event =
    SInbound js
  | SOutbound string obj
  | SClose

text \<open>
  A step of the listen handling of a modern stdio connection with the messages it puts on
  the wire; a message that is not handled here is left to the instance. A throw of the
  router is reported by the entry and changes nothing.
\<close>

fun stdioStep :: "schema_issues \<Rightarrow> (obj \<Rightarrow> obj option) \<Rightarrow> stdio_event \<Rightarrow> stdio_listen \<Rightarrow> stdio_listen \<times> js list" where
  "stdioStep schemaIssues parse (SInbound message) st =
     (case tryServeListen schemaIssues parse message st of Inl e \<Rightarrow> (st, []) | Inr (st', _, sent) \<Rightarrow> (st', sent))"
| "stdioStep schemaIssues parse (SOutbound method params) st = (st, or_else (routeOutbound method params st) [])"
| "stdioStep schemaIssues parse SClose st = teardownAll st"

fun stdioRun :: "schema_issues \<Rightarrow> (obj \<Rightarrow> obj option) \<Rightarrow> stdio_event list \<Rightarrow> stdio_listen \<Rightarrow> stdio_listen \<times> js list" where
  "stdioRun schemaIssues parse [] st = (st, [])"
| "stdioRun schemaIssues parse (ev # evs) st =
     (let (st1, out1) = stdioStep schemaIssues parse ev st; (st2, out2) = stdioRun schemaIssues parse evs st1
      in (st2, out1 @ out2))"

text \<open>
  The two transports deliver alike: for the notification of a change event, the stdio
  router sends each subscription that opted in to it, in registration order, the message the
  HTTP router writes on that subscription's stream, and nobody else; other notifications pass
  through.
\<close>

theorem stdio_delivers_like_http:
  "routeOutbound (fst (serverEventToNotification ev)) (snd (serverEventToNotification ev)) st
     = Some (map (\<lambda>sid. changeMessage ev sid)
         (map fst (filter (\<lambda>p. listenFilterAccepts (snd p) ev) (sl_subs st))))
   \<and> (method \<notin> set CHANGE_NOTIFICATION_METHODS \<longrightarrow> routeOutbound method params st = None)"
  by (cases ev) (simp_all add: routeOutbound_def CHANGE_NOTIFICATION_METHODS_def notificationToServerEvent_def changeMessage_def)

subsection \<open>A cancelled subscription is silent\<close>

definition listensFor :: "js \<Rightarrow> stdio_event \<Rightarrow> bool" where
  "listensFor sid ev \<longleftrightarrow>
     (case ev of SInbound m \<Rightarrow> getp m ''method'' = JStr ''subscriptions/listen'' \<and> getp m ''id'' = sid | _ \<Rightarrow> False)"

lemma hasListen_simps [simp]:
  "hasListen sid (st\<lparr>sl_subs := AList.update k v (sl_subs st)\<rparr>) \<longleftrightarrow> sid = k \<or> hasListen sid st"
  "hasListen sid (st\<lparr>sl_subs := AList.delete k (sl_subs st)\<rparr>) \<longleftrightarrow> sid \<noteq> k \<and> hasListen sid st"
  by (auto simp: hasListen_def update_conv delete_conv)

lemma subscriptionIdOf_notification [simp]:
  "subscriptionIdOf (notificationMessage method (stampSubscriptionId params sid)) = sid"
  by (simp add: subscriptionIdOf_def notificationMessage_def stampSubscriptionId_def)

lemma subscriptionIdOf_error [simp]: "subscriptionIdOf (jsonRpcErrorReply i c text) = JUndef"
  "subscriptionIdOf (unsupportedRevisionReply i v) = JUndef"
  by (simp_all add: subscriptionIdOf_def jsonRpcErrorReply_def unsupportedRevisionReply_def Let_def)

lemma serveStdio_effect:
  assumes "serveStdioListen parse message st = Inr (st', reply)" "oget message ''id'' \<noteq> sid"
    "\<not> hasListen sid st" "sid \<noteq> JUndef"
  shows "\<not> hasListen sid st' \<and> subscriptionIdOf reply \<noteq> sid"
  using assms by (auto simp: serveStdioListen_def Let_def split: option.splits if_splits)

lemma tryServe_effect:
  assumes "tryServeListen schemaIssues parse message st = Inr (st', handled, sent)" "\<not> listensFor sid (SInbound message)"
    "\<not> hasListen sid st" "sid \<noteq> JUndef"
  shows "\<not> hasListen sid st' \<and> (\<forall>m \<in> set sent. subscriptionIdOf m \<noteq> sid)"
proof (cases "isJSONRPCRequest message \<and> getp message ''method'' = JStr ''subscriptions/listen''")
  case True
  then have "oget (or_else (obj_of message) []) ''id'' \<noteq> sid"
    using assms(2,4) by (cases message) (auto simp: listensFor_def)
  then show ?thesis
    using assms True serveStdio_effect [of parse "or_else (obj_of message) []" st _ _ sid]
    by (auto simp: tryServeListen_def Let_def split: option.splits if_splits sum.splits)
next
  case False
  then show ?thesis
    using assms(1,3,4) unfolding tryServeListen_def
    by (auto simp: cancelListen_def Let_def split: if_splits)
qed

lemma hasListen_mem: "(k, v) \<in> set (sl_subs st) \<Longrightarrow> hasListen k st"
  by (force simp: hasListen_def map_of_eq_None_iff)

lemma stdioStep_silent:
  assumes "\<not> listensFor sid ev" "\<not> hasListen sid st" "sid \<noteq> JUndef" "stdioStep schemaIssues parse ev st = (st', out)"
  shows "\<not> hasListen sid st' \<and> (\<forall>m \<in> set out. subscriptionIdOf m \<noteq> sid)"
proof (cases ev)
  case (SInbound message)
  then show ?thesis
    using assms tryServe_effect [of schemaIssues parse message st _ _ _ sid] by (auto split: sum.splits)
next
  case (SOutbound meth params)
  then show ?thesis
    using assms hasListen_mem [of _ _ st] by (auto simp: routeOutbound_def Let_def split: if_splits)
next
  case SClose
  then show ?thesis
    using assms hasListen_mem [of sid _ st]
    by (auto simp: teardownAll_def subscriptionIdOf_def) (simp add: hasListen_def)
qed

text \<open>
  Once the client cancels a subscription on stdio, no message carrying its id is sent
  any more, whatever happens, until a new listen request with that id.
\<close>

theorem cancelled_subscription_is_silent:
  assumes "\<forall>ev \<in> set evs. \<not> listensFor sid ev" "sid \<noteq> JUndef"
    and "m \<in> set (snd (stdioRun schemaIssues parse evs (fst (cancelListen sid st))))"
  shows "subscriptionIdOf m \<noteq> sid"
proof -
  have "\<forall>m \<in> set (snd (stdioRun schemaIssues parse evs st)). subscriptionIdOf m \<noteq> sid"
    if "\<not> hasListen sid st" "\<forall>ev \<in> set evs. \<not> listensFor sid ev" for st
    using that
  proof (induction evs arbitrary: st)
    case (Cons ev evs)
    obtain st1 out1 where st1: "stdioStep schemaIssues parse ev st = (st1, out1)" by fastforce
    show ?case
      using stdioStep_silent [OF _ Cons.prems(1) assms(2) st1] Cons.prems(2) Cons.IH [of st1]
      by (auto simp: st1 case_prod_unfold Let_def)
  qed simp
  moreover have "\<not> hasListen sid (fst (cancelListen sid st))"
    by (simp add: cancelListen_def)
  ultimately show ?thesis using assms(1,3) by blast
qed

subsection \<open>Witnesses\<close>

definition demoParse :: "obj \<Rightarrow> obj option" where
  "demoParse message = obj_of (getp (oget message ''params'') ''notifications'')"

definition demoListen :: obj where
  "demoListen = [(''id'', JNum (NInt 7)), (''params'', JObj [(''notifications'',
     JObj [(''toolsListChanged'', JBool True), (''promptsListChanged'', JBool True)])])]"

definition demoCapabilities :: js where
  "demoCapabilities = JObj [(''tools'', JObj [(''listChanged'', JBool True)])]"

definition demoConfig :: listen_config where
  "demoConfig = listenConfig (Some 1) (Some 0)"

definition demoRouter :: listen_router where
  "demoRouter = fst (serveListen demoParse demoConfig demoListen False demoCapabilities JNull newRouter)"

lemma demo_serve:
  "serveListen demoParse demoConfig demoListen False demoCapabilities JNull newRouter = (demoRouter, Streaming 0, [])"
  unfolding demoRouter_def by code_simp

lemma demo_empty: "newRouter = routerRun demoParse demoConfig [] newRouter"
  by (simp add: routerRun_def)

lemma demo_parse:
  "demoParse demoListen = Some [(''toolsListChanged'', JBool True), (''promptsListChanged'', JBool True)]"
  by (simp add: demoParse_def demoListen_def)

lemma demo_honored:
  "[(''toolsListChanged'', JBool True)]
   = honoredSubset [(''toolsListChanged'', JBool True), (''promptsListChanged'', JBool True)] (Some demoCapabilities)"
  by (simp add: honoredSubset_def oset_if_def allowBit_def capabilityBit_def demoCapabilities_def)

definition demoEvents :: "listen_event list" where
  "demoEvents = [EvPublish ToolsListChanged, EvPublish PromptsListChanged, EvCloseAll, EvPublish ToolsListChanged]"

theorem listen_stream_conforms_witness:
  "ls_frames (lr_streams (routerRun demoParse demoConfig demoEvents demoRouter) ! 0)
   = [Msg (ackMessage [(''toolsListChanged'', JBool True)] (JNum (NInt 7))),
      Msg (changeMessage ToolsListChanged (JNum (NInt 7))), Msg (closeMessage (JNum (NInt 7)) JNull)]"
  using listen_stream_conforms [OF demo_empty demo_serve demo_parse demo_honored refl, of demoEvents]
  by (simp add: demoEvents_def demoListen_def)

theorem accepted_events_are_delivered_witness:
  "filter (\<lambda>f. f \<noteq> KeepAlive) (ls_frames (lr_streams (routerRun demoParse demoConfig
      [EvPublish ToolsListChanged, EvPublish PromptsListChanged] demoRouter) ! 0))
   = [Msg (ackMessage [(''toolsListChanged'', JBool True)] (JNum (NInt 7))), Msg (changeMessage ToolsListChanged (JNum (NInt 7)))]"
  using accepted_events_are_delivered [OF demo_empty demo_serve demo_parse demo_honored _ refl,
      of "[EvPublish ToolsListChanged, EvPublish PromptsListChanged]"]
  by (simp add: demoListen_def)

theorem only_requested_types_delivered_witness:
  "subscriptionIdOf (changeMessage ToolsListChanged (JNum (NInt 7))) = JNum (NInt 7)"
proof -
  have "Msg (changeMessage ToolsListChanged (JNum (NInt 7)))
      \<in> set (ls_frames (lr_streams (routerRun demoParse demoConfig [EvPublish ToolsListChanged] demoRouter) ! 0))"
    unfolding demoRouter_def by code_simp
  from only_requested_types_delivered [OF demo_empty demo_serve demo_parse this] show ?thesis
    by (simp add: demoListen_def)
qed

theorem open_streams_are_bounded_witness:
  "length (lr_open (routerRun demoParse demoConfig
     [EvListen demoListen False demoCapabilities JNull, EvListen demoListen False demoCapabilities JNull] newRouter)) \<le> 1"
  using open_streams_are_bounded [OF refl, where parse = demoParse and cfg = demoConfig and
      evs = "[EvListen demoListen False demoCapabilities JNull, EvListen demoListen False demoCapabilities JNull]"]
  by (simp add: demoConfig_def listenConfig_def)

theorem stdio_delivers_like_http_witness:
  "routeOutbound ''notifications/message'' [] (newStdioListen None) = None"
  using stdio_delivers_like_http [of ToolsListChanged "newStdioListen None" "''notifications/message''" "[]"]
  by (simp add: CHANGE_NOTIFICATION_METHODS_def)

definition demoStdio :: stdio_listen where
  "demoStdio = (setServerCapabilities demoCapabilities None (newStdioListen None))
     \<lparr>sl_subs := [(JStr ''a'', [(''toolsListChanged'', JBool True)]), (JStr ''b'', [(''toolsListChanged'', JBool True)])]\<rparr>"

theorem cancelled_subscription_is_silent_witness:
  "subscriptionIdOf (changeMessage ToolsListChanged (JStr ''b'')) \<noteq> JStr ''a''"
proof (rule cancelled_subscription_is_silent)
  show "changeMessage ToolsListChanged (JStr ''b'') \<in> set (snd (stdioRun (\<lambda>_. []) demoParse
      [SOutbound ''notifications/tools/list_changed'' []] (fst (cancelListen (JStr ''a'') demoStdio))))"
    by code_simp
qed (simp_all add: listensFor_def)

end
