(* ===== verification/LegacyShim.thy ===== *)
theory LegacyShim
  imports InputRequiredDriver ProtocolInbound "HOL-Library.Word"
begin

unbundle bit_operations_syntax

text \<open>
  The server-side fulfilment of \<open>input_required\<close> results on 2025-era sessions
  (packages/server/src/server/legacyInputRequiredShim.ts): the options, the check of one
  embedded request, the gate of a round, the legs, and the loop that re-enters the handler.

  The loop's surroundings are a function from the round to what happens in it: the minted
  elicitation ids, the order the concurrent legs settle in and their outcomes, whether the
  originating request was cancelled meanwhile, the pacing sleep, the verification hook and
  the handler. The loop returns its outcome and its steps. What a leg throws is an error.
\<close>

subsection \<open>Options\<close>

definition DEFAULT_LEGACY_SHIM_MAX_ROUNDS :: nat where
  "DEFAULT_LEGACY_SHIM_MAX_ROUNDS = 8"

definition DEFAULT_LEGACY_SHIM_ROUND_TIMEOUT_MS :: int where
  "DEFAULT_LEGACY_SHIM_ROUND_TIMEOUT_MS = 600000"

record shim_options =
  so_maxRounds :: nat
  so_roundTimeoutMs :: jnum
  so_legacyShim :: bool

text \<open>A finite number above zero; the canonical text of a negative fraction starts with a minus.\<close>

fun positiveFinite :: "jnum \<Rightarrow> bool" where
  "positiveFinite (NInt n) = (0 < n)"
| "positiveFinite (NFrac s) = (\<not> startsWith s ''-'')"
| "positiveFinite _ = False"

fun positiveInteger :: "jnum \<Rightarrow> bool" where
  "positiveInteger (NInt n) = (1 \<le> n)"
| "positiveInteger _ = False"

fun int_of_jnum :: "jnum \<Rightarrow> int" where
  "int_of_jnum (NInt n) = n"
| "int_of_jnum _ = 0"

text \<open>\<open>String(n)\<close> of a number.\<close>

fun show_jnum :: "jnum \<Rightarrow> string" where
  "show_jnum (NInt n) = show_int n"
| "show_jnum (NFrac s) = s"
| "show_jnum NPosInf = ''Infinity''"
| "show_jnum NNegInf = ''-Infinity''"
| "show_jnum NNaN = ''NaN''"

definition given :: "('a \<Rightarrow> bool) \<Rightarrow> 'a option \<Rightarrow> bool" where
  "given bad x = (case x of None \<Rightarrow> False | Some v \<Rightarrow> bad v)"

definition resolveLegacyShimOptions :: "jnum option \<Rightarrow> jnum option \<Rightarrow> bool option \<Rightarrow> err + shim_options" where
  "resolveLegacyShimOptions maxRounds roundTimeoutMs legacyShim =
     (if given (\<lambda>n. \<not> positiveInteger n) maxRounds then
        Inl (RangeErr (''inputRequired.maxRounds must be a positive integer (got '' @ show_jnum (the maxRounds) @ '')''))
      else if given (\<lambda>t. \<not> positiveFinite t) roundTimeoutMs then
        Inl (RangeErr (''inputRequired.roundTimeoutMs must be a positive number (got '' @ show_jnum (the roundTimeoutMs) @ '')''))
      else Inr \<lparr>so_maxRounds = or_else (map_option (nat \<circ> int_of_jnum) maxRounds) DEFAULT_LEGACY_SHIM_MAX_ROUNDS,
        so_roundTimeoutMs = or_else roundTimeoutMs (NInt DEFAULT_LEGACY_SHIM_ROUND_TIMEOUT_MS),
        so_legacyShim = or_else legacyShim True\<rparr>)"

subsection \<open>Embedded requests\<close>

datatype embedded_method = ElicitationCreate | SamplingCreateMessage | RootsList

fun embeddedMethodName :: "embedded_method \<Rightarrow> string" where
  "embeddedMethodName ElicitationCreate = ''elicitation/create''"
| "embeddedMethodName SamplingCreateMessage = ''sampling/createMessage''"
| "embeddedMethodName RootsList = ''roots/list''"

definition embeddedMethodOf :: "string \<Rightarrow> embedded_method" where
  "embeddedMethodOf m =
     (if m = ''elicitation/create'' then ElicitationCreate
      else if m = ''sampling/createMessage'' then SamplingCreateMessage else RootsList)"

record embedded_request =
  em_method :: embedded_method
  em_params :: js

definition invalidInputRequest :: "string \<Rightarrow> string \<Rightarrow> err" where
  "invalidInputRequest m key = ProtocolErr (protocolError (pcode InternalError)
     (''Handler for '' @ m @ '' returned an invalid input request '' @ sq key @ '': each inputRequests entry must be an ''
      @ ''embedded elicitation/create, sampling/createMessage, or roots/list request'') JUndef)"

definition unknownInputRequest :: "string \<Rightarrow> string \<Rightarrow> string \<Rightarrow> err" where
  "unknownInputRequest m key kind = ProtocolErr (protocolError (pcode InternalError)
     (''Handler for '' @ m @ '' returned an input request '' @ sq key @ '' of kind '' @ sq kind @ '', which is not an ''
      @ ''embedded request the 2026-07-28 revision defines'') JUndef)"

definition coerceEmbeddedInputRequest :: "string \<Rightarrow> string \<Rightarrow> js \<Rightarrow> err + embedded_request \<times> obj" where
  "coerceEmbeddedInputRequest m key entry =
     (case getp entry ''method'' of
        JStr kind \<Rightarrow>
          (case requiredClientCapabilitiesForInputRequest kind (getp entry ''params'') of
             None \<Rightarrow> Inl (unknownInputRequest m key kind)
           | Some required \<Rightarrow>
               Inr (\<lparr>em_method = embeddedMethodOf kind, em_params = getp entry ''params''\<rparr>, required))
      | _ \<Rightarrow> Inl (invalidInputRequest m key))"

text \<open>The random bytes of an elicitation id, stamped with the version and variant of RFC 9562.\<close>

definition hexDigit :: "nat \<Rightarrow> char" where
  "hexDigit n = ''0123456789abcdef'' ! (n mod 16)"

definition hexByte :: "8 word \<Rightarrow> string" where
  "hexByte b = [hexDigit (unat b div 16), hexDigit (unat b)]"

definition uuidOfBytes :: "8 word list \<Rightarrow> string" where
  "uuidOfBytes random =
     (let bytes = random[6 := ((random ! 6) AND 0x0f) OR 0x40];
          bytes' = bytes[8 := ((bytes ! 8) AND 0x3f) OR 0x80];
          hex = concat (map hexByte bytes')
      in take 8 hex @ ''-'' @ take 4 (drop 8 hex) @ ''-'' @ take 4 (drop 12 hex) @ ''-''
         @ take 4 (drop 16 hex) @ ''-'' @ drop 20 hex)"

definition legacyShimFailure :: "string \<Rightarrow> string \<Rightarrow> err + js" where
  "legacyShimFailure m message =
     (if m = ''tools/call'' then
        Inr (JObj [(''content'', JArr [JObj [(''type'', JStr ''text''), (''text'', JStr message)]]), (''isError'', JBool True)])
      else Inl (ProtocolErr (protocolError (pcode InternalError) message JUndef)))"

subsection \<open>The host, the legs and the round\<close>

record shim_host =
  sh_maxRounds :: nat
  sh_roundTimeoutMs :: jnum
  sh_capabilities :: "obj option"

record mrtr_view =
  mv_inputResponses :: js
  mv_droppedKeys :: "string list option"
  mv_requestState :: js

definition withRequestStateValue :: "mrtr_view \<Rightarrow> js \<Rightarrow> mrtr_view" where
  "withRequestStateValue v decoded = v\<lparr>mv_requestState := decoded\<rparr>"

datatype leg = SendElicitation js | SendSampling js | ListRoots js

record shim_leg_options =
  sl_relatedRequestId :: js
  sl_timeout :: jnum
  sl_resetTimeoutOnProgress :: bool

record shim_round =
  sr_newId :: "string \<Rightarrow> string"
  sr_settleOrder :: "(string \<times> embedded_request) list \<Rightarrow> (string \<times> embedded_request) list"
  sr_leg :: "string \<Rightarrow> leg \<Rightarrow> err + js"
  sr_cancelled :: bool
  sr_sleep :: "err option"
  sr_verify :: "string \<Rightarrow> mrtr_view \<Rightarrow> err + js"
  sr_handler :: "mrtr_view \<Rightarrow> err + js"

datatype shim_step =
    LegStep string leg shim_leg_options
  | PaceStep nat
  | VerifyStep string mrtr_view
  | ReenterStep mrtr_view

text \<open>\<open>_dispatchLeg\<close>: the request a leg sends; reading \<open>mode\<close> of a null throws.\<close>

definition dispatchLeg :: "string \<Rightarrow> embedded_request \<Rightarrow> err + leg" where
  "dispatchLeg newId em =
     (case em_method em of
        ElicitationCreate \<Rightarrow>
          if em_params em = JNull then Inl (TypeErr ''Cannot read properties of null (reading 'mode')'')
          else if getp (em_params em) ''mode'' = JStr ''url'' \<and> getp (em_params em) ''elicitationId'' = JUndef
          then Inr (SendElicitation (JObj (oset (params_obj (em_params em)) ''elicitationId'' (JStr newId))))
          else Inr (SendElicitation (em_params em))
      | SamplingCreateMessage \<Rightarrow> Inr (SendSampling (em_params em))
      | RootsList \<Rightarrow> Inr (ListRoots (em_params em)))"

text \<open>\<open>Object.ents\<close> of what \<open>inputRequests\<close> holds; null and undefined have none.\<close>

fun entriesOf :: "js \<Rightarrow> obj" where
  "entriesOf (JObj o') = o'"
| "entriesOf (JArr xs) = zip (map digits [0..<length xs]) xs"
| "entriesOf (JStr s) = zip (map digits [0..<length s]) (map (\<lambda>c. JStr [c]) s)"
| "entriesOf _ = []"

datatype gate = GateThrow err | GateRefuse string | GatePass "(string \<times> embedded_request) list"

definition withoutParams :: "string \<Rightarrow> string \<Rightarrow> embedded_method \<Rightarrow> err" where
  "withoutParams m key kind = ProtocolErr (protocolError (pcode InternalError)
     (''Handler for '' @ m @ '' returned an input request '' @ sq key @ '' of kind '' @ sq (embeddedMethodName kind)
      @ '' without params'') JUndef)"

text \<open>The em dash of the message is the code unit 0x14 here.\<close>

definition refusedMessage :: "string \<Rightarrow> embedded_method \<Rightarrow> obj option \<Rightarrow> string" where
  "refusedMessage key kind declared =
     ''Cannot request input '' @ sq key @ '' ('' @ embeddedMethodName kind
     @ ''): the client on this 2025-era connection did not declare the required capability''
     @ (if declared = None then '' (no client capabilities are available on this connection '' @ [CHR 0x14]
          @ '' per-request legacy serving cannot receive server-to-client requests)'' else [])"

fun passes :: "gate \<Rightarrow> bool" where
  "passes (GatePass _) = True"
| "passes _ = False"

text \<open>The whole round is checked, entry by entry, before anything is sent.\<close>

fun gateRound :: "string \<Rightarrow> obj option \<Rightarrow> (string \<times> embedded_request) list \<Rightarrow> obj \<Rightarrow> gate" where
  "gateRound m declared coerced [] = GatePass coerced"
| "gateRound m declared coerced ((key, entry) # ents) =
     (case coerceEmbeddedInputRequest m key entry of
        Inl e \<Rightarrow> GateThrow e
      | Inr (embedded, required) \<Rightarrow>
          if em_method embedded \<noteq> RootsList \<and> em_params embedded = JUndef then
            GateThrow (withoutParams m key (em_method embedded))
          else if missingClientCapabilities required declared \<noteq> None then
            GateRefuse (refusedMessage key (em_method embedded) declared)
          else gateRound m declared (coerced @ [(key, embedded)]) ents)"

definition legOutcome :: "shim_round \<Rightarrow> string \<times> embedded_request \<Rightarrow> err + js" where
  "legOutcome r c =
     (case dispatchLeg (sr_newId r (fst c)) (snd c) of
        Inl e \<Rightarrow> Inl e
      | Inr leg \<Rightarrow> sr_leg r (fst c) leg)"

text \<open>\<open>Promise.all\<close>: the rejection that settles first, or the responses in entry order.\<close>

definition fulfilLegs :: "shim_round \<Rightarrow> (string \<times> embedded_request) list \<Rightarrow> err + obj" where
  "fulfilLegs r coerced =
     (case List.find (\<lambda>c. isl (legOutcome r c)) (sr_settleOrder r coerced) of
        Some c \<Rightarrow> Inl (projl (legOutcome r c))
      | None \<Rightarrow> Inr (fold (\<lambda>c acc. oset acc (fst c) (projr (legOutcome r c))) coerced []))"

definition legSteps :: "shim_host \<Rightarrow> js \<Rightarrow> shim_round \<Rightarrow> (string \<times> embedded_request) list \<Rightarrow> shim_step list" where
  "legSteps host rid r coerced =
     concat (map (\<lambda>c. case dispatchLeg (sr_newId r (fst c)) (snd c) of
         Inl e \<Rightarrow> []
       | Inr leg \<Rightarrow> [LegStep (fst c) leg \<lparr>sl_relatedRequestId = rid, sl_timeout = sh_roundTimeoutMs host,
           sl_resetTimeoutOnProgress = True\<rparr>]) coerced)"

text \<open>
  The responses of a round: \<open>Inl\<close> ends the loop with an outcome. A failed leg of a cancelled
  request propagates; otherwise it surfaces as the method's family does.
\<close>

definition roundResponses ::
  "shim_host \<Rightarrow> string \<Rightarrow> js \<Rightarrow> shim_round \<Rightarrow> obj \<Rightarrow> ((err + js) + js) \<times> shim_step list" where
  "roundResponses host m rid r ents =
     (if ents \<noteq> [] then
        (case gateRound m (sh_capabilities host) [] ents of
           GateThrow e \<Rightarrow> (Inl (Inl e), [])
         | GateRefuse message \<Rightarrow> (Inl (legacyShimFailure m message), [])
         | GatePass coerced \<Rightarrow>
             (case fulfilLegs r coerced of
                Inl e \<Rightarrow> if sr_cancelled r then Inl (Inl e)
                  else Inl (legacyShimFailure m (''Fulfilling input required by '' @ sq m @ '' failed: '' @ errMessage e))
              | Inr responses \<Rightarrow> Inr (JObj responses),
              legSteps host rid r coerced))
      else
        (case sr_sleep r of Some e \<Rightarrow> Inl (Inl e) | None \<Rightarrow> Inr JUndef,
         [PaceStep REQUEST_STATE_ONLY_LEG_PACING_MS]))"

definition neitherMember :: "string \<Rightarrow> err" where
  "neitherMember m = ProtocolErr (protocolError (pcode InternalError)
     (''Handler for '' @ m @ '' returned an input-required result with neither inputRequests nor requestState ''
      @ ''(every InputRequiredResult must include at least one of the two)'') JUndef)"

text \<open>The context of the re-entry, verified when the handler returned a state.\<close>

definition verifyRound :: "shim_round \<Rightarrow> string option \<Rightarrow> js \<Rightarrow> (err + mrtr_view) \<times> shim_step list" where
  "verifyRound r requestState responses =
     (let ctxNext = \<lparr>mv_inputResponses = responses, mv_droppedKeys = None,
                     mv_requestState = (case requestState of None \<Rightarrow> JUndef | Some s \<Rightarrow> JStr s)\<rparr>
      in case requestState of
           None \<Rightarrow> (Inr ctxNext, [])
         | Some s \<Rightarrow>
             (case sr_verify r s ctxNext of
                Inl e \<Rightarrow> Inl e
              | Inr decoded \<Rightarrow> Inr (if decoded \<noteq> JUndef then withRequestStateValue ctxNext decoded else ctxNext),
              [VerifyStep s ctxNext]))"

text \<open>One round of the loop after its cap: \<open>Inl\<close> an outcome, \<open>Inr\<close> the next result to fulfil.\<close>

definition shimRound ::
  "shim_host \<Rightarrow> string \<Rightarrow> js \<Rightarrow> shim_round \<Rightarrow> js \<Rightarrow> ((err + js) + js) \<times> shim_step list" where
  "shimRound host m rid r current =
     (let ents = entriesOf (getp current ''inputRequests'');
          requestState = str_of (getp current ''requestState'')
      in if ents = [] \<and> requestState = None then (Inl (Inl (neitherMember m)), [])
      else
        (case roundResponses host m rid r ents of
           (Inl out, legs) \<Rightarrow> (Inl out, legs)
         | (Inr responses, legs) \<Rightarrow>
             (case verifyRound r requestState responses of
                (Inl e, checks) \<Rightarrow> (Inl (Inl e), legs @ checks)
              | (Inr view, checks) \<Rightarrow>
                  (case sr_handler r view of
                     Inl e \<Rightarrow> Inl (Inl e)
                   | Inr next_result \<Rightarrow>
                       if \<not> isInputRequiredResult next_result then Inl (Inr next_result) else Inr next_result,
                   legs @ checks @ [ReenterStep view]))))"

function fulfill ::
  "shim_host \<Rightarrow> string \<Rightarrow> js \<Rightarrow> (nat \<Rightarrow> shim_round) \<Rightarrow> js \<Rightarrow> nat \<Rightarrow> (err + js) \<times> shim_step list" where
  "fulfill host m rid env current round0 =
     (let round = round0 + 1 in
      if sh_maxRounds host < round then
        (legacyShimFailure m (inputRequiredRoundsExceededMessage m (sh_maxRounds host)), [])
      else
        (case shimRound host m rid (env round) current of
           (Inl out, steps) \<Rightarrow> (out, steps)
         | (Inr next_result, steps) \<Rightarrow>
             (case fulfill host m rid env next_result round of (out, rest) \<Rightarrow> (out, steps @ rest))))"
  by pat_completeness auto

termination
  by (relation "measure (\<lambda>(host, m, rid, env, current, round). sh_maxRounds host - round)") auto

declare fulfill.simps [simp del]

subsection \<open>Facts about a round\<close>

text \<open>What a passed gate says of the requests it let through.\<close>

definition entry_passes :: "string \<Rightarrow> obj option \<Rightarrow> string \<times> js \<Rightarrow> string \<times> embedded_request \<Rightarrow> bool" where
  "entry_passes m declared e c \<longleftrightarrow> fst c = fst e
     \<and> (\<exists>required. coerceEmbeddedInputRequest m (fst e) (snd e) = Inr (snd c, required)
          \<and> missingClientCapabilities required declared = None)"

lemma gateRound_Cons_pass:
  assumes "gateRound m declared acc (e # ents) = GatePass coerced"
  obtains em where "entry_passes m declared e (fst e, em)" "gateRound m declared (acc @ [(fst e, em)]) ents = GatePass coerced"
  using assms
  by (cases e) (auto simp: entry_passes_def split: sum.splits if_splits)

lemma gateRound_pass:
  "gateRound m declared acc ents = GatePass coerced \<Longrightarrow>
     \<exists>cs. coerced = acc @ cs \<and> list_all2 (entry_passes m declared) ents cs"
proof (induction ents arbitrary: acc)
  case (Cons e ents)
  from Cons.prems obtain em where em: "entry_passes m declared e (fst e, em)"
    "gateRound m declared (acc @ [(fst e, em)]) ents = GatePass coerced"
    by (rule gateRound_Cons_pass)
  from Cons.IH [OF em(2)] obtain cs where cs: "coerced = (acc @ [(fst e, em)]) @ cs"
    "list_all2 (entry_passes m declared) ents cs" by blast
  then show ?case using em(1) by (intro exI [of _ "(fst e, em) # cs"]) simp
qed simp

text \<open>What a leg asks of the client, read off the request it sends.\<close>

fun legRequires :: "leg \<Rightarrow> obj option" where
  "legRequires (SendElicitation p) = requiredClientCapabilitiesForInputRequest ''elicitation/create'' p"
| "legRequires (SendSampling p) = requiredClientCapabilitiesForInputRequest ''sampling/createMessage'' p"
| "legRequires (ListRoots p) = requiredClientCapabilitiesForInputRequest ''roots/list'' p"

definition leg_declared :: "shim_host \<Rightarrow> leg \<Rightarrow> bool" where
  "leg_declared host leg \<longleftrightarrow>
     (case legRequires leg of None \<Rightarrow> False | Some req \<Rightarrow> missingClientCapabilities req (sh_capabilities host) = None)"

definition leg_options_ok :: "shim_host \<Rightarrow> js \<Rightarrow> shim_leg_options \<Rightarrow> bool" where
  "leg_options_ok host rid opts \<longleftrightarrow>
     opts = \<lparr>sl_relatedRequestId = rid, sl_timeout = sh_roundTimeoutMs host, sl_resetTimeoutOnProgress = True\<rparr>"

fun step_allowed :: "shim_host \<Rightarrow> js \<Rightarrow> shim_step \<Rightarrow> bool" where
  "step_allowed host rid (LegStep key leg opts) = (leg_declared host leg \<and> leg_options_ok host rid opts)"
| "step_allowed host rid (PaceStep n) = (n = REQUEST_STATE_ONLY_LEG_PACING_MS)"
| "step_allowed host rid s = True"

lemma coerced_leg_requires:
  assumes "coerceEmbeddedInputRequest m key entry = Inr (em, required)" and "dispatchLeg newId em = Inr leg"
  shows "legRequires leg = Some required"
  using assms
  by (auto simp: coerceEmbeddedInputRequest_def dispatchLeg_def embeddedMethodOf_def params_obj_get
      requiredClientCapabilitiesForInputRequest_def split: js.splits option.splits if_splits)

lemma legSteps_allowed:
  assumes "list_all2 (entry_passes m (sh_capabilities host)) ents cs"
  shows "list_all (step_allowed host rid) (legSteps host rid r cs)"
  using assms
proof (induction rule: list_all2_induct)
  case (Cons e ents c cs)
  then show ?case
    by (auto simp: legSteps_def entry_passes_def leg_declared_def leg_options_ok_def
        dest: coerced_leg_requires split: sum.splits)
qed (simp add: legSteps_def)

lemma roundResponses_allowed:
  "roundResponses host m rid r ents = (x, steps) \<Longrightarrow> list_all (step_allowed host rid) steps"
  by (auto simp: roundResponses_def split: if_splits gate.splits
      dest!: gateRound_pass intro: legSteps_allowed)

lemma verifyRound_allowed: "verifyRound r st responses = (x, steps) \<Longrightarrow> list_all (step_allowed host rid) steps"
  by (auto simp: verifyRound_def Let_def split: option.splits)

lemma shimRound_allowed: "shimRound host m rid r current = (x, steps) \<Longrightarrow> list_all (step_allowed host rid) steps"
  by (auto simp: shimRound_def Let_def split: if_splits prod.splits sum.splits
      dest: roundResponses_allowed verifyRound_allowed)

lemma fulfill_allowed: "list_all (step_allowed host rid) (snd (fulfill host m rid env current r0))"
proof (induction host m rid env current r0 rule: fulfill.induct)
  case (1 host m rid env current r0)
  show ?case
    using 1 shimRound_allowed [of host m rid "env (r0 + 1)" current]
    by (subst fulfill.simps) (auto simp: Let_def split: prod.splits sum.splits)
qed

text \<open>The contexts the handler was re-entered with.\<close>

fun reentered :: "shim_step list \<Rightarrow> mrtr_view list" where
  "reentered [] = []"
| "reentered (ReenterStep v # ss) = v # reentered ss"
| "reentered (s # ss) = reentered ss"

lemma reentered_append [simp]: "reentered (a @ b) = reentered a @ reentered b"
  by (induction a rule: reentered.induct) auto

lemma reentered_legs: "reentered (legSteps host rid r cs) = []"
  by (induction cs) (auto simp: legSteps_def split: sum.splits)

lemma reentered_roundResponses: "roundResponses host m rid r ents = (x, steps) \<Longrightarrow> reentered steps = []"
  by (auto simp: roundResponses_def reentered_legs split: if_splits gate.splits)

lemma reentered_verifyRound: "verifyRound r st responses = (x, steps) \<Longrightarrow> reentered steps = []"
  by (auto simp: verifyRound_def Let_def split: option.splits)

lemma failure_not_input_required [simp]:
  "legacyShimFailure m msg = Inr v \<Longrightarrow> \<not> isInputRequiredResult v"
  by (auto simp: legacyShimFailure_def isInputRequiredResult_def split: if_splits)

lemma roundResponses_final:
  "roundResponses host m rid r ents = (Inl (Inr v), steps) \<Longrightarrow> \<not> isInputRequiredResult v"
  by (auto simp: roundResponses_def split: if_splits gate.splits sum.splits option.splits)

lemma shimRound_ended:
  "shimRound host m rid r current = (Inl out, steps) \<Longrightarrow>
     length (reentered steps) \<le> 1 \<and> (\<forall>v. out = Inr v \<longrightarrow> \<not> isInputRequiredResult v)"
  by (auto simp: shimRound_def Let_def reentered_roundResponses reentered_verifyRound
      split: if_splits prod.splits sum.splits dest: roundResponses_final)

lemma shimRound_next:
  "shimRound host m rid r current = (Inr next_result, steps) \<Longrightarrow>
     length (reentered steps) = 1 \<and> isInputRequiredResult next_result"
  by (auto simp: shimRound_def Let_def reentered_roundResponses reentered_verifyRound
      split: if_splits prod.splits sum.splits)

lemma fulfill_bounds:
  "length (reentered (snd (fulfill host m rid env current r0))) \<le> sh_maxRounds host - r0
   \<and> (\<forall>v. fst (fulfill host m rid env current r0) = Inr v \<longrightarrow> \<not> isInputRequiredResult v)"
proof (induction host m rid env current r0 rule: fulfill.induct)
  case (1 host m rid env current r0)
  show ?case
  proof (cases "sh_maxRounds host < r0 + 1")
    case True
    then show ?thesis by (subst (1 2) fulfill.simps) (simp add: Let_def)
  next
    case False
    obtain x steps where x: "shimRound host m rid (env (r0 + 1)) current = (x, steps)" by fastforce
    show ?thesis
    proof (cases x)
      case (Inl out)
      then show ?thesis using False shimRound_ended [of host m rid "env (r0 + 1)" current out steps] x
        by (subst (1 2) fulfill.simps) (auto simp: Let_def)
    next
      case (Inr nr)
      then show ?thesis using False shimRound_next [of host m rid "env (r0 + 1)" current nr steps] x
        1 [OF refl False x [symmetric] Inr]
        by (subst (1 2) fulfill.simps) (auto simp: Let_def split: prod.split)
    qed
  qed
qed

text \<open>
  C36: The loop ends after at most \<open>maxRounds\<close> handler re-entries, and what it answers is never an
  \<open>input_required\<close> result: the 2025-era wire has no vocabulary for one.
\<close>

theorem shim_is_bounded:
  "length (reentered (snd (fulfill host m rid env firstResult 0))) \<le> sh_maxRounds host
   \<and> (case fst (fulfill host m rid env firstResult 0) of Inl e \<Rightarrow> True | Inr v \<Rightarrow> \<not> isInputRequiredResult v)"
  using fulfill_bounds [of host m rid env firstResult 0] by (simp split: sum.split)

text \<open>
  C35: Every request the shim sends to the client is one whose capability the client declared, is
  tied to the originating request and carries the configured timeout; and a round the gate
  does not let through sends nothing at all.
\<close>

theorem shim_sends_only_declared:
  "list_all (step_allowed host rid) (snd (fulfill host m rid env firstResult 0))
   \<and> (entriesOf (getp current ''inputRequests'') \<noteq> []
        \<and> \<not> passes (gateRound m (sh_capabilities host) [] (entriesOf (getp current ''inputRequests'')))
      \<longrightarrow> snd (shimRound host m rid r current) = [] \<and> isl (fst (shimRound host m rid r current)))"
proof (rule conjI [OF fulfill_allowed], rule impI)
  assume a: "entriesOf (getp current ''inputRequests'') \<noteq> []
        \<and> \<not> passes (gateRound m (sh_capabilities host) [] (entriesOf (getp current ''inputRequests'')))"
  then show "snd (shimRound host m rid r current) = [] \<and> isl (fst (shimRound host m rid r current))"
    by (cases "gateRound m (sh_capabilities host) [] (entriesOf (getp current ''inputRequests''))")
      (auto simp: shimRound_def roundResponses_def)
qed

definition demo_host :: shim_host where
  "demo_host = \<lparr>sh_maxRounds = 2, sh_roundTimeoutMs = NInt 1000, sh_capabilities = Some [(''roots'', JObj [])]\<rparr>"

definition demo_round :: shim_round where
  "demo_round = \<lparr>sr_newId = (\<lambda>k. k), sr_settleOrder = (\<lambda>cs. cs), sr_leg = (\<lambda>_ _. Inr (JObj [])), sr_cancelled = False,
     sr_sleep = None, sr_verify = (\<lambda>_ _. Inr JUndef), sr_handler = (\<lambda>_. Inr (JObj []))\<rparr>"

definition demo_elicit :: js where
  "demo_elicit = JObj [(''resultType'', JStr ''input_required''), (''inputRequests'', JObj
     [(''a'', JObj [(''method'', JStr ''roots/list'')]),
      (''b'', JObj [(''method'', JStr ''elicitation/create''), (''params'', JObj [])])])]"

theorem shim_sends_only_declared_witness:
  "snd (shimRound demo_host ''tools/call'' (JNum (NInt 1)) demo_round demo_elicit) = []"
  by (rule conjunct1 [OF mp [OF conjunct2 [OF shim_sends_only_declared [where env = "\<lambda>_. demo_round" and firstResult = demo_elicit]]]])
    code_simp

subsection \<open>The same world behind both loops\<close>

text \<open>
  What surrounds a multi-round-trip request whichever side fulfils it: the answer the user
  gives to an entry of a round, the server's verification hook and its handler, which sees
  the responses and the state of the round.
\<close>

record world =
  wd_answer :: "nat \<Rightarrow> string \<Rightarrow> js"
  wd_verify :: "nat \<Rightarrow> string \<Rightarrow> err + js"
  wd_handler :: "nat \<Rightarrow> js \<Rightarrow> js \<Rightarrow> err + js"

text \<open>A retry as the 2026-era server takes it: verify the echoed state, then call the handler.\<close>

definition serveRetry :: "world \<Rightarrow> nat \<Rightarrow> js \<Rightarrow> err + js" where
  "serveRetry w n params =
     (case getp params ''requestState'' of
        JStr s \<Rightarrow>
          (case wd_verify w n s of
             Inl e \<Rightarrow> Inl e
           | Inr decoded \<Rightarrow> wd_handler w n (getp params ''inputResponses'') (if decoded \<noteq> JUndef then decoded else JStr s))
      | _ \<Rightarrow> wd_handler w n (getp params ''inputResponses'') JUndef)"

definition modern_world :: "world \<Rightarrow> nat \<Rightarrow> round_env" where
  "modern_world w n = \<lparr>re_settleOrder = (\<lambda>es. es), re_dispatch = (\<lambda>key entry. Inr (wd_answer w n key)), re_sleep = None,
     re_now = 0, re_retry = (\<lambda>params opts. serveRetry w n params)\<rparr>"

definition legacy_world :: "world \<Rightarrow> nat \<Rightarrow> shim_round" where
  "legacy_world w n = \<lparr>sr_newId = (\<lambda>key. key), sr_settleOrder = (\<lambda>cs. cs), sr_leg = (\<lambda>key leg. Inr (wd_answer w n key)),
     sr_cancelled = False, sr_sleep = None, sr_verify = (\<lambda>s v. wd_verify w n s),
     sr_handler = (\<lambda>v. wd_handler w n (mv_inputResponses v) (mv_requestState v))\<rparr>"

lemma legacy_world_simps [simp]:
  "sr_verify (legacy_world w n) s v = wd_verify w n s"
  "sr_handler (legacy_world w n) v = wd_handler w n (mv_inputResponses v) (mv_requestState v)"
  "sr_sleep (legacy_world w n) = None"
  by (simp_all add: legacy_world_def)

lemma modern_world_simps [simp]:
  "re_sleep (modern_world w n) = None"
  "re_retry (modern_world w n) params opts = serveRetry w n params"
  by (simp_all add: modern_world_def)

definition legal_result :: "string \<Rightarrow> obj option \<Rightarrow> js \<Rightarrow> bool" where
  "legal_result m declared v \<longleftrightarrow>
     (getp v ''inputRequests'' = JUndef \<or> isPlainObject (getp v ''inputRequests''))
     \<and> (getp v ''requestState'' = JUndef \<or> isStr (getp v ''requestState''))
     \<and> (entriesOf (getp v ''inputRequests'') \<noteq> [] \<or> isStr (getp v ''requestState''))
     \<and> passes (gateRound m declared [] (entriesOf (getp v ''inputRequests'')))
     \<and> list_all (\<lambda>e. getp (snd e) ''params'' \<noteq> JNull) (entriesOf (getp v ''inputRequests''))"

lemma payload_legal:
  "legal_result m declared v \<Longrightarrow>
     pl_inputRequests (payloadOf v) = entriesOf (getp v ''inputRequests'')"
  by (cases "getp v ''inputRequests''") (auto simp: legal_result_def payloadOf_def)

lemma payload_state: "pl_requestState (payloadOf v) = str_of (getp v ''requestState'')"
  by (simp add: payloadOf_def)

definition answers :: "world \<Rightarrow> nat \<Rightarrow> obj \<Rightarrow> obj" where
  "answers w n ents = fold (\<lambda>e acc. oset acc (fst e) (wd_answer w n (fst e))) ents []"

lemma answers_nonempty: "ents \<noteq> [] \<Longrightarrow> answers w n ents \<noteq> []"
proof -
  have ne: "fold (\<lambda>e acc. oset acc (fst e) (wd_answer w n (fst e))) es acc \<noteq> []" if "acc \<noteq> []" for es and acc :: obj
    using that
  proof (induction es arbitrary: acc)
    case (Cons e es)
    have "oset acc (fst e) (wd_answer w n (fst e)) \<noteq> []" by (cases acc) (auto split: if_splits)
    then show ?case using Cons.IH by simp
  qed simp
  show "ents \<noteq> [] \<Longrightarrow> answers w n ents \<noteq> []"
    by (cases ents) (auto simp: answers_def intro!: ne)
qed

lemma fulfilAll_modern: "fulfilAll (modern_world w n) ents = Inr (answers w n ents)"
proof -
  have "List.find (\<lambda>(key, entry). False) es = None" for es :: obj by (induction es) auto
  moreover have "fold (\<lambda>(key, entry) acc. oset acc key (wd_answer w n key)) es acc
      = fold (\<lambda>e acc. oset acc (fst e) (wd_answer w n (fst e))) es acc" for es :: obj and acc
    by (induction es arbitrary: acc) auto
  ultimately show ?thesis by (simp add: fulfilAll_def modern_world_def answers_def)
qed

lemma fold_keys:
  "list_all2 (\<lambda>e c. fst c = fst e) es cs \<Longrightarrow>
     fold (\<lambda>c acc. oset acc (fst c) (g (fst c))) cs acc = fold (\<lambda>e acc. oset acc (fst e) (g (fst e))) es acc"
  by (induction arbitrary: acc rule: list_all2_induct) auto

lemma legOutcome_legacy:
  assumes "entry_passes m declared e c" and "getp (snd e) ''params'' \<noteq> JNull"
  shows "legOutcome (legacy_world w n) c = Inr (wd_answer w n (fst c))"
proof -
  have "em_params (snd c) \<noteq> JNull"
    using assms by (cases c) (auto simp: entry_passes_def coerceEmbeddedInputRequest_def split: js.splits option.splits)
  then show ?thesis
    by (simp add: legOutcome_def dispatchLeg_def legacy_world_def split: embedded_method.split)
qed

lemma fulfilLegs_legacy:
  assumes gate: "list_all2 (entry_passes m declared) ents cs"
    and nonnull: "list_all (\<lambda>e. getp (snd e) ''params'' \<noteq> JNull) ents"
  shows "fulfilLegs (legacy_world w n) cs = Inr (answers w n ents)"
proof -
  have out: "list_all (\<lambda>c. legOutcome (legacy_world w n) c = Inr (wd_answer w n (fst c))) cs"
    using gate nonnull by (induction rule: list_all2_induct) (auto intro: legOutcome_legacy)
  have "List.find (\<lambda>c. isl (legOutcome (legacy_world w n) c)) cs = None"
    using out by (induction cs) auto
  moreover have "fold (\<lambda>c acc. oset acc (fst c) (projr (legOutcome (legacy_world w n) c))) cs acc
      = fold (\<lambda>c acc. oset acc (fst c) (wd_answer w n (fst c))) cs acc" for acc
    using out by (induction cs arbitrary: acc) auto
  moreover have "list_all2 (\<lambda>e c. fst c = fst e) ents cs"
    using gate by (rule list_all2_mono) (simp add: entry_passes_def)
  ultimately show ?thesis
    by (simp add: fulfilLegs_def answers_def fold_keys [of ents cs "wd_answer w n"]) (simp add: legacy_world_def)
qed

text \<open>A round of the shim, and the same round of the driver, as one call of the server.\<close>

definition roundAnswers :: "world \<Rightarrow> nat \<Rightarrow> js \<Rightarrow> js" where
  "roundAnswers w n v =
     (let ents = entriesOf (getp v ''inputRequests'') in if ents = [] then JUndef else JObj (answers w n ents))"

definition roundServed :: "world \<Rightarrow> nat \<Rightarrow> js \<Rightarrow> err + js" where
  "roundServed w n v =
     serveRetry w n (JObj [(''inputResponses'', roundAnswers w n v), (''requestState'', getp v ''requestState'')])"

lemma shimRound_legacy:
  assumes legal: "legal_result m (sh_capabilities host) v"
  shows "fst (shimRound host m rid (legacy_world w n) v) =
    (case roundServed w n v of Inl e \<Rightarrow> Inl (Inl e)
     | Inr x \<Rightarrow> if \<not> isInputRequiredResult x then Inl (Inr x) else Inr x)"
proof -
  let ?ents = "entriesOf (getp v ''inputRequests'')"
  from legal have st: "getp v ''requestState'' = JUndef \<or> isStr (getp v ''requestState'')"
    and some: "?ents \<noteq> [] \<or> isStr (getp v ''requestState'')"
    and nonnull: "list_all (\<lambda>e. getp (snd e) ''params'' \<noteq> JNull) ?ents"
    by (simp_all add: legal_result_def)
  have "passes (gateRound m (sh_capabilities host) [] ?ents)"
    using legal by (simp add: legal_result_def)
  then obtain cs where cs: "gateRound m (sh_capabilities host) [] ?ents = GatePass cs"
    by (cases "gateRound m (sh_capabilities host) [] ?ents") auto
  have resp: "fst (roundResponses host m rid (legacy_world w n) ?ents) = Inr (roundAnswers w n v)"
    using gateRound_pass [OF cs] fulfilLegs_legacy [OF _ nonnull] cs
    by (auto simp: roundResponses_def roundAnswers_def)
  obtain legs where legs: "roundResponses host m rid (legacy_world w n) ?ents = (Inr (roundAnswers w n v), legs)"
    using resp by (cases "roundResponses host m rid (legacy_world w n) ?ents") auto
  show ?thesis
    using st some
    by (cases "getp v ''requestState''")
      (auto simp: shimRound_def legs verifyRound_def roundServed_def serveRetry_def
        withRequestStateValue_def Let_def split: sum.split)
qed

lemma serveRetry_cong:
  "getp p ''requestState'' = getp q ''requestState'' \<Longrightarrow> getp p ''inputResponses'' = getp q ''inputResponses''
   \<Longrightarrow> serveRetry w n p = serveRetry w n q"
  by (simp only: serveRetry_def)

lemma retry_params_served:
  assumes legal: "legal_result m declared v"
    and fresh: "getp (dv_params call) ''inputResponses'' = JUndef" "getp (dv_params call) ''requestState'' = JUndef"
    and g: "gatherResponses (modern_world w n) (payloadOf v) = (Inr r, steps)"
  shows "serveRetry w n (buildInputRequiredRetryParams (dv_params call) r (pl_requestState (payloadOf v))) = roundServed w n v"
  unfolding roundServed_def
  by (rule serveRetry_cong)
    (use g legal fresh answers_nonempty [of "entriesOf (getp v ''inputRequests'')" w n] in
        \<open>cases "getp v ''requestState''"; cases r; auto simp: gatherResponses_def payload_legal [OF legal]
          payload_state fulfilAll_modern buildInputRequiredRetryParams_def params_obj_get roundAnswers_def
          legal_result_def okeys_def Let_def split: if_splits\<close>)+

lemma gather_modern:
  "legal_result m declared v \<Longrightarrow> \<exists>r steps. gatherResponses (modern_world w n) (payloadOf v) = (Inr r, steps)"
  by (auto simp: gatherResponses_def fulfilAll_modern Let_def)

lemma driver_round:
  assumes legal: "legal_result m declared v" and r0: "r0 < dc_maxRounds (dv_config call)"
    and fresh: "getp (dv_params call) ''inputResponses'' = JUndef" "getp (dv_params call) ''requestState'' = JUndef"
    and budget: "dv_maxTotalTimeout call = None"
  shows "fst (runInputRequiredDriver call (modern_world w) (payloadOf v) r0) =
    (case roundServed w (Suc r0) v of Inl e \<Rightarrow> Inl e
     | Inr x \<Rightarrow> if isInputRequiredResult x then fst (runInputRequiredDriver call (modern_world w) (payloadOf x) (Suc r0))
                else Inr x)"
proof -
  obtain r steps where g: "gatherResponses (modern_world w (Suc r0)) (payloadOf v) = (Inr r, steps)"
    using gather_modern [OF legal] by blast
  show ?thesis
    using r0 budget retry_params_served [OF legal fresh g]
    by (subst runInputRequiredDriver.simps)
      (auto simp: g legOptions_def Let_def split: sum.split prod.split)
qed

lemma loops_agree:
  assumes legal: "legal_result m (sh_capabilities host) v"
    and handler: "\<And>n a b x. wd_handler w n a b = Inr x \<Longrightarrow> isInputRequiredResult x \<Longrightarrow> legal_result m (sh_capabilities host) x"
    and fresh: "getp (dv_params call) ''inputResponses'' = JUndef" "getp (dv_params call) ''requestState'' = JUndef"
    and budget: "dv_maxTotalTimeout call = None" and cap: "dc_maxRounds (dv_config call) = sh_maxRounds host"
  defines "failed \<equiv> legacyShimFailure m (inputRequiredRoundsExceededMessage m (sh_maxRounds host))"
  shows "fst (fulfill host m rid (legacy_world w) v r0) = fst (runInputRequiredDriver call (modern_world w) (payloadOf v) r0)
    \<or> (\<exists>p. fst (runInputRequiredDriver call (modern_world w) (payloadOf v) r0) = Inl (roundsExceeded call p)
         \<and> fst (fulfill host m rid (legacy_world w) v r0) = failed)"
  using legal
proof (induction "sh_maxRounds host - r0" arbitrary: r0 v rule: less_induct)
  case less
  show ?case
  proof (cases "sh_maxRounds host \<le> r0")
    case True
    then show ?thesis
      by (auto simp: fulfill.simps [of host m rid _ v] runInputRequiredDriver.simps [of call _ "payloadOf v"] cap failed_def)
  next
    case False
    obtain y steps where y: "shimRound host m rid (legacy_world w (Suc r0)) v = (y, steps)" by fastforce
    have fs: "fst (fulfill host m rid (legacy_world w) v r0) =
        (case y of Inl out \<Rightarrow> out | Inr nr \<Rightarrow> fst (fulfill host m rid (legacy_world w) nr (Suc r0)))"
      using False y by (subst fulfill.simps) (auto simp: Let_def split: sum.split prod.split)
    have round: "y = (case roundServed w (Suc r0) v of Inl e \<Rightarrow> Inl (Inl e)
        | Inr x \<Rightarrow> if \<not> isInputRequiredResult x then Inl (Inr x) else Inr x)"
      using shimRound_legacy [OF less.prems, of rid w "Suc r0"] y by simp
    have driver: "r0 < dc_maxRounds (dv_config call)" using False cap by simp
    note step = driver_round [OF less.prems driver fresh budget, of w]
    show ?thesis
    proof (cases "roundServed w (Suc r0) v")
      case (Inl e)
      then show ?thesis using fs round step by simp
    next
      case (Inr x)
      show ?thesis
      proof (cases "isInputRequiredResult x")
        case True
        have "legal_result m (sh_capabilities host) x"
          using Inr True handler by (auto simp: roundServed_def serveRetry_def split: js.splits sum.splits)
        then show ?thesis
          using less.hyps [of "Suc r0" x] False fs round step Inr True by simp
      qed (use fs round step Inr in simp)
    qed
  qed
qed


text \<open>One round of roots, then the handler returns what it was given.\<close>

definition demo_roots :: js where
  "demo_roots = JObj [(''resultType'', JStr ''input_required''), (''requestState'', JStr ''s''),
     (''inputRequests'', JObj [(''r'', JObj [(''method'', JStr ''roots/list'')])])]"

definition demo_world :: world where
  "demo_world = \<lparr>wd_answer = (\<lambda>n key. JObj [(''roots'', JArr [])]), wd_verify = (\<lambda>n s. Inr JUndef),
     wd_handler = (\<lambda>n a b. Inr (JArr [a, b]))\<rparr>"

lemma demo_shim_run:
  "fst (fulfill (demo_host\<lparr>sh_maxRounds := 3\<rparr>) ''tools/call'' JUndef (legacy_world demo_world) demo_roots 0)
     = Inr (JArr [JObj [(''r'', JObj [(''roots'', JArr [])])], JStr ''s''])"
  by code_simp


subsection \<open>Options and elicitation ids\<close>

lemma resolved_options:
  "resolveLegacyShimOptions n t s = Inr opts \<Longrightarrow> 0 < so_maxRounds opts \<and> positiveFinite (so_roundTimeoutMs opts)"
proof -
  have p: "positiveInteger x \<Longrightarrow> 0 < nat (int_of_jnum x)" for x by (cases x) auto
  assume "resolveLegacyShimOptions n t s = Inr opts"
  then show ?thesis
    by (cases n; cases t)
      (auto simp: resolveLegacyShimOptions_def given_def DEFAULT_LEGACY_SHIM_MAX_ROUNDS_def
        DEFAULT_LEGACY_SHIM_ROUND_TIMEOUT_MS_def split: if_splits dest: p)
qed

lemma hex_length: "length (concat (map hexByte bs)) = 2 * length bs"
  by (induction bs) (simp_all add: hexByte_def)

lemma version_nibbles:
  "list_all (\<lambda>n. hexByte ((word_of_nat n AND 0x0f) OR 0x40) ! 0 = CHR ''4''
     \<and> hexByte ((word_of_nat n AND 0x3f) OR 0x80) ! 0 \<in> set ''89ab'') [0..<256]"
  by code_simp

lemma version_nibble:
  fixes b :: "8 word"
  shows "hexByte ((b AND 0x0f) OR 0x40) ! 0 = CHR ''4''" "hexByte ((b AND 0x3f) OR 0x80) ! 0 \<in> set ''89ab''"
proof -
  have "unat b < 256" using unsigned_less [of b, where ?'a = nat] by simp
  then show "hexByte ((b AND 0x0f) OR 0x40) ! 0 = CHR ''4''" "hexByte ((b AND 0x3f) OR 0x80) ! 0 \<in> set ''89ab''"
    using version_nibbles by (auto simp: list_all_iff dest!: bspec [of _ _ "unat b"])
qed

text \<open>
  An id minted without \<open>randomUUID\<close> has the shape of a version 4 UUID: 36 characters, with
  the version and variant digits in their places, whatever the sixteen random bytes.
\<close>

lemma uuid_shape:
  assumes "length random = 16"
  shows "length (uuidOfBytes random) = 36 \<and> uuidOfBytes random ! 14 = CHR ''4''
    \<and> uuidOfBytes random ! 19 \<in> set ''89ab''"
proof -
  from assms obtain b0 b1 b2 b3 b4 b5 b6 b7 b8 bs where r: "random = b0 # b1 # b2 # b3 # b4 # b5 # b6 # b7 # b8 # bs"
    and l: "length bs = 7"
    by (auto simp: length_Suc_conv numeral_eq_Suc)
  show ?thesis
    using version_nibble(1) [of b6] version_nibble(2) [of b8] l
    by (simp add: uuidOfBytes_def r hexByte_def hex_length nth_append)
qed

end
