(* ===== verification/ServerRole.thy ===== *)
theory ServerRole
  imports LegacyShim ClientConnect
begin

text \<open>
  The server's own state and operations (packages/server/src/server/server.ts): construction,
  the \<open>initialize\<close> and \<open>server/discover\<close> handlers, the capability tables, log levels, and the
  requests a server sends to its client on a 2025-era session. The multi-round-trip seam
  around its handlers is in ServerSeam.

  The request a server sends is answered by a function from the request to its outcome; the
  schema checks of results and the JSON Schema validator are parameters.
\<close>

subsection \<open>State\<close>

record server_options =
  op_capabilities :: "obj option"
  op_instructions :: js
  op_supported :: "string list option"
  op_cacheHints :: "(string \<times> cache_hint option) list"
  op_maxRounds :: "jnum option"
  op_roundTimeoutMs :: "jnum option"
  op_legacyShim :: "bool option"
  op_verify :: bool

record server =
  sv_serverInfo :: js
  sv_supported :: "string list"
  sv_capabilities :: obj
  sv_instructions :: js
  sv_cacheHints :: "(string \<times> cache_hint option) list"
  sv_verifyConfigured :: bool
  sv_shim :: shim_options
  sv_clientCapabilities :: js
  sv_clientVersion :: js
  sv_negotiated :: "string option"
  sv_loggingLevels :: "(string option \<times> string) list"
  sv_handlers :: "string list"
  sv_connected :: bool

definition servedModernEra :: "server \<Rightarrow> bool" where
  "servedModernEra srv = (case sv_negotiated srv of None \<Rightarrow> False | Some v \<Rightarrow> isModernProtocolVersion v)"

definition addHandler :: "string \<Rightarrow> server \<Rightarrow> server" where
  "addHandler m srv = (if m \<in> set (sv_handlers srv) then srv else srv\<lparr>sv_handlers := sv_handlers srv @ [m]\<rparr>)"

definition registerLoggingHandler :: "server \<Rightarrow> server" where
  "registerLoggingHandler srv = addHandler ''logging/setLevel'' srv"

fun invalidCacheHint :: "(string \<times> cache_hint option) list \<Rightarrow> err option" where
  "invalidCacheHint [] = None"
| "invalidCacheHint ((operation, hint) # hints) =
     (case hint of
        None \<Rightarrow> invalidCacheHint hints
      | Some h \<Rightarrow>
          (case assertValidCacheHint h (''cacheHints['' @ sq operation @ '']'') of
             Some e \<Rightarrow> Some e
           | None \<Rightarrow> invalidCacheHint hints))"

definition newServer :: "js \<Rightarrow> server_options \<Rightarrow> err + server" where
  "newServer serverInfo options =
     (case resolveLegacyShimOptions (op_maxRounds options) (op_roundTimeoutMs options) (op_legacyShim options) of
        Inl e \<Rightarrow> Inl e
      | Inr shim \<Rightarrow>
          (case invalidCacheHint (op_cacheHints options) of
             Some e \<Rightarrow> Inl e
           | None \<Rightarrow>
               (let srv = addHandler ''initialize''
                      \<lparr>sv_serverInfo = serverInfo, sv_supported = or_else (op_supported options) SUPPORTED_PROTOCOL_VERSIONS,
                       sv_capabilities = or_else (op_capabilities options) [], sv_instructions = op_instructions options,
                       sv_cacheHints = op_cacheHints options, sv_verifyConfigured = op_verify options, sv_shim = shim,
                       sv_clientCapabilities = JUndef, sv_clientVersion = JUndef, sv_negotiated = None,
                       sv_loggingLevels = [], sv_handlers = [], sv_connected = False\<rparr>;
                    srv1 = (if 0 < length (modernProtocolVersions (sv_supported srv)) then addHandler ''server/discover'' srv else srv)
                in Inr (if truthy (oget (sv_capabilities srv1) ''logging'') then registerLoggingHandler srv1 else srv1))))"

definition registerCapabilities :: "obj \<Rightarrow> server \<Rightarrow> err + server" where
  "registerCapabilities capabilities srv =
     (if sv_connected srv then
        Inl (SdkError AlreadyConnected ''Cannot register capabilities after connecting to transport'' JUndef)
      else
        (let hadLogging = truthy (oget (sv_capabilities srv) ''logging'');
             srv1 = srv\<lparr>sv_capabilities := mergeCapabilities (sv_capabilities srv) capabilities\<rparr>
         in Inr (if \<not> hadLogging \<and> truthy (oget (sv_capabilities srv1) ''logging'')
                 then registerLoggingHandler srv1 else srv1)))"

text \<open>The hooks of the serving entries.\<close>

definition writeClientIdentity :: "js \<Rightarrow> js \<Rightarrow> server \<Rightarrow> server" where
  "writeClientIdentity clientInfo clientCapabilities srv =
     (let srv1 = (if clientCapabilities \<noteq> JUndef then srv\<lparr>sv_clientCapabilities := clientCapabilities\<rparr> else srv)
      in if clientInfo \<noteq> JUndef then srv1\<lparr>sv_clientVersion := clientInfo\<rparr> else srv1)"

definition installDiscoverHandler :: "string list \<Rightarrow> server \<Rightarrow> server" where
  "installDiscoverHandler servedModernVersions srv =
     (let missing = filter (\<lambda>v. v \<notin> set (sv_supported srv)) servedModernVersions;
          srv1 = (if 0 < length missing then srv\<lparr>sv_supported := sv_supported srv @ missing\<rparr> else srv)
      in addHandler ''server/discover'' srv1)"

subsection \<open>The two opening requests\<close>

definition with_instructions :: "server \<Rightarrow> obj \<Rightarrow> obj" where
  "with_instructions srv o' = oset_if (truthy (sv_instructions srv)) o' ''instructions'' (sv_instructions srv)"

text \<open>\<open>_oninitialize\<close>: the state it leaves, the version pushed to the transport, the result.\<close>

definition oninitialize :: "js \<Rightarrow> server \<Rightarrow> server \<times> string \<times> obj" where
  "oninitialize params srv =
     (let requestedVersion = or_else (str_of (getp params ''protocolVersion'')) [];
          legacyVersions = legacyProtocolVersions (sv_supported srv);
          protocolVersion = (if requestedVersion \<in> set legacyVersions then requestedVersion
                             else (case legacyVersions of [] \<Rightarrow> LATEST_PROTOCOL_VERSION | v # _ \<Rightarrow> v))
      in (srv\<lparr>sv_clientCapabilities := getp params ''capabilities'', sv_clientVersion := getp params ''clientInfo'',
              sv_negotiated := Some protocolVersion\<rparr>,
          protocolVersion,
          with_instructions srv
            [(''protocolVersion'', JStr protocolVersion), (''capabilities'', JObj (sv_capabilities srv)),
             (''serverInfo'', sv_serverInfo srv)]))"

definition discoverAdvertisedCapabilities :: "obj \<Rightarrow> obj" where
  "discoverAdvertisedCapabilities capabilities = ospread [] capabilities"

definition ondiscover :: "server \<Rightarrow> obj" where
  "ondiscover srv =
     with_instructions srv
       [(''supportedVersions'', JArr (map JStr (modernProtocolVersions (sv_supported srv)))),
        (''capabilities'', JObj (discoverAdvertisedCapabilities (sv_capabilities srv)))]"

subsection \<open>Capability tables\<close>

definition needs :: "js \<Rightarrow> string \<Rightarrow> string \<Rightarrow> err option" where
  "needs capability what m =
     (if truthy capability then None
      else Some (SdkError CapabilityNotSupported (what @ '' (required for '' @ m @ '')'') JUndef))"

definition assertCapabilityForMethod :: "server \<Rightarrow> string \<Rightarrow> err option" where
  "assertCapabilityForMethod srv m =
     (let client = (\<lambda>k. getp (sv_clientCapabilities srv) k) in
      if m = ''sampling/createMessage'' then needs (client ''sampling'') ''Client does not support sampling'' m
      else if m = ''elicitation/create'' then needs (client ''elicitation'') ''Client does not support elicitation'' m
      else if m = ''roots/list'' then needs (client ''roots'') ''Client does not support listing roots'' m
      else None)"

definition assertNotificationCapability :: "server \<Rightarrow> string \<Rightarrow> err option" where
  "assertNotificationCapability srv m =
     (let own = (\<lambda>k. oget (sv_capabilities srv) k) in
      if m = ''notifications/message'' then needs (own ''logging'') ''Server does not support logging'' m
      else if m = ''notifications/resources/updated'' \<or> m = ''notifications/resources/list_changed'' then
        needs (own ''resources'') ''Server does not support notifying about resources'' m
      else if m = ''notifications/tools/list_changed'' then
        needs (own ''tools'') ''Server does not support notifying of tool list changes'' m
      else if m = ''notifications/prompts/list_changed'' then
        needs (own ''prompts'') ''Server does not support notifying of prompt list changes'' m
      else if m = ''notifications/elicitation/complete'' then
        needs (getp (getp (sv_clientCapabilities srv) ''elicitation'') ''url'') ''Client does not support URL elicitation'' m
      else None)"

definition assertRequestHandlerCapability :: "server \<Rightarrow> string \<Rightarrow> err option" where
  "assertRequestHandlerCapability srv m =
     (let own = (\<lambda>k. oget (sv_capabilities srv) k) in
      if m = ''completion/complete'' then needs (own ''completions'') ''Server does not support completions'' m
      else if m = ''logging/setLevel'' then needs (own ''logging'') ''Server does not support logging'' m
      else if m = ''prompts/get'' \<or> m = ''prompts/list'' then needs (own ''prompts'') ''Server does not support prompts'' m
      else if m = ''resources/list'' \<or> m = ''resources/templates/list'' \<or> m = ''resources/read'' then
        needs (own ''resources'') ''Server does not support resources'' m
      else if m = ''tools/call'' \<or> m = ''tools/list'' then needs (own ''tools'') ''Server does not support tools'' m
      else None)"

subsection \<open>Log levels\<close>

definition LoggingLevels :: "string list" where
  "LoggingLevels = [''debug'', ''info'', ''notice'', ''warning'', ''error'', ''critical'', ''alert'', ''emergency'']"

definition LOG_LEVEL_SEVERITY :: "string \<Rightarrow> nat option" where
  "LOG_LEVEL_SEVERITY level = map_of (zip LoggingLevels [0..<length LoggingLevels]) level"

text \<open>\<open>severity(a) < severity(b)\<close>; a comparison with an undefined severity is false.\<close>

definition lessSevere :: "string \<Rightarrow> string \<Rightarrow> bool" where
  "lessSevere a b =
     (case (LOG_LEVEL_SEVERITY a, LOG_LEVEL_SEVERITY b) of (Some x, Some y) \<Rightarrow> x < y | _ \<Rightarrow> False)"

definition nonempty :: "string option \<Rightarrow> string option" where
  "nonempty s = (case s of Some (c # cs) \<Rightarrow> Some (c # cs) | _ \<Rightarrow> None)"

definition setLevel :: "string option \<Rightarrow> string option \<Rightarrow> js \<Rightarrow> server \<Rightarrow> server" where
  "setLevel sessionId headerSessionId level srv =
     (let transportSessionId = (case nonempty sessionId of Some s \<Rightarrow> Some s | None \<Rightarrow> nonempty headerSessionId) in
      case level of
        JStr l \<Rightarrow> if l \<in> set LoggingLevels
          then srv\<lparr>sv_loggingLevels := AList.update transportSessionId l (sv_loggingLevels srv)\<rparr> else srv
      | _ \<Rightarrow> srv)"

definition isMessageIgnored :: "server \<Rightarrow> string \<Rightarrow> string option \<Rightarrow> bool" where
  "isMessageIgnored srv level sessionId =
     (case map_of (sv_loggingLevels srv) sessionId of None \<Rightarrow> False | Some current \<Rightarrow> lessSevere level current)"

text \<open>The params of the notification \<open>ctx.mcpReq.log\<close> emits, if it emits one.\<close>

definition ctxLog :: "server \<Rightarrow> obj option \<Rightarrow> string option \<Rightarrow> string \<Rightarrow> js \<Rightarrow> js \<Rightarrow> js option" where
  "ctxLog srv envelope sessionId level data logger =
     (let emitted = Some (JObj [(''method'', JStr ''notifications/message''),
             (''params'', JObj [(''level'', JStr level), (''data'', data), (''logger'', logger)])]);
          filtered = (\<lambda>threshold. if lessSevere level threshold then None else emitted)
      in if \<not> truthy (oget (sv_capabilities srv) ''logging'') then None
      else if servedModernEra srv then
        (case oget (or_else envelope []) LOG_LEVEL_META_KEY of
           JUndef \<Rightarrow> None
         | JStr threshold \<Rightarrow> filtered threshold
         | _ \<Rightarrow> emitted)
      else
        (case map_of (sv_loggingLevels srv) sessionId of
           Some threshold \<Rightarrow> filtered threshold
         | None \<Rightarrow>
             (case map_of (sv_loggingLevels srv) None of Some threshold \<Rightarrow> filtered threshold | None \<Rightarrow> emitted)))"

definition sendLoggingMessage :: "server \<Rightarrow> js \<Rightarrow> string option \<Rightarrow> js option" where
  "sendLoggingMessage srv params sessionId =
     (if truthy (oget (sv_capabilities srv) ''logging'')
         \<and> \<not> isMessageIgnored srv (or_else (str_of (getp params ''level'')) []) sessionId
      then Some (JObj [(''method'', JStr ''notifications/message''), (''params'', params)]) else None)"

subsection \<open>Requests to the client\<close>

text \<open>
  What a push call does: it fails before anything is sent, or it sends one request and ends
  as the answer says.
\<close>

record push_run =
  pu_sent :: "js option"
  pu_result :: "err + js"

definition failedPush :: "err \<Rightarrow> push_run" where
  "failedPush e = \<lparr>pu_sent = None, pu_result = Inl e\<rparr>"

definition assertPushApiInServedEra :: "server \<Rightarrow> string \<Rightarrow> err option" where
  "assertPushApiInServedEra srv m =
     (if servedModernEra srv then
        Some (SdkError MethodNotSupportedByProtocolVersion
          (''Server-to-client requests are not available on protocol revision '' @ or_else (sv_negotiated srv) [] @ '': ''
           @ sq m @ '' cannot be sent while serving a request on that revision. ''
           @ ''Return inputRequired({ ... }) from the handler instead '' @ [CHR 0x14] @ '' the client fulfils the embedded ''
           @ ''requests and retries the original request (multi round-trip requests).'')
          (JObj [(''method'', JStr m), (''era'', JStr ''2026-07-28'')]))
      else None)"

definition pushRequest :: "(js \<Rightarrow> err + js) \<Rightarrow> string \<Rightarrow> js \<Rightarrow> push_run" where
  "pushRequest request m params =
     (let r = JObj ((''method'', JStr m) # (if params = JUndef then [] else [(''params'', params)]))
      in \<lparr>pu_sent = Some r, pu_result = request r\<rparr>)"

definition ping :: "(js \<Rightarrow> err + js) \<Rightarrow> server \<Rightarrow> push_run" where
  "ping request srv =
     (case assertPushApiInServedEra srv ''ping'' of
        Some e \<Rightarrow> failedPush e
      | None \<Rightarrow> pushRequest request ''ping'' JUndef)"

definition listRoots :: "(js \<Rightarrow> err + js) \<Rightarrow> server \<Rightarrow> js \<Rightarrow> push_run" where
  "listRoots request srv params =
     (case assertPushApiInServedEra srv ''roots/list'' of
        Some e \<Rightarrow> failedPush e
      | None \<Rightarrow> pushRequest request ''roots/list'' params)"

text \<open>The blocks of a sampling message: its content is one block or an array of them.\<close>

definition contentBlocks :: "js \<Rightarrow> js list" where
  "contentBlocks message = (case getp message ''content'' of JArr cs \<Rightarrow> cs | c \<Rightarrow> [c])"

definition blockIs :: "string \<Rightarrow> js \<Rightarrow> bool" where
  "blockIs t c \<longleftrightarrow> getp c ''type'' = JStr t"

definition invalidSampling :: "string \<Rightarrow> err" where
  "invalidSampling message = ProtocolErr (protocolError (pcode InvalidParams) message JUndef)"

text \<open>The check of tool-use and tool-result blocks; the identifiers of a set count once.\<close>

definition checkToolPairs :: "js list \<Rightarrow> err option" where
  "checkToolPairs messages =
     (if messages = [] then None
      else
        (let lastContent = contentBlocks (last messages);
             previousContent = (if 1 < length messages then contentBlocks (messages ! (length messages - 2)) else []);
             hasToolResults = list_ex (blockIs ''tool_result'') lastContent;
             hasPreviousToolUse = list_ex (blockIs ''tool_use'') previousContent;
             toolUseIds = remdups (map (\<lambda>c. getp c ''id'') (filter (blockIs ''tool_use'') previousContent));
             toolResultIds = remdups (map (\<lambda>c. getp c ''toolUseId'') (filter (blockIs ''tool_result'') lastContent))
         in if hasToolResults \<and> list_ex (\<lambda>c. \<not> blockIs ''tool_result'' c) lastContent then
              Some (invalidSampling ''The last message must contain only tool_result content if any is present'')
            else if hasToolResults \<and> \<not> hasPreviousToolUse then
              Some (invalidSampling ''tool_result blocks are not matching any tool_use from the previous message'')
            else if hasPreviousToolUse
                \<and> (length toolUseIds \<noteq> length toolResultIds \<or> \<not> list_all (\<lambda>i. i \<in> set toolResultIds) toolUseIds) then
              Some (invalidSampling ''ids of tool_result blocks and tool_use blocks from previous message do not match'')
            else None))"

datatype outcome = Valid js | Invalid string | NotInEra

definition createMessage ::
  "(bool \<Rightarrow> js \<Rightarrow> outcome) \<Rightarrow> (js \<Rightarrow> err + js) \<Rightarrow> server \<Rightarrow> js \<Rightarrow> push_run" where
  "createMessage samplingResultVariant request srv params =
     (case assertPushApiInServedEra srv ''sampling/createMessage'' of
        Some e \<Rightarrow> failedPush e
      | None \<Rightarrow>
          (let hasTools = truthy (getp params ''tools'') \<or> truthy (getp params ''toolChoice'') in
           if hasTools \<and> \<not> truthy (getp (getp (sv_clientCapabilities srv) ''sampling'') ''tools'') then
             failedPush (SdkError CapabilityNotSupported ''Client does not support sampling tools capability.'' JUndef)
           else
             (case checkToolPairs (case getp params ''messages'' of JArr ms \<Rightarrow> ms | _ \<Rightarrow> []) of
                Some e \<Rightarrow> failedPush e
              | None \<Rightarrow>
                  (let run = pushRequest request ''sampling/createMessage'' params in
                   case pu_result run of
                     Inl e \<Rightarrow> run
                   | Inr wide \<Rightarrow> run\<lparr>pu_result := (case samplingResultVariant hasTools wide of
                         Valid v \<Rightarrow> Inr v
                       | Invalid message \<Rightarrow>
                           Inl (SdkError InvalidResult (''Invalid sampling/createMessage result: '' @ message) JUndef)
                       | NotInEra \<Rightarrow>
                           Inl (SdkError InvalidResult ''Invalid sampling/createMessage result: not-in-era'' JUndef))\<rparr>))))"

text \<open>
  The validator of a requested schema: building it or running it can throw, and it says
  whether the content is valid.
\<close>

definition validateContent :: "(js \<Rightarrow> js \<Rightarrow> err + string option) \<Rightarrow> js \<Rightarrow> js \<Rightarrow> err option" where
  "validateContent validator schema content =
     (case validator schema content of
        Inr None \<Rightarrow> None
      | Inr (Some message) \<Rightarrow>
          Some (ProtocolErr (protocolError (pcode InvalidParams)
            (''Elicitation response content does not match requested schema: '' @ message) JUndef))
      | Inl (ProtocolErr e) \<Rightarrow> Some (ProtocolErr e)
      | Inl e \<Rightarrow> Some (ProtocolErr (protocolError (pcode InternalError)
            (''Error validating elicitation response: '' @ errMessage e) JUndef)))"

definition elicitMode :: "js \<Rightarrow> string" where
  "elicitMode params = or_else (str_of (getp params ''mode'')) ''form''"

text \<open>A mode that is neither of the two ends both switches without an effect.\<close>

definition sendElicitationLeg ::
  "(js \<Rightarrow> js \<Rightarrow> err + string option) \<Rightarrow> (js \<Rightarrow> err + js) \<Rightarrow> bool \<Rightarrow> js \<Rightarrow> push_run" where
  "sendElicitationLeg validator request validateAcceptedContent params =
     (if elicitMode params = ''url'' then pushRequest request ''elicitation/create'' params
      else if elicitMode params = ''form'' then
        (let formParams = (if getp params ''mode'' = JStr ''form'' then params
                           else JObj (oset (params_obj params) ''mode'' (JStr ''form'')));
             run = pushRequest request ''elicitation/create'' formParams
         in case pu_result run of
              Inl e \<Rightarrow> run
            | Inr result \<Rightarrow>
                if validateAcceptedContent \<and> getp result ''action'' = JStr ''accept''
                   \<and> truthy (getp result ''content'') \<and> truthy (getp formParams ''requestedSchema'') then
                  (case validateContent validator (getp formParams ''requestedSchema'') (getp result ''content'') of
                     Some e \<Rightarrow> run\<lparr>pu_result := Inl e\<rparr>
                   | None \<Rightarrow> run)
                else run)
      else \<lparr>pu_sent = None, pu_result = Inr JUndef\<rparr>)"

definition elicitInput ::
  "(js \<Rightarrow> js \<Rightarrow> err + string option) \<Rightarrow> (js \<Rightarrow> err + js) \<Rightarrow> server \<Rightarrow> js \<Rightarrow> push_run" where
  "elicitInput validator request srv params =
     (case assertPushApiInServedEra srv ''elicitation/create'' of
        Some e \<Rightarrow> failedPush e
      | None \<Rightarrow>
          (let elicitation = getp (sv_clientCapabilities srv) ''elicitation'' in
           if elicitMode params = ''url'' \<and> \<not> truthy (getp elicitation ''url'') then
             failedPush (SdkError CapabilityNotSupported ''Client does not support url elicitation.'' JUndef)
           else if elicitMode params = ''form'' \<and> \<not> truthy (getp elicitation ''form'') then
             failedPush (SdkError CapabilityNotSupported ''Client does not support form elicitation.'' JUndef)
           else sendElicitationLeg validator request True params))"

definition createElicitationCompletionNotifier :: "server \<Rightarrow> string \<Rightarrow> err + js" where
  "createElicitationCompletionNotifier srv elicitationId =
     (if \<not> truthy (getp (getp (sv_clientCapabilities srv) ''elicitation'') ''url'') then
        Inl (SdkError CapabilityNotSupported
          ''Client does not support URL elicitation (required for notifications/elicitation/complete)'' JUndef)
      else Inr (JObj [(''method'', JStr ''notifications/elicitation/complete''),
                      (''params'', JObj [(''elicitationId'', JStr elicitationId)])]))"

subsection \<open>Facts\<close>

lemma remdups_length_set: "length (remdups xs) = card (set xs)"
  by (simp add: length_remdups_card_conv)

text \<open>Equal size and inclusion, as the code compares two sets, is equality.\<close>

lemma same_ids:
  "length (remdups xs) = length (remdups ys) \<and> list_all (\<lambda>i. i \<in> set (remdups ys)) (remdups xs) \<longleftrightarrow> set xs = set ys"
  by (auto simp: remdups_length_set list_all_iff intro: card_subset_eq [THEN equalityD2, THEN subsetD] dest: subsetI)

definition blocksOf :: "string \<Rightarrow> string \<Rightarrow> js list \<Rightarrow> js set" where
  "blocksOf t k cs = (\<lambda>c. getp c k) ` {c \<in> set cs. blockIs t c}"

text \<open>
  C38: The check of a sampling request's blocks accepts exactly the conversations it is meant to:
  the results in the last message answer the tool uses of the message before it, id by id,
  none missing and none unasked for, and a message with results holds nothing else.
\<close>

theorem tool_pairs_exact:
  "checkToolPairs (before @ [previous, lastMessage]) = None \<longleftrightarrow>
     blocksOf ''tool_use'' ''id'' (contentBlocks previous) = blocksOf ''tool_result'' ''toolUseId'' (contentBlocks lastMessage)
     \<and> (if list_ex (blockIs ''tool_result'') (contentBlocks lastMessage)
        then list_all (blockIs ''tool_result'') (contentBlocks lastMessage) else True)"
proof -
  let ?uses = "map (\<lambda>c. getp c ''id'') (filter (blockIs ''tool_use'') (contentBlocks previous))"
  let ?results = "map (\<lambda>c. getp c ''toolUseId'') (filter (blockIs ''tool_result'') (contentBlocks lastMessage))"
  have nth: "(before @ [previous, lastMessage]) ! (length (before @ [previous, lastMessage]) - 2) = previous"
    by (simp add: nth_append)
  have ends: "last (before @ [previous, lastMessage]) = lastMessage"
    "(1 < length (before @ [previous, lastMessage])) = True" "(before @ [previous, lastMessage] = []) = False"
    by simp_all
  have uses: "list_ex (blockIs ''tool_use'') (contentBlocks previous) \<longleftrightarrow> ?uses \<noteq> []"
    by (auto simp: list_ex_iff filter_empty_conv)
  have results: "list_ex (blockIs ''tool_result'') (contentBlocks lastMessage) \<longleftrightarrow> ?results \<noteq> []"
    by (auto simp: list_ex_iff filter_empty_conv)
  have sets: "blocksOf ''tool_use'' ''id'' (contentBlocks previous) = set ?uses"
    "blocksOf ''tool_result'' ''toolUseId'' (contentBlocks lastMessage) = set ?results"
    by (simp_all add: blocksOf_def)
  have only: "list_ex (\<lambda>c. \<not> blockIs ''tool_result'' c) (contentBlocks lastMessage)
      \<longleftrightarrow> \<not> list_all (blockIs ''tool_result'') (contentBlocks lastMessage)"
    by (auto simp: list_ex_iff list_all_iff)
  have eq: "checkToolPairs (before @ [previous, lastMessage]) = None \<longleftrightarrow>
      \<not> (?results \<noteq> [] \<and> \<not> list_all (blockIs ''tool_result'') (contentBlocks lastMessage))
      \<and> \<not> (?results \<noteq> [] \<and> ?uses = [])
      \<and> (?uses = [] \<or> length (remdups ?uses) = length (remdups ?results) \<and> list_all (\<lambda>i. i \<in> set (remdups ?results)) (remdups ?uses))"
    unfolding checkToolPairs_def Let_def ends if_True if_False nth uses results only by simp
  show ?thesis
    unfolding eq same_ids sets results by (cases "?uses = []"; cases "?results = []") auto
qed

text \<open>
  C39: On an instance that serves the 2026-07-28 revision no push call puts anything on the wire;
  and on any instance a sampling request that uses tools, and an elicitation of either
  mode, goes out only when the client declared the capability.
\<close>

theorem push_needs_legacy_and_capability:
  "(servedModernEra srv \<longrightarrow>
      pu_sent (ping req srv) = None \<and> pu_sent (listRoots req srv p) = None
      \<and> pu_sent (createMessage variant req srv p) = None \<and> pu_sent (elicitInput validator req srv p) = None)
   \<and> (pu_sent (createMessage variant req srv p) \<noteq> None
        \<and> (truthy (getp p ''tools'') \<or> truthy (getp p ''toolChoice'')) \<longrightarrow>
      truthy (getp (getp (sv_clientCapabilities srv) ''sampling'') ''tools''))
   \<and> (pu_sent (elicitInput validator req srv p) \<noteq> None \<longrightarrow>
      truthy (getp (getp (sv_clientCapabilities srv) ''elicitation'') (elicitMode p)))"
  by (auto simp: ping_def listRoots_def createMessage_def elicitInput_def assertPushApiInServedEra_def failedPush_def
      sendElicitationLeg_def Let_def split: if_splits option.splits)

subsection \<open>Both ends of the handshake\<close>

text \<open>The params the client's handshake sends.\<close>

definition initializeParams :: "connect_config \<Rightarrow> string \<Rightarrow> js" where
  "initializeParams cfg offered =
     JObj [(''protocolVersion'', JStr offered), (''capabilities'', cg_capabilities cfg), (''clientInfo'', cg_clientInfo cfg)]"

lemma latest_legacy: "\<not> isModernProtocolVersion LATEST_PROTOCOL_VERSION"
  by code_simp

lemma legacy_version: "v \<in> set (legacyProtocolVersions vs) \<Longrightarrow> \<not> isModernProtocolVersion v"
  by (simp add: legacyProtocolVersions_def)

lemma oninitialize_version:
  assumes "oninitialize params srv = (srv', pushed, result)"
  shows "sv_negotiated srv' = Some pushed" "oget result ''protocolVersion'' = JStr pushed"
    "oget result ''capabilities'' = JObj (sv_capabilities srv)" "\<not> isModernProtocolVersion pushed"
    "getp params ''protocolVersion'' = JStr v \<Longrightarrow> v \<in> set (legacyProtocolVersions (sv_supported srv)) \<Longrightarrow> pushed = v"
proof -
  have hd: "\<not> isModernProtocolVersion (case legacyProtocolVersions vs of [] \<Rightarrow> LATEST_PROTOCOL_VERSION | v # _ \<Rightarrow> v)" for vs
    using latest_legacy legacy_version [of "hd (legacyProtocolVersions vs)" vs] by (cases "legacyProtocolVersions vs") auto
  show "sv_negotiated srv' = Some pushed" "oget result ''protocolVersion'' = JStr pushed"
    "oget result ''capabilities'' = JObj (sv_capabilities srv)"
    using assms by (auto simp: oninitialize_def Let_def with_instructions_def oset_if_def)
  show "\<not> isModernProtocolVersion pushed"
    using assms hd [of "sv_supported srv"]
      legacy_version [of "or_else (str_of (getp params ''protocolVersion'')) []" "sv_supported srv"]
    by (cases "or_else (str_of (getp params ''protocolVersion'')) [] \<in> set (legacyProtocolVersions (sv_supported srv))")
      (auto simp: oninitialize_def Let_def)
  show "pushed = v" if "getp params ''protocolVersion'' = JStr v" "v \<in> set (legacyProtocolVersions (sv_supported srv))"
    using assms that by (auto simp: oninitialize_def Let_def)
qed

text \<open>
  C37: The two ends of an \<open>initialize\<close> handshake agree. When the client's handshake succeeds
  against this server, both are bound to the same revision, it is a legacy one, and the
  client holds the server's capabilities and the server the client's; and when the server
  supports what the client offers and nothing else fails, it does succeed, on that version.
\<close>

theorem handshake_agreement:
  assumes "handshakeVersions cfg = offered # others"
    and "oninitialize (initializeParams cfg offered) srv = (srv', pushed, result)"
    and "ce_initialize env = Inr (JObj result)"
    and "legacyHandshake cfg env before st = (effs, st', err)"
  shows "(err = None \<longrightarrow> (\<exists>v. cn_negotiated st' = Some v \<and> sv_negotiated srv' = Some v \<and> \<not> isModernProtocolVersion v
        \<and> cn_serverCapabilities st' = JObj (sv_capabilities srv) \<and> sv_clientCapabilities srv' = cg_capabilities cfg))
    \<and> (offered \<in> set (sv_supported srv) \<and> ce_initialized env = None \<and> ce_setupHandlers env = None \<longrightarrow>
        err = None \<and> cn_negotiated st' = Some offered)"
proof -
  note v = oninitialize_version [OF assms(2)]
  have caps: "sv_clientCapabilities srv' = cg_capabilities cfg"
    using assms(2) by (auto simp: oninitialize_def Let_def initializeParams_def)
  have "offered \<in> set (handshakeVersions cfg)" using assms(1) by simp
  then have "\<not> isModernProtocolVersion offered" by (rule handshake_legacy)
  then have pushed: "pushed = offered" if "offered \<in> set (sv_supported srv)"
    using v(5) [of offered] that by (simp add: initializeParams_def legacyProtocolVersions_def)
  show ?thesis
    using assms(4) v(1-4) caps pushed
    by (auto simp: legacyHandshake_def failHandshake_def Let_def assms(1,3) adoptServer_def resetConnectionState_def freshState_def
        split: if_splits option.splits)
qed

definition demoOptionsServer :: server_options where
  "demoOptionsServer = \<lparr>op_capabilities = Some [(''tools'', JObj [])], op_instructions = JUndef,
     op_supported = Some [''2025-06-18''], op_cacheHints = [], op_maxRounds = None, op_roundTimeoutMs = None,
     op_legacyShim = None, op_verify = False\<rparr>"

definition demoServer :: server where
  "demoServer = projr (newServer (JObj []) demoOptionsServer)"

definition demoResult :: obj where
  "demoResult = snd (snd (oninitialize (initializeParams demoConfig ''2025-11-25'') demoServer))"

theorem handshake_agreement_witness:
  "\<exists>v. cn_negotiated (fst (snd (legacyHandshake demoConfig (demoEnv\<lparr>ce_initialize := Inr (JObj demoResult)\<rparr>) [] freshState))) = Some v
     \<and> sv_negotiated (fst (oninitialize (initializeParams demoConfig ''2025-11-25'') demoServer)) = Some v"
proof -
  let ?env = "demoEnv\<lparr>ce_initialize := Inr (JObj demoResult)\<rparr>"
  have hs: "handshakeVersions demoConfig = ''2025-11-25'' # tl (handshakeVersions demoConfig)" by code_simp
  obtain srv' pushed result where
    oi: "oninitialize (initializeParams demoConfig ''2025-11-25'') demoServer = (srv', pushed, result)"
    by (cases "oninitialize (initializeParams demoConfig ''2025-11-25'') demoServer") auto
  have env: "ce_initialize ?env = Inr (JObj result)" by (simp add: demoResult_def oi)
  obtain effs st' err where lh: "legacyHandshake demoConfig ?env [] freshState = (effs, st', err)"
    by (cases "legacyHandshake demoConfig ?env [] freshState") auto
  have "snd (snd (legacyHandshake demoConfig ?env [] freshState)) = None" by code_simp
  then show ?thesis
    using handshake_agreement [OF hs oi env lh] by (auto simp: lh oi)
qed

subsection \<open>Log levels\<close>

lemma severity_known: "level \<in> set LoggingLevels \<Longrightarrow> \<exists>n. LOG_LEVEL_SEVERITY level = Some n"
  by (auto simp: LoggingLevels_def LOG_LEVEL_SEVERITY_def)



theorem push_needs_legacy_and_capability_witness:
  "pu_sent (ping (\<lambda>_. Inr JNull) (demoServer\<lparr>sv_negotiated := Some ''2026-07-28''\<rparr>)) = None"
proof -
  have "servedModernEra (demoServer\<lparr>sv_negotiated := Some ''2026-07-28''\<rparr>)" by code_simp
  then show ?thesis using push_needs_legacy_and_capability by blast
qed

end
