(* ===== verification/ServerSeam.thy ===== *)
theory ServerSeam
  imports ServerRole
begin

text \<open>
  The seam around a server's request handlers (packages/server/src/server/server.ts):
  verification of an echoed state before the handler runs, the checks of an
  \<open>input_required\<close> return in each era, and the wrapping of every registered handler.

  A call's surroundings are those of LegacyShim, with round 0 for the handler's first call;
  the hook of a round is the configured one. A handler's result is its JSON value; the cache
  hint a resource registration attached to it is passed beside it.
\<close>

definition INPUT_REQUIRED_CAPABLE_METHODS :: "string list" where
  "INPUT_REQUIRED_CAPABLE_METHODS = [''tools/call'', ''prompts/get'', ''resources/read'']"

record seam_call =
  sc_envelope :: "obj option"
  sc_id :: js
  sc_view :: mrtr_view

definition invalidRequestState :: err where
  "invalidRequestState = ProtocolErr (protocolError (pcode InvalidParams) ''Invalid or expired requestState''
     (JObj [(''reason'', JStr ''invalid_request_state'')]))"

text \<open>The hook's outcome, with its failure frozen; the second component goes to \<open>onerror\<close>.\<close>

definition verifyRequestState ::
  "server \<Rightarrow> shim_round \<Rightarrow> string \<Rightarrow> string \<Rightarrow> mrtr_view \<Rightarrow> (err + js) \<times> string option" where
  "verifyRequestState srv r m state view =
     (if \<not> sv_verifyConfigured srv then (Inr JUndef, None)
      else (case sr_verify r state view of
              Inr v \<Rightarrow> (Inr v, None)
            | Inl e \<Rightarrow> (Inl invalidRequestState, Some (''requestState verification rejected '' @ m @ '': '' @ errMessage e))))"

definition inputRequestCapabilityView :: "server \<Rightarrow> obj option \<Rightarrow> obj option" where
  "inputRequestCapabilityView srv envelope =
     obj_of (if servedModernEra srv then oget (or_else envelope []) CLIENT_CAPABILITIES_META_KEY else sv_clientCapabilities srv)"

definition shimHost :: "server \<Rightarrow> obj option \<Rightarrow> shim_host" where
  "shimHost srv envelope =
     \<lparr>sh_maxRounds = so_maxRounds (sv_shim srv), sh_roundTimeoutMs = so_roundTimeoutMs (sv_shim srv),
      sh_capabilities = inputRequestCapabilityView srv envelope\<rparr>"

definition hosted :: "server \<Rightarrow> string \<Rightarrow> (nat \<Rightarrow> shim_round) \<Rightarrow> nat \<Rightarrow> shim_round" where
  "hosted srv m env n = (env n)\<lparr>sr_verify := (\<lambda>s v. fst (verifyRequestState srv (env n) m s v))\<rparr>"

text \<open>
  An error that escapes a handler: \<open>-32042\<close> has no place on the modern wire. The ellipsis of
  the message is the code unit 0x26 here.
\<close>

definition escapedError :: "server \<Rightarrow> err \<Rightarrow> err" where
  "escapedError srv e =
     (case e of
        ProtocolErr p \<Rightarrow>
          if pe_code p = pcode UrlElicitationRequired \<and> servedModernEra srv then
            ProtocolErr (protocolError (pcode InternalError)
              (''URL elicitation cannot be signalled by throwing UrlElicitationRequiredError on protocol revision ''
               @ or_else (sv_negotiated srv) [] @ '': return inputRequired({ inputRequests: { '' @ [CHR 0x26]
               @ '': inputRequired.elicitUrl(...) } }) from the handler instead. ''
               @ ''The urlElicitationRequired error (-32042) of earlier revisions is not available on this revision.'') JUndef)
          else e
      | _ \<Rightarrow> e)"

definition noVocabulary :: "server \<Rightarrow> string \<Rightarrow> err" where
  "noVocabulary srv m = ProtocolErr (protocolError (pcode InternalError)
     (''Handler for '' @ m @ '' returned an input-required result, but this request is served on protocol revision ''
      @ or_else (sv_negotiated srv) LATEST_PROTOCOL_VERSION @ '', which has no input_required vocabulary'') JUndef)"

definition undeclaredInput :: "string \<Rightarrow> embedded_request \<Rightarrow> obj \<Rightarrow> err" where
  "undeclaredInput key embedded missing = ProtocolErr (missingRequiredClientCapabilityError missing
     (''Cannot request input '' @ sq key @ '' ('' @ embeddedMethodName (em_method embedded)
      @ ''): the request's client capabilities do not declare the required capability''))"

fun checkEmbedded :: "string \<Rightarrow> obj option \<Rightarrow> obj \<Rightarrow> err option" where
  "checkEmbedded m declared [] = None"
| "checkEmbedded m declared ((key, entry) # ents) =
     (case coerceEmbeddedInputRequest m key entry of
        Inl e \<Rightarrow> Some e
      | Inr (embedded, required) \<Rightarrow>
          (case missingClientCapabilities required declared of
             Some missing \<Rightarrow> Some (undeclaredInput key embedded missing)
           | None \<Rightarrow> checkEmbedded m declared ents))"

definition checkModernReturn :: "string \<Rightarrow> obj option \<Rightarrow> js \<Rightarrow> err option" where
  "checkModernReturn m declared result =
     (let ents = entriesOf (getp result ''inputRequests'') in
      if ents = [] \<and> \<not> isStr (getp result ''requestState'') then Some (neitherMember m)
      else if ents \<noteq> [] then checkEmbedded m declared ents else None)"

text \<open>The state the wire carried, verified before the handler sees it.\<close>

definition verifiedView ::
  "server \<Rightarrow> string \<Rightarrow> shim_round \<Rightarrow> mrtr_view \<Rightarrow> (err + mrtr_view) \<times> shim_step list" where
  "verifiedView srv m r view =
     (case mv_requestState view of
        JUndef \<Rightarrow> (Inr view, [])
      | JStr s \<Rightarrow>
          (case fst (verifyRequestState srv r m s view) of
             Inl e \<Rightarrow> Inl e
           | Inr decoded \<Rightarrow> Inr (if decoded \<noteq> JUndef then withRequestStateValue view decoded else view),
           [VerifyStep s view])
      | _ \<Rightarrow> (Inl invalidRequestState, []))"

definition invokeInputRequiredCapableHandler ::
  "server \<Rightarrow> string \<Rightarrow> seam_call \<Rightarrow> (nat \<Rightarrow> shim_round) \<Rightarrow> (err + js) \<times> shim_step list" where
  "invokeInputRequiredCapableHandler srv m call env =
     (case verifiedView srv m (env 0) (sc_view call) of
        (Inl e, steps) \<Rightarrow> (Inl e, steps)
      | (Inr view, checks) \<Rightarrow>
          (let steps = checks @ [ReenterStep view] in
           case sr_handler (env 0) view of
             Inl e \<Rightarrow> (Inl (escapedError srv e), steps)
           | Inr result \<Rightarrow>
               if \<not> isInputRequiredResult result then (Inr result, steps)
               else if \<not> servedModernEra srv then
                 (if \<not> so_legacyShim (sv_shim srv) then (Inl (noVocabulary srv m), steps)
                  else (case fulfill (shimHost srv (sc_envelope call)) m (sc_id call) (hosted srv m env) result 0 of
                          (out, rest) \<Rightarrow> (out, steps @ rest)))
               else (case checkModernReturn m (inputRequestCapabilityView srv (sc_envelope call)) result of
                       Some e \<Rightarrow> (Inl e, steps)
                     | None \<Rightarrow> (Inr result, steps))))"

subsection \<open>Wrapping a handler\<close>

record result_validators =
  rv_request :: "wire_era \<Rightarrow> string \<Rightarrow> js \<Rightarrow> outcome"
  rv_result :: "wire_era \<Rightarrow> string \<Rightarrow> js \<Rightarrow> outcome"

definition TOOL_RESULT_FOREIGN_FAMILY_KEYS :: "string list" where
  "TOOL_RESULT_FOREIGN_FAMILY_KEYS = [''task'', ''inputRequests'', ''requestState'']"

definition normalizeContentlessToolResult :: "js \<Rightarrow> js" where
  "normalizeContentlessToolResult value =
     (case value of
        JObj o' \<Rightarrow>
          if oget o' ''content'' \<noteq> JUndef \<or> list_ex (ohas o') TOOL_RESULT_FOREIGN_FAMILY_KEYS then value
          else JObj (oset o' ''content'' (JArr []))
      | _ \<Rightarrow> value)"

definition wrongMethod :: "string \<Rightarrow> err" where
  "wrongMethod m = ProtocolErr (protocolError (pcode InternalError)
     (''Handler for '' @ m @ '' returned an input-required result, but only tools/call, prompts/get and ''
      @ ''resources/read support input_required (protocol revision 2026-07-28)'') JUndef)"

definition invalidOutcome :: "string \<Rightarrow> outcome \<Rightarrow> err" where
  "invalidOutcome what outc =
     (case outc of
        Invalid message \<Rightarrow> ProtocolErr (protocolError (pcode InvalidParams) (''Invalid tools/call '' @ what @ '': '' @ message) JUndef)
      | _ \<Rightarrow> ProtocolErr (protocolError (pcode InternalError) ''No wire schema for tools/call in the resolved era'' JUndef))"

definition with_hint :: "cache_hint option \<Rightarrow> js \<Rightarrow> wire_result" where
  "with_hint hint v = \<lparr>r_obj = or_else (obj_of v) [], r_hint = hint\<rparr>"

definition wrappedToolsCall ::
  "result_validators \<Rightarrow> server \<Rightarrow> cache_hint option \<Rightarrow> seam_call \<Rightarrow> (nat \<Rightarrow> shim_round) \<Rightarrow> js
     \<Rightarrow> (err + wire_result) \<times> shim_step list" where
  "wrappedToolsCall rv srv hint call env request =
     (let codec = codecForVersion (sv_negotiated srv) in
      case rv_request rv codec ''tools/call'' request of
        Valid _ \<Rightarrow>
          (case invokeInputRequiredCapableHandler srv ''tools/call'' call env of
             (Inl e, steps) \<Rightarrow> (Inl e, steps)
           | (Inr result, steps) \<Rightarrow>
               if isInputRequiredResult result then (Inr (with_hint hint result), steps)
               else (case rv_result rv codec ''tools/call'' (normalizeContentlessToolResult result) of
                       Valid v \<Rightarrow> (Inr (with_hint None v), steps)
                     | bad \<Rightarrow> (Inl (invalidOutcome ''result'' bad), steps)))
      | bad \<Rightarrow> (Inl (invalidOutcome ''request'' bad), []))"

definition wrapHandler ::
  "result_validators \<Rightarrow> server \<Rightarrow> string \<Rightarrow> cache_hint option \<Rightarrow> seam_call \<Rightarrow> (nat \<Rightarrow> shim_round) \<Rightarrow> js
     \<Rightarrow> (err + wire_result) \<times> shim_step list" where
  "wrapHandler rv srv m hint call env request =
     (if m \<noteq> ''tools/call'' then
        (let cacheHint = or_else (map_of (sv_cacheHints srv) m) None;
             isInputRequiredCapable = m \<in> set INPUT_REQUIRED_CAPABLE_METHODS;
             plain = (sr_handler (env 0) (sc_view call), [ReenterStep (sc_view call)])
         in if cacheHint = None \<and> \<not> isInputRequiredCapable then
              (case plain of
                 (Inl e, steps) \<Rightarrow> (Inl e, steps)
               | (Inr result, steps) \<Rightarrow>
                   if isInputRequiredResult result then (Inl (wrongMethod m), steps) else (Inr (with_hint hint result), steps))
            else
              (case (if isInputRequiredCapable then invokeInputRequiredCapableHandler srv m call env else plain) of
                 (Inl e, steps) \<Rightarrow> (Inl e, steps)
               | (Inr result, steps) \<Rightarrow>
                   if isInputRequiredResult result then
                     (if \<not> isInputRequiredCapable then (Inl (wrongMethod m), steps) else (Inr (with_hint hint result), steps))
                   else (Inr (attachCacheHintFallback (with_hint hint result) cacheHint), steps)))
      else wrappedToolsCall rv srv hint call env request)"

subsection \<open>What may be returned\<close>

definition embedded_declared :: "string \<Rightarrow> obj option \<Rightarrow> obj \<Rightarrow> bool" where
  "embedded_declared m declared ents \<longleftrightarrow>
     list_all (\<lambda>(key, entry).
       case coerceEmbeddedInputRequest m key entry of
         Inl e \<Rightarrow> False
       | Inr (embedded, required) \<Rightarrow> missingClientCapabilities required declared = None) ents"

lemma checkEmbedded_None: "checkEmbedded m declared ents = None \<longleftrightarrow> embedded_declared m declared ents"
  by (induction m declared ents rule: checkEmbedded.induct)
    (auto simp: embedded_declared_def split: sum.splits option.splits)

text \<open>An \<open>input_required\<close> result the client may be given.\<close>

definition returnable :: "server \<Rightarrow> string \<Rightarrow> seam_call \<Rightarrow> js \<Rightarrow> bool" where
  "returnable srv m call v \<longleftrightarrow> m \<in> set INPUT_REQUIRED_CAPABLE_METHODS \<and> servedModernEra srv
     \<and> (entriesOf (getp v ''inputRequests'') \<noteq> [] \<or> isStr (getp v ''requestState''))
     \<and> embedded_declared m (inputRequestCapabilityView srv (sc_envelope call)) (entriesOf (getp v ''inputRequests''))"

lemma embedded_declared_Nil [simp]: "embedded_declared m declared []"
  by (simp add: embedded_declared_def)

lemma checkModernReturn_None:
  "checkModernReturn m declared v = None \<Longrightarrow>
     (entriesOf (getp v ''inputRequests'') \<noteq> [] \<or> isStr (getp v ''requestState''))
     \<and> embedded_declared m declared (entriesOf (getp v ''inputRequests''))"
  by (auto simp: checkModernReturn_def Let_def checkEmbedded_None split: if_splits)

lemma invoke_returns:
  assumes "fst (invokeInputRequiredCapableHandler srv m call env) = Inr v" and "isInputRequiredResult v"
    and "m \<in> set INPUT_REQUIRED_CAPABLE_METHODS"
  shows "returnable srv m call v"
  using assms fulfill_bounds [of "shimHost srv (sc_envelope call)" m "sc_id call" "hosted srv m env" _ 0]
  by (auto simp: invokeInputRequiredCapableHandler_def returnable_def Let_def
      split: prod.splits sum.splits if_splits option.splits dest!: checkModernReturn_None) (metis fst_conv)+

text \<open>
  C33: Whatever a handler returns, an \<open>input_required\<close> result leaves the server only on the
  2026-07-28 revision, for one of the three methods that have it, with requests or a state
  in it, and with every embedded request covered by the capabilities the request declared.
  The hypothesis is of the result schemas: parsing does not make up a \<open>resultType\<close>.
\<close>

theorem input_required_only_where_legal:
  assumes "\<And>era v x. rv_result rv era ''tools/call'' v = Valid x \<Longrightarrow> isInputRequiredResult x \<Longrightarrow> isInputRequiredResult v"
    and "fst (wrapHandler rv srv m hint call env request) = Inr r" and "isInputRequiredResult (JObj (r_obj r))"
  shows "returnable srv m call (JObj (r_obj r))"
proof -
  have obj: "isInputRequiredResult v \<Longrightarrow> JObj (or_else (obj_of v) []) = v" for v
    by (cases v) (auto simp: isInputRequiredResult_def)
  have of_obj: "isInputRequiredResult (JObj (or_else (obj_of v) [])) \<Longrightarrow> isInputRequiredResult v" for v
    by (cases v) (auto simp: isInputRequiredResult_def)
  have hint_obj: "r_obj (attachCacheHintFallback w h) = r_obj w" for w h
    by (auto simp: attachCacheHintFallback_def split: option.splits)
  have norm: "isInputRequiredResult (normalizeContentlessToolResult v) \<Longrightarrow> isInputRequiredResult v" for v
    by (auto simp: normalizeContentlessToolResult_def isInputRequiredResult_def split: js.splits if_splits)
  show ?thesis
  proof (cases "m = ''tools/call''")
    case True
    have capable: "''tools/call'' \<in> set INPUT_REQUIRED_CAPABLE_METHODS" by (simp add: INPUT_REQUIRED_CAPABLE_METHODS_def)
    show ?thesis
      using assms(2,3) True
      by (auto simp: wrapHandler_def wrappedToolsCall_def with_hint_def Let_def obj
          split: prod.splits sum.splits outcome.splits if_splits
          intro!: invoke_returns [of srv "''tools/call''" call env, OF _ _ capable] dest!: of_obj assms(1) norm)
  next
    case False
    then show ?thesis
      using assms(2,3)
      by (auto simp: wrapHandler_def with_hint_def Let_def obj hint_obj
          split: prod.splits sum.splits if_splits dest!: of_obj intro!: invoke_returns [of srv m call env])
  qed
qed

subsection \<open>The echoed state\<close>

text \<open>What a handler may see as its state: nothing, or what the hook made of a state it accepted.\<close>

definition state_verified :: "server \<Rightarrow> (nat \<Rightarrow> shim_round) \<Rightarrow> shim_step list \<Rightarrow> mrtr_view \<Rightarrow> bool" where
  "state_verified srv env steps v \<longleftrightarrow> mv_requestState v = JUndef
     \<or> (\<exists>n s view decoded. VerifyStep s view \<in> set steps
          \<and> sr_verify (env n) s view = Inr decoded \<and> mv_requestState v = (if decoded \<noteq> JUndef then decoded else JStr s))"

lemma state_verified_mono:
  "state_verified srv env steps v \<Longrightarrow> set steps \<subseteq> set steps' \<Longrightarrow> state_verified srv env steps' v"
  unfolding state_verified_def by blast

lemma state_verifiedI:
  assumes "VerifyStep s view \<in> set steps"
    and "sr_verify (env n) s view = Inr decoded" and "mv_requestState v = (if decoded \<noteq> JUndef then decoded else JStr s)"
  shows "state_verified srv env steps v"
  using assms unfolding state_verified_def by blast

lemma verify_configured:
  "sv_verifyConfigured srv \<Longrightarrow> fst (verifyRequestState srv r m s v) = Inr d \<longleftrightarrow> sr_verify r s v = Inr d"
  by (auto simp: verifyRequestState_def split: sum.splits)

lemma reenter_reentered: "ReenterStep v \<in> set steps \<longleftrightarrow> v \<in> set (reentered steps)"
  by (induction steps rule: reentered.induct) auto

lemma verifyRound_verified:
  assumes "verifyRound (hosted srv m env n) st responses = (Inr v, checks)" and "sv_verifyConfigured srv"
  shows "state_verified srv env checks v"
proof (cases st)
  case None
  then show ?thesis using assms by (auto simp: verifyRound_def state_verified_def Let_def)
next
  case (Some s)
  let ?view = "\<lparr>mv_inputResponses = responses, mv_droppedKeys = None, mv_requestState = JStr s\<rparr>"
  have checks: "checks = [VerifyStep s ?view]" using assms(1) Some by (simp add: verifyRound_def Let_def)
  obtain d where d: "sr_verify (env n) s ?view = Inr d" "v = (if d \<noteq> JUndef then withRequestStateValue ?view d else ?view)"
    using assms Some
    by (cases "sr_verify (env n) s ?view") (auto simp: verifyRound_def Let_def hosted_def verifyRequestState_def)
  show ?thesis
    by (rule state_verifiedI [where s = s and view = ?view and env = env and n = n and decoded = d])
      (simp_all add: checks d withRequestStateValue_def)
qed

lemma shimRound_verified:
  assumes "shimRound host m rid (hosted srv m env n) current = (x, steps)" and "sv_verifyConfigured srv"
    and "ReenterStep v \<in> set steps"
  shows "state_verified srv env steps v"
proof -
  let ?ents = "entriesOf (getp current ''inputRequests'')" and ?st = "str_of (getp current ''requestState'')"
  from assms(1,3) obtain responses legs view checks where
    "roundResponses host m rid (hosted srv m env n) ?ents = (Inr responses, legs)"
    "verifyRound (hosted srv m env n) ?st responses = (Inr view, checks)"
    "steps = legs @ checks @ [ReenterStep view]"
    by (auto simp: shimRound_def Let_def reenter_reentered reentered_roundResponses reentered_verifyRound
        split: if_splits prod.splits sum.splits)
  moreover from this assms(3) have "v = view"
    by (simp add: reenter_reentered reentered_roundResponses reentered_verifyRound)
  ultimately show ?thesis
    using verifyRound_verified [of srv m env n ?st responses view checks] assms(2)
    by (auto elim: state_verified_mono)
qed

lemma fulfill_verified:
  assumes "sv_verifyConfigured srv"
  shows "ReenterStep v \<in> set (snd (fulfill host m rid (hosted srv m env) current r0)) \<Longrightarrow>
    state_verified srv env (snd (fulfill host m rid (hosted srv m env) current r0)) v"
proof (induction "sh_maxRounds host - r0" arbitrary: r0 current rule: less_induct)
  case less
  show ?case
  proof (cases "sh_maxRounds host < r0 + 1")
    case True
    then show ?thesis using less.prems by (simp add: fulfill.simps [of host m rid _ current])
  next
    case False
    obtain x steps where x: "shimRound host m rid (hosted srv m env (r0 + 1)) current = (x, steps)" by fastforce
    show ?thesis
    proof (cases x)
      case (Inl out)
      then show ?thesis
        using less.prems False x shimRound_verified [OF x assms] by (simp add: fulfill.simps [of host m rid _ current])
    next
      case (Inr nr)
      obtain out rest where run: "fulfill host m rid (hosted srv m env) nr (r0 + 1) = (out, rest)" by fastforce
      have eq: "snd (fulfill host m rid (hosted srv m env) current r0) = steps @ rest"
        using False x Inr run by (subst fulfill.simps) (simp add: Let_def)
      from less.prems consider "ReenterStep v \<in> set steps" | "ReenterStep v \<in> set rest" unfolding eq by auto
      then show ?thesis
      proof cases
        case 1
        from shimRound_verified [OF x assms this] show ?thesis unfolding eq by (rule state_verified_mono) simp
      next
        case 2
        then have "state_verified srv env rest v"
          using less.hyps [of "r0 + 1" nr] False run by simp
        then show ?thesis unfolding eq by (rule state_verified_mono) auto
      qed
    qed
  qed
qed

lemma verifiedView_verified:
  assumes "verifiedView srv m (env n) view0 = (Inr view, checks)" and "sv_verifyConfigured srv"
  shows "state_verified srv env checks view"
proof (cases "mv_requestState view0")
  case (JStr s)
  have checks: "checks = [VerifyStep s view0]" using assms(1) JStr by (simp add: verifiedView_def)
  obtain d where d: "sr_verify (env n) s view0 = Inr d" "view = (if d \<noteq> JUndef then withRequestStateValue view0 d else view0)"
    using assms JStr by (cases "sr_verify (env n) s view0") (auto simp: verifiedView_def verifyRequestState_def)
  show ?thesis
    by (rule state_verifiedI [where s = s and view = view0 and env = env and n = n and decoded = d])
      (simp_all add: checks d JStr withRequestStateValue_def)
qed (use assms in \<open>auto simp: verifiedView_def state_verified_def\<close>)

lemma invoke_verified:
  assumes "sv_verifyConfigured srv" and "ReenterStep v \<in> set (snd (invokeInputRequiredCapableHandler srv m call env))"
  shows "state_verified srv env (snd (invokeInputRequiredCapableHandler srv m call env)) v"
proof -
  obtain x checks where v: "verifiedView srv m (env 0) (sc_view call) = (x, checks)" by fastforce
  have none: "reentered checks = []"
    using v by (auto simp: verifiedView_def split: js.splits)
  show ?thesis
  proof (cases x)
    case (Inl e)
    then show ?thesis using assms(2) v none by (simp add: invokeInputRequiredCapableHandler_def reenter_reentered)
  next
    case (Inr view)
    let ?run = "\<lambda>result. snd (fulfill (shimHost srv (sc_envelope call)) m (sc_id call) (hosted srv m env) result 0)"
    obtain rest result0 where rest: "snd (invokeInputRequiredCapableHandler srv m call env) = (checks @ [ReenterStep view]) @ rest"
      "rest = [] \<or> rest = ?run result0"
    proof (cases "sr_handler (env 0) view")
      case (Inl e)
      then show thesis using that [of "[]"] v \<open>x = Inr view\<close> by (simp add: invokeInputRequiredCapableHandler_def)
    next
      case handled: (Inr result)
      show thesis
      proof (cases "isInputRequiredResult result \<and> \<not> servedModernEra srv \<and> so_legacyShim (sv_shim srv)")
        case True
        then show thesis using that [of "?run result" result] v \<open>x = Inr view\<close> handled
          by (cases "fulfill (shimHost srv (sc_envelope call)) m (sc_id call) (hosted srv m env) result 0")
            (simp add: invokeInputRequiredCapableHandler_def)
      next
        case False
        then show thesis using that [of "[]"] v \<open>x = Inr view\<close> handled
          by (cases "isInputRequiredResult result"; cases "servedModernEra srv";
              cases "checkModernReturn m (inputRequestCapabilityView srv (sc_envelope call)) result")
            (simp_all add: invokeInputRequiredCapableHandler_def)
      qed
    qed
    have first: "state_verified srv env checks view"
      using verifiedView_verified [of srv m env 0] v Inr assms(1) by blast
    from assms(2) consider "v = view" | "ReenterStep v \<in> set rest"
      unfolding rest(1) using none by (auto simp: reenter_reentered)
    then show ?thesis
    proof cases
      case 1
      then show ?thesis using first unfolding rest(1) by (auto elim: state_verified_mono)
    next
      case 2
      then have "state_verified srv env rest v" using rest(2) fulfill_verified [OF assms(1)] by auto
      then show ?thesis unfolding rest(1) by (rule state_verified_mono) auto
    qed
  qed
qed

text \<open>
  With a verification hook configured, no handler of a multi-round-trip method ever reads an
  unverified state: at its first call and in every round the shim adds, what it reads is
  nothing, or what the hook made of a state it had accepted. A state that is no string, or
  that the hook rejects, is answered by the frozen error and the handler is not called.
\<close>

theorem handlers_see_verified_state:
  assumes "sv_verifyConfigured srv"
  shows "(\<forall>v. ReenterStep v \<in> set (snd (invokeInputRequiredCapableHandler srv m call env)) \<longrightarrow>
      state_verified srv env (snd (invokeInputRequiredCapableHandler srv m call env)) v)
    \<and> (mv_requestState (sc_view call) \<noteq> JUndef
        \<and> (case mv_requestState (sc_view call) of JStr s \<Rightarrow> isl (sr_verify (env 0) s (sc_view call)) | _ \<Rightarrow> True) \<longrightarrow>
       fst (invokeInputRequiredCapableHandler srv m call env) = Inl invalidRequestState
       \<and> reentered (snd (invokeInputRequiredCapableHandler srv m call env)) = [])"
proof (intro conjI allI impI)
  show "state_verified srv env (snd (invokeInputRequiredCapableHandler srv m call env)) v"
    if "ReenterStep v \<in> set (snd (invokeInputRequiredCapableHandler srv m call env))" for v
    using assms that by (rule invoke_verified)
  assume rejected: "mv_requestState (sc_view call) \<noteq> JUndef
        \<and> (case mv_requestState (sc_view call) of JStr s \<Rightarrow> isl (sr_verify (env 0) s (sc_view call)) | _ \<Rightarrow> True)"
  obtain x steps where v: "verifiedView srv m (env 0) (sc_view call) = (x, steps)" by fastforce
  have "x = Inl invalidRequestState \<and> reentered steps = []"
    using rejected assms v
    by (cases "mv_requestState (sc_view call)")
      (auto simp: verifiedView_def verifyRequestState_def isl_def split: sum.splits)
  then show "fst (invokeInputRequiredCapableHandler srv m call env) = Inl invalidRequestState"
    "reentered (snd (invokeInputRequiredCapableHandler srv m call env)) = []"
    using v by (simp_all add: invokeInputRequiredCapableHandler_def)
qed

subsection \<open>Witnesses\<close>

definition demoModern :: server where
  "demoModern = demoServer\<lparr>sv_negotiated := Some ''2026-07-28'', sv_verifyConfigured := True\<rparr>"

definition demoCall :: seam_call where
  "demoCall = \<lparr>sc_envelope = Some [(CLIENT_CAPABILITIES_META_KEY, JObj [(''roots'', JObj [])])], sc_id = JNum (NInt 1),
     sc_view = \<lparr>mv_inputResponses = JUndef, mv_droppedKeys = None, mv_requestState = JStr ''forged''\<rparr>\<rparr>"

definition demoRounds :: "nat \<Rightarrow> shim_round" where
  "demoRounds n = demo_round\<lparr>sr_verify := (\<lambda>s v. Inl (PlainErr ''mac''))\<rparr>"

theorem handlers_see_verified_state_witness:
  "fst (invokeInputRequiredCapableHandler demoModern ''tools/call'' demoCall demoRounds) = Inl invalidRequestState"
  by (rule conjunct1 [OF mp [OF conjunct2 [OF handlers_see_verified_state]]])
    (simp_all add: demoModern_def demoCall_def demoRounds_def)

definition demoValidators :: result_validators where
  "demoValidators = \<lparr>rv_request = (\<lambda>_ _ v. Valid v), rv_result = (\<lambda>_ _ v. Valid v)\<rparr>"

definition demoAsking :: "nat \<Rightarrow> shim_round" where
  "demoAsking n = demo_round\<lparr>sr_handler := (\<lambda>_. Inr demo_roots)\<rparr>"

definition demoFresh :: seam_call where
  "demoFresh = demoCall\<lparr>sc_view := \<lparr>mv_inputResponses = JUndef, mv_droppedKeys = None, mv_requestState = JUndef\<rparr>\<rparr>"

lemma demo_asking:
  "fst (wrapHandler demoValidators demoModern ''tools/call'' None demoFresh demoAsking JUndef)
     = Inr \<lparr>r_obj = the (obj_of demo_roots), r_hint = None\<rparr>"
  by code_simp

theorem input_required_only_where_legal_witness:
  "returnable demoModern ''tools/call'' demoFresh demo_roots"
proof -
  have obj: "JObj (r_obj \<lparr>r_obj = the (obj_of demo_roots), r_hint = None\<rparr>) = demo_roots" by code_simp
  have ir: "isInputRequiredResult (JObj (r_obj \<lparr>r_obj = the (obj_of demo_roots), r_hint = None\<rparr>))" by code_simp
  show ?thesis
    using input_required_only_where_legal [OF _ demo_asking ir] unfolding obj
    by (simp add: demoValidators_def)
qed

end
