(* ===== verification/StdioBuffer.thy ===== *)
theory StdioBuffer
  imports Json Guards Errors
begin

text \<open>
  The framing of the stdio transports (packages/core-internal/src/shared/stdio.ts and the
  data handlers of the client's and the server's stdio.ts): chunks of bytes are buffered and
  split at newlines, each line is a JSON text and must be a JSON-RPC message.

  The decoding of a line's bytes to text is the argument \<open>decode\<close>. The locale \<open>text_codec\<close>
  states what the round trip needs of it and of the encoder the other side writes with, and
  is interpreted on UTF-8 (theory HeaderCodec). Handlers that a delivered message runs are
  outside: the model lists what is delivered.
\<close>

type_synonym bytes = "nat list"

definition STDIO_DEFAULT_MAX_BUFFER_SIZE :: int where
  "STDIO_DEFAULT_MAX_BUFFER_SIZE = 10 * 1024 * 1024"

record read_buffer =
  rb_buffer :: "bytes option"
  rb_maxBufferSize :: int

definition newReadBuffer :: "int option \<Rightarrow> read_buffer" where
  "newReadBuffer maxBufferSize =
     \<lparr>rb_buffer = None, rb_maxBufferSize = or_else maxBufferSize STDIO_DEFAULT_MAX_BUFFER_SIZE\<rparr>"

definition clearBuffer :: "read_buffer \<Rightarrow> read_buffer" where
  "clearBuffer rb = rb\<lparr>rb_buffer := None\<rparr>"

definition bufferExceeded :: "read_buffer \<Rightarrow> err" where
  "bufferExceeded rb = PlainErr (''ReadBuffer exceeded maximum size of '' @ show_int (rb_maxBufferSize rb) @ '' bytes'')"

definition appendChunk :: "bytes \<Rightarrow> read_buffer \<Rightarrow> err option \<times> read_buffer" where
  "appendChunk chunk rb =
     (let held = or_else (rb_buffer rb) []; newSize = int (length held + length chunk) in
      if rb_maxBufferSize rb < newSize then (Some (bufferExceeded rb), clearBuffer rb)
      else (None, rb\<lparr>rb_buffer := Some (held @ chunk)\<rparr>))"

definition NEWLINE :: nat where
  "NEWLINE = 10"

text \<open>\<open>.replace(/\r$/, '')\<close>\<close>

definition stripCR :: "string \<Rightarrow> string" where
  "stripCR s = (if s \<noteq> [] \<and> last s = CHR 0x0D then butlast s else s)"

definition schemaError :: err where
  "schemaError = PlainErr ''ZodError''"

definition syntaxError :: err where
  "syntaxError = SyntaxErr ''JSON.parse''"

definition deserializeMessage :: "(string \<Rightarrow> jnum) \<Rightarrow> string \<Rightarrow> err + js" where
  "deserializeMessage num line =
     (case JSON_parse num line of
        None \<Rightarrow> Inl syntaxError
      | Some v \<Rightarrow> if isJSONRPCMessage v then Inr v else Inl schemaError)"

definition serializeMessage :: "js \<Rightarrow> string" where
  "serializeMessage message = json_text message @ [CHR 0x0A]"

fun isSyntaxError :: "err \<Rightarrow> bool" where
  "isSyntaxError (SyntaxErr _) = True"
| "isSyntaxError _ = False"

text \<open>The line before the first newline and what follows it.\<close>

fun splitLine :: "bytes \<Rightarrow> (bytes \<times> bytes) option" where
  "splitLine [] = None"
| "splitLine (b # bs) =
     (if b = NEWLINE then Some ([], bs) else map_option (apfst ((#) b)) (splitLine bs))"

lemma splitLine_Some: "splitLine bs = Some (line, rest) \<longleftrightarrow> bs = line @ NEWLINE # rest \<and> NEWLINE \<notin> set line"
proof (induction bs arbitrary: line)
  case (Cons b bs)
  then show ?case by (cases line) auto
qed simp

lemma splitLine_None: "splitLine bs = None \<longleftrightarrow> NEWLINE \<notin> set bs"
  by (induction bs) auto

lemma splitLine_length: "splitLine bs = Some (line, rest) \<Longrightarrow> length rest < length bs"
  by (simp add: splitLine_Some)

text \<open>
  \<open>readMessage\<close>: \<open>None\<close> is \<open>null\<close>. The loop skips lines that are not JSON; it ends because
  each turn drops a line from the buffer.
\<close>

function readMessage :: "(bytes \<Rightarrow> string) \<Rightarrow> (string \<Rightarrow> jnum) \<Rightarrow> read_buffer \<Rightarrow> (err + js) option \<times> read_buffer" where
  "readMessage decode num rb =
     (case rb_buffer rb of
        None \<Rightarrow> (None, rb)
      | Some bs \<Rightarrow>
          (case splitLine bs of
             None \<Rightarrow> (None, rb)
           | Some (line, rest) \<Rightarrow>
               (case deserializeMessage num (stripCR (decode line)) of
                  Inr message \<Rightarrow> (Some (Inr message), rb\<lparr>rb_buffer := Some rest\<rparr>)
                | Inl e \<Rightarrow>
                    if isSyntaxError e then readMessage decode num (rb\<lparr>rb_buffer := Some rest\<rparr>)
                    else (Some (Inl e), rb\<lparr>rb_buffer := Some rest\<rparr>))))"
  by pat_completeness auto

termination readMessage
  by (relation "measure (\<lambda>(decode, num, rb). length (or_else (rb_buffer rb) []))") (auto dest: splitLine_length)

declare readMessage.simps [simp del]

lemma readMessage_shrinks:
  "readMessage decode num rb = (Some r, rb') \<Longrightarrow>
     length (or_else (rb_buffer rb') []) < length (or_else (rb_buffer rb) [])"
proof (induction decode num rb rule: readMessage.induct)
  case (1 decode num rb)
  show ?case
    using 1 by (subst (asm) (2) readMessage.simps)
      (fastforce dest: splitLine_length split: option.splits sum.splits if_splits)
qed

text \<open>\<open>processReadBuffer\<close>: what is delivered (\<open>Inr\<close> to \<open>onmessage\<close>, \<open>Inl\<close> to \<open>onerror\<close>) until \<open>null\<close>.\<close>

function processReadBuffer :: "(bytes \<Rightarrow> string) \<Rightarrow> (string \<Rightarrow> jnum) \<Rightarrow> read_buffer \<Rightarrow> (err + js) list \<times> read_buffer" where
  "processReadBuffer decode num rb =
     (case readMessage decode num rb of
        (None, rb') \<Rightarrow> ([], rb')
      | (Some r, rb') \<Rightarrow> (case processReadBuffer decode num rb' of (rs, rb'') \<Rightarrow> (r # rs, rb'')))"
  by pat_completeness auto

termination processReadBuffer
  by (relation "measure (\<lambda>(decode, num, rb). length (or_else (rb_buffer rb) []))") (auto dest: readMessage_shrinks [OF sym])

declare processReadBuffer.simps [simp del]

text \<open>The data handler. An overflow is delivered as an error, and the transport closes.\<close>

definition onData :: "(bytes \<Rightarrow> string) \<Rightarrow> (string \<Rightarrow> jnum) \<Rightarrow> bytes \<Rightarrow> read_buffer \<Rightarrow> (err + js) list \<times> bool \<times> read_buffer" where
  "onData decode num chunk rb =
     (case appendChunk chunk rb of
        (Some e, rb') \<Rightarrow> ([Inl e], True, rb')
      | (None, rb') \<Rightarrow> (case processReadBuffer decode num rb' of (rs, rb'') \<Rightarrow> (rs, False, rb'')))"

text \<open>A stream of chunks, up to the overflow if there is one.\<close>

fun feed :: "(bytes \<Rightarrow> string) \<Rightarrow> (string \<Rightarrow> jnum) \<Rightarrow> bytes list \<Rightarrow> read_buffer \<Rightarrow> (err + js) list \<times> bool \<times> read_buffer" where
  "feed decode num [] rb = ([], False, rb)"
| "feed decode num (chunk # chunks) rb =
     (case onData decode num chunk rb of
        (rs, closed, rb') \<Rightarrow>
          if closed then (rs, True, rb')
          else (case feed decode num chunks rb' of (rs', c, rb'') \<Rightarrow> (rs @ rs', c, rb'')))"

subsection \<open>The specification: line by line\<close>

text \<open>The complete lines of a byte sequence, and the unfinished one.\<close>

function linesOf :: "bytes \<Rightarrow> bytes list" where
  "linesOf bs = (case splitLine bs of None \<Rightarrow> [] | Some (line, rest) \<Rightarrow> line # linesOf rest)"
  by pat_completeness auto

termination linesOf
  by (relation "measure length") (auto dest: splitLine_length)

declare linesOf.simps [simp del]

definition remainder :: "bytes \<Rightarrow> bytes" where
  "remainder bs = rev (takeWhile (\<lambda>b. b \<noteq> NEWLINE) (rev bs))"

definition lineOutput :: "(bytes \<Rightarrow> string) \<Rightarrow> (string \<Rightarrow> jnum) \<Rightarrow> bytes \<Rightarrow> (err + js) list" where
  "lineOutput decode num line =
     (case deserializeMessage num (stripCR (decode line)) of
        Inr message \<Rightarrow> [Inr message]
      | Inl e \<Rightarrow> if isSyntaxError e then [] else [Inl e])"

definition streamOutput :: "(bytes \<Rightarrow> string) \<Rightarrow> (string \<Rightarrow> jnum) \<Rightarrow> bytes \<Rightarrow> (err + js) list" where
  "streamOutput decode num bs = concat (map (lineOutput decode num) (linesOf bs))"

lemma linesOf_line: "NEWLINE \<notin> set line \<Longrightarrow> linesOf (line @ NEWLINE # rest) = line # linesOf rest"
  by (subst linesOf.simps) (simp add: splitLine_Some [THEN iffD2])

lemma linesOf_none: "NEWLINE \<notin> set bs \<Longrightarrow> linesOf bs = []"
  by (subst linesOf.simps) (simp add: splitLine_None [THEN iffD2])

lemma remainder_line [simp]: "remainder (xs @ NEWLINE # rest) = remainder rest"
  by (simp add: remainder_def takeWhile_append takeWhile_tail)
    (metis (mono_tags, lifting) set_rev takeWhile_eq_all_conv)

lemma remainder_none: "NEWLINE \<notin> set bs \<Longrightarrow> remainder bs = bs"
  by (metis (mono_tags, lifting) remainder_def rev_rev_ident set_rev takeWhile_eq_all_conv)

lemma bytes_cases:
  obtains "NEWLINE \<notin> set bs" | line rest where "bs = line @ NEWLINE # rest" "NEWLINE \<notin> set line"
  by (cases "splitLine bs") (auto simp: splitLine_Some splitLine_None)

text \<open>Lines can be split off anywhere: what is left of the first part is completed by the second.\<close>

lemma linesOf_append: "linesOf (a @ b) = linesOf a @ linesOf (remainder a @ b)"
proof (induction "length a" arbitrary: a rule: less_induct)
  case less
  show ?case
  proof (cases rule: bytes_cases [of a])
    case 1
    then show ?thesis by (simp add: linesOf_none remainder_none)
  next
    case (2 line rest)
    then show ?thesis
      using less [of rest] linesOf_line [of line "rest @ b"] by (simp add: linesOf_line)
  qed
qed

lemma remainder_append: "remainder (a @ b) = remainder (remainder a @ b)"
proof (induction "length a" arbitrary: a rule: less_induct)
  case less
  show ?case
  proof (cases rule: bytes_cases [of a])
    case 1
    then show ?thesis by (simp add: remainder_none)
  next
    case (2 line rest)
    then show ?thesis using less [of rest] remainder_line [of line "rest @ b"] by simp
  qed
qed

lemma processReadBuffer_output:
  "rb_buffer rb = Some bs \<Longrightarrow>
   processReadBuffer decode num rb = (streamOutput decode num bs, rb\<lparr>rb_buffer := Some (remainder bs)\<rparr>)"
proof (induction "length bs" arbitrary: bs rb rule: less_induct)
  case less
  show ?case
  proof (cases rule: bytes_cases [of bs])
    case 1
    then show ?thesis
      using less.prems splitLine_None [of bs]
      by (simp add: processReadBuffer.simps [of decode num rb] readMessage.simps [of decode num rb]
          streamOutput_def linesOf_none remainder_none)
  next
    case (2 line rest)
    let ?rb = "rb\<lparr>rb_buffer := Some rest\<rparr>"
    have rest: "processReadBuffer decode num ?rb = (streamOutput decode num rest, ?rb\<lparr>rb_buffer := Some (remainder rest)\<rparr>)"
      using less.hyps [of rest ?rb] 2 by simp
    have "splitLine bs = Some (line, rest)" using 2 by (simp add: splitLine_Some)
    then have read: "readMessage decode num rb =
        (case deserializeMessage num (stripCR (decode line)) of
           Inr message \<Rightarrow> (Some (Inr message), ?rb)
         | Inl e \<Rightarrow> if isSyntaxError e then readMessage decode num ?rb else (Some (Inl e), ?rb))"
      by (subst readMessage.simps) (simp add: less.prems)
    have out: "streamOutput decode num (line @ NEWLINE # rest) = lineOutput decode num line @ streamOutput decode num rest"
      using 2 by (simp add: streamOutput_def linesOf_line)
    show ?thesis
      using rest 2
      by (auto simp: processReadBuffer.simps [of decode num rb] read out lineOutput_def
          processReadBuffer.simps [of decode num ?rb] split: sum.splits)
  qed
qed

lemma remainder_no_newline: "NEWLINE \<notin> set (remainder bs)"
  by (auto simp: remainder_def dest: set_takeWhileD)

lemma streamOutput_append: "streamOutput decode num (a @ b) = streamOutput decode num a @ streamOutput decode num (remainder a @ b)"
  by (simp add: streamOutput_def linesOf_append [of a b])

lemma remainder_length: "length (remainder bs) \<le> length bs"
  by (metis length_rev length_takeWhile_le remainder_def)

lemma feed_output:
  assumes "feed decode num chunks rb = (rs, False, rb')" "NEWLINE \<notin> set (or_else (rb_buffer rb) [])"
  shows "rs = streamOutput decode num (or_else (rb_buffer rb) [] @ concat chunks)
    \<and> or_else (rb_buffer rb') [] = remainder (or_else (rb_buffer rb) [] @ concat chunks)"
  using assms
proof (induction chunks arbitrary: rb rs)
  case Nil
  then show ?case by (simp add: streamOutput_def linesOf_none remainder_none)
next
  case (Cons chunk chunks)
  let ?held = "or_else (rb_buffer rb) []"
  have ok: "\<not> rb_maxBufferSize rb < int (length ?held + length chunk)"
    using Cons.prems(1) by (auto simp: onData_def appendChunk_def Let_def split: if_splits)
  let ?rb1 = "rb\<lparr>rb_buffer := Some (remainder (?held @ chunk))\<rparr>"
  have data: "onData decode num chunk rb = (streamOutput decode num (?held @ chunk), False, ?rb1)"
    using ok processReadBuffer_output [of "rb\<lparr>rb_buffer := Some (?held @ chunk)\<rparr>" "?held @ chunk" decode num]
    by (simp add: onData_def appendChunk_def Let_def)
  obtain rs' where rs': "feed decode num chunks ?rb1 = (rs', False, rb')" and rs: "rs = streamOutput decode num (?held @ chunk) @ rs'"
    using Cons.prems(1) by (auto simp: data split: prod.splits)
  show ?case
    using Cons.IH [OF rs'] remainder_no_newline [of "?held @ chunk"]
      streamOutput_append [of decode num "?held @ chunk" "concat chunks"]
      remainder_append [of "?held @ chunk" "concat chunks"]
    by (simp add: rs)
qed

text \<open>A stream whose bytes fit into the buffer never overflows it.\<close>

lemma feed_fits:
  assumes "int (length (or_else (rb_buffer rb) [] @ concat chunks)) \<le> rb_maxBufferSize rb"
  shows "\<exists>rs rb'. feed decode num chunks rb = (rs, False, rb')"
  using assms
proof (induction chunks arbitrary: rb)
  case (Cons chunk chunks)
  let ?held = "or_else (rb_buffer rb) []"
  let ?rb1 = "rb\<lparr>rb_buffer := Some (remainder (?held @ chunk))\<rparr>"
  have data: "onData decode num chunk rb = (streamOutput decode num (?held @ chunk), False, ?rb1)"
    using Cons.prems processReadBuffer_output [of "rb\<lparr>rb_buffer := Some (?held @ chunk)\<rparr>" "?held @ chunk" decode num]
    by (simp add: onData_def appendChunk_def Let_def)
  have "\<exists>rs rb'. feed decode num chunks ?rb1 = (rs, False, rb')"
    using Cons.prems remainder_length [of "?held @ chunk"] by (intro Cons.IH) simp
  then show ?case by (auto simp: data)
qed simp


subsection \<open>The buffer is bounded\<close>

text \<open>
  The buffer never holds more than its limit (10 MiB by default); a chunk that would
  exceed it is reported as the last thing delivered, the buffer is dropped and the
  transport closes.
\<close>

lemma feed_bounded:
  assumes "feed decode num chunks rb = (rs, closed, rb')"
    "int (length (or_else (rb_buffer rb) [])) \<le> max 0 (rb_maxBufferSize rb)"
  shows "int (length (or_else (rb_buffer rb') [])) \<le> max 0 (rb_maxBufferSize rb)
    \<and> (closed \<longrightarrow> rb_buffer rb' = None \<and> rs \<noteq> [] \<and> last rs = Inl (bufferExceeded rb))"
  using assms
proof (induction chunks arbitrary: rb rs)
  case (Cons chunk chunks)
  let ?held = "or_else (rb_buffer rb) []"
  show ?case
  proof (cases "rb_maxBufferSize rb < int (length ?held + length chunk)")
    case True
    then show ?thesis
      using Cons.prems(1) by (auto simp: onData_def appendChunk_def Let_def clearBuffer_def)
  next
    case False
    let ?rb1 = "rb\<lparr>rb_buffer := Some (remainder (?held @ chunk))\<rparr>"
    have data: "onData decode num chunk rb = (streamOutput decode num (?held @ chunk), False, ?rb1)"
      using False processReadBuffer_output [of "rb\<lparr>rb_buffer := Some (?held @ chunk)\<rparr>" "?held @ chunk" decode num]
      by (simp add: onData_def appendChunk_def Let_def)
    obtain rs' where rs': "feed decode num chunks ?rb1 = (rs', closed, rb')"
      and rs: "rs = streamOutput decode num (?held @ chunk) @ rs'"
      using Cons.prems(1) by (auto simp: data split: prod.splits)
    have "int (length (remainder (?held @ chunk))) \<le> max 0 (rb_maxBufferSize rb)"
      using False remainder_length [of "?held @ chunk"] by simp
    then show ?thesis
      using Cons.IH [OF rs'] by (simp add: rs bufferExceeded_def)
  qed
qed simp

theorem read_buffer_is_bounded:
  assumes "feed decode num chunks (newReadBuffer maxBufferSize) = (rs, closed, rb)"
  shows "int (length (or_else (rb_buffer rb) [])) \<le> max 0 (or_else maxBufferSize (10 * 1024 * 1024))
    \<and> (closed \<longrightarrow> rb_buffer rb = None \<and> rs \<noteq> [] \<and> last rs = Inl (bufferExceeded (newReadBuffer maxBufferSize)))"
  using feed_bounded [OF assms] by (simp add: newReadBuffer_def STDIO_DEFAULT_MAX_BUFFER_SIZE_def)

subsection \<open>What one side writes the other reads\<close>

text \<open>
  What is needed of the text encoding on the pipe: decoding inverts encoding, and the byte
  10 stands for the newline and nothing else.
\<close>

locale text_codec =
  fixes encode :: "string \<Rightarrow> bytes"
    and decode :: "bytes \<Rightarrow> string"
  assumes decode_encode: "decode (encode s) = s"
    and encode_newline: "encode (s @ [CHR 0x0A]) = encode s @ [NEWLINE]"
    and encode_line: "CHR 0x0A \<notin> set s \<Longrightarrow> NEWLINE \<notin> set (encode s)"
begin

lemma text_has_no_newline: "json_value num v \<Longrightarrow> CHR 0x0A \<notin> set (json_text v)"
  using json_text_printable [of num v "CHR 0x0A"] by (auto simp: code_def)

lemma stripCR_text: "json_value num v \<Longrightarrow> stripCR (json_text v) = json_text v"
proof -
  assume v: "json_value num v"
  have "last (json_text v) \<noteq> CHR 0x0D" if "json_text v \<noteq> []"
    using json_text_printable [OF v last_in_set [OF that]] by (auto simp: code_def)
  then show ?thesis by (auto simp: stripCR_def)
qed

lemma line_output:
  assumes "json_value num v" "isJSONRPCMessage v"
  shows "lineOutput decode num (encode (json_text v)) = [Inr v]"
  using assms by (simp add: lineOutput_def decode_encode stripCR_text deserializeMessage_def json_roundtrip)

lemma messages_output:
  assumes "\<forall>v \<in> set ms. json_value num v \<and> isJSONRPCMessage v"
  shows "streamOutput decode num (concat (map (\<lambda>v. encode (serializeMessage v)) ms)) = map Inr ms"
  using assms
proof (induction ms)
  case (Cons v ms)
  have "NEWLINE \<notin> set (encode (json_text v))"
    using Cons.prems text_has_no_newline by (intro encode_line) auto
  from linesOf_line [OF this] show ?case
    using Cons line_output [of num v] by (simp add: streamOutput_def serializeMessage_def encode_newline)
qed (simp add: streamOutput_def linesOf_none)

end

text \<open>
  UTF-8 on the strings of the model. Bytes that are not UTF-8, or that encode a unit above
  255, have no counterpart among them and decode to question marks.
\<close>

definition utf8_encode :: "string \<Rightarrow> bytes" where
  "utf8_encode s = textEncoder (units s)"

definition utf8_text :: "bytes \<Rightarrow> string" where
  "utf8_text bs =
     (case HeaderCodec.utf8_decode bs of
        None \<Rightarrow> ''?''
      | Some cs \<Rightarrow> map (\<lambda>c. if c < 256 then char_of c else CHR ''?'') cs)"

lemma scalars_units: "scalars (units s) = units s"
proof (induction s)
  case (Cons c s)
  have "\<not> is_high (code c) \<and> \<not> is_low (code c)"
    using code_lt [of c] unfolding is_high_def is_low_def by linarith
  with Cons show ?case by (cases s) (simp_all add: units_def)
qed (simp add: units_def)

lemma scalar_code: "scalar (code c)"
  using code_lt [of c] unfolding scalar_def by linarith

lemma utf8_encode_units: "utf8_encode s = concat (map utf8_scalar (units s))"
  by (simp add: utf8_encode_def textEncoder_def scalars_units)

lemma utf8_scalar_newline: "NEWLINE \<in> set (utf8_scalar c) \<longleftrightarrow> c = NEWLINE"
  by (auto simp: utf8_scalar_def NEWLINE_def)

lemma newline_char: "char_of (10::nat) = CHR 0x0A"
  by (simp add: char_literal)

interpretation utf8: text_codec utf8_encode utf8_text
proof
  fix s
  have "HeaderCodec.utf8_decode (utf8_encode s) = Some (units s)"
    unfolding utf8_encode_units by (rule utf8_decode_scalars) (auto simp: units_def scalar_code)
  then show "utf8_text (utf8_encode s) = s"
    by (simp add: utf8_text_def units_def comp_def)
next
  fix s
  show "utf8_encode (s @ [CHR 0x0A]) = utf8_encode s @ [NEWLINE]"
    by (simp add: utf8_encode_units units_def code_def utf8_scalar_def NEWLINE_def)
next
  fix s
  assume nl: "CHR 0x0A \<notin> set s"
  have "c \<noteq> CHR 0x0A" if "c \<in> set s" for c
    using that nl by metis
  then have "code c \<noteq> NEWLINE" if "c \<in> set s" for c
    using that char_of_code [of c] by (metis NEWLINE_def newline_char)
  then show "NEWLINE \<notin> set (utf8_encode s)"
    by (auto simp: utf8_encode_units units_def utf8_scalar_newline)
qed


subsection \<open>Witnesses\<close>

definition demoMessage :: js where
  "demoMessage = JObj [(''jsonrpc'', JStr ''2.0''), (''method'', JStr ''m'')]"

definition demoCodes :: "string \<Rightarrow> jnum" where
  "demoCodes t = NNaN"

definition demoBytes :: bytes where
  "demoBytes = utf8_encode (serializeMessage demoMessage)"

lemma demo_message: "json_value demoCodes demoMessage" "isJSONRPCMessage demoMessage"
  by (simp add: demoMessage_def owf_def okeys_def) code_simp

definition demoBuffer :: "int option" where
  "demoBuffer = Some (int (length demoBytes))"

lemma demo_feed: "\<exists>rs rb. feed utf8_text demoCodes [take 5 demoBytes, drop 5 demoBytes] (newReadBuffer demoBuffer) = (rs, False, rb)"
  by (rule feed_fits) (simp add: newReadBuffer_def demoBuffer_def)


theorem read_buffer_is_bounded_witness:
  "int (length (or_else (rb_buffer (snd (snd (feed utf8_text demoCodes [[NEWLINE, 1, 2]] (newReadBuffer (Some 3)))))) [])) \<le> 3"
proof -
  obtain rs closed rb where f: "feed utf8_text demoCodes [[NEWLINE, 1, 2]] (newReadBuffer (Some 3)) = (rs, closed, rb)"
    by (metis prod_cases3)
  from read_buffer_is_bounded [OF f] show ?thesis unfolding f by simp
qed


end
