(* ===== verification/RequestStateCodec.thy ===== *)
theory RequestStateCodec
  imports StdioBuffer
begin

text \<open>
  The signed request state of multi-round-trip requests
  (packages/server/src/server/requestStateCodec.ts).

  Web Crypto is the argument \<open>hmac\<close>: HMAC-SHA256 of a message under a key, which
  \<open>subtle.verify\<close> recomputes. The handler's context has type \<open>'c\<close>. Clock readings are integer
  milliseconds, \<open>ttlSeconds\<close> is an integer or one of the non-finite numbers the constructor
  refuses. \<open>floorOf\<close> is the floor of a fractional \<open>exp\<close>, which decides its comparison with
  the integer seconds of the clock.
\<close>

subsection \<open>Base64url\<close>

definition asciiWhitespace :: "nat \<Rightarrow> bool" where
  "asciiWhitespace u \<longleftrightarrow> u \<in> {9, 10, 12, 13, 32}"

text \<open>\<open>atob\<close> with its forgiving treatment of white space and of missing padding; it throws on anything else.\<close>

definition atobForgiving :: "ustr \<Rightarrow> bytes option" where
  "atobForgiving s =
     (let s1 = filter (\<lambda>u. \<not> asciiWhitespace u) s;
          s2 = (if length s1 mod 4 = 0 \<and> uends s1 [61, 61] then take (length s1 - 2) s1
                else if length s1 mod 4 = 0 \<and> uends s1 [61] then take (length s1 - 1) s1 else s1)
      in if length s2 mod 4 = 1 \<or> \<not> list_all b64_alpha s2 then None
         else Some (HeaderCodec.atob (s2 @ replicate ((4 - length s2 mod 4) mod 4) 61)))"

definition bytesToBase64Url :: "bytes \<Rightarrow> string" where
  "bytesToBase64Url bs =
     map char_of (rev (dropWhile (\<lambda>u. u = 61)
       (rev (map (\<lambda>u. if u = 43 then 45 else if u = 47 then 95 else u) (HeaderCodec.btoa bs)))))"

definition base64UrlToBytes :: "string \<Rightarrow> bytes option" where
  "base64UrlToBytes s = atobForgiving (map (\<lambda>u. if u = 45 then 43 else if u = 95 then 47 else u) (units s))"

text \<open>The XOR accumulator over strings of equal length.\<close>

definition constantTimeTagEqual :: "string \<Rightarrow> string \<Rightarrow> bool" where
  "constantTimeTagEqual a b =
     (if length a \<noteq> length b then False
      else fold (\<lambda>(x, y) r. Bit_Operations.or r (Bit_Operations.xor (code x) (code y))) (zip a b) 0 = (0::nat))"

subsection \<open>The codec\<close>

definition PREFIX :: string where
  "PREFIX = ''v1.''"

definition BIND_LABEL :: string where
  "BIND_LABEL = ''mcp.requestState.bind:''"

datatype ttl_seconds = Seconds int | NotFinite

record 'c state_codec =
  sc_key :: bytes
  sc_ttlSeconds :: int
  sc_bind :: "('c \<Rightarrow> string) option"

text \<open>The checks of the constructor. The key is a byte array or a string, encoded as UTF-8.\<close>

definition createRequestStateCodec ::
  "string + bytes \<Rightarrow> ttl_seconds option \<Rightarrow> ('c \<Rightarrow> string) option \<Rightarrow> err + 'c state_codec" where
  "createRequestStateCodec key ttlSeconds bind_cb =
     (let keyBytes = (case key of Inl s \<Rightarrow> utf8_encode s | Inr bs \<Rightarrow> bs) in
      if length keyBytes < 32 then
        Inl (RangeErr (''createRequestStateCodec: key must be at least 32 bytes (got '' @ show_int (int (length keyBytes)) @ '')''))
      else (case or_else ttlSeconds (Seconds 600) of
              NotFinite \<Rightarrow> Inl (RangeErr ''createRequestStateCodec: ttlSeconds must be a finite number'')
            | Seconds n \<Rightarrow> Inr \<lparr>sc_key = keyBytes, sc_ttlSeconds = n, sc_bind = bind_cb\<rparr>))"

definition bindTag :: "(bytes \<Rightarrow> bytes \<Rightarrow> bytes) \<Rightarrow> 'c state_codec \<Rightarrow> string \<Rightarrow> string" where
  "bindTag hmac codec v = bytesToBase64Url (take 16 (hmac (sc_key codec) (utf8_encode (BIND_LABEL @ v))))"

definition mintEnvelope :: "js \<Rightarrow> int \<Rightarrow> string option \<Rightarrow> obj" where
  "mintEnvelope payload expiry b =
     [(''p'', payload), (''exp'', JNum (NInt expiry))] @ (case b of None \<Rightarrow> [] | Some t \<Rightarrow> [(''b'', JStr t)])"

definition seal :: "(bytes \<Rightarrow> bytes \<Rightarrow> bytes) \<Rightarrow> 'c state_codec \<Rightarrow> obj \<Rightarrow> string" where
  "seal hmac codec envelope =
     (let body = bytesToBase64Url (utf8_encode (json_text (JObj envelope)))
      in PREFIX @ body @ ''.'' @ bytesToBase64Url (hmac (sc_key codec) (utf8_encode (PREFIX @ body))))"

definition mint :: "(bytes \<Rightarrow> bytes \<Rightarrow> bytes) \<Rightarrow> 'c state_codec \<Rightarrow> int \<Rightarrow> js \<Rightarrow> 'c option \<Rightarrow> err + string" where
  "mint hmac codec now payload ctx =
     (let expiry = now div 1000 + sc_ttlSeconds codec in
      case sc_bind codec of
        None \<Rightarrow> Inr (seal hmac codec (mintEnvelope payload expiry None))
      | Some bind_cb \<Rightarrow>
          (case ctx of
             None \<Rightarrow> Inl (TypeErr ''createRequestStateCodec: mint() requires ctx when a bind callback is configured'')
           | Some c \<Rightarrow> Inr (seal hmac codec (mintEnvelope payload expiry (Some (bindTag hmac codec (bind_cb c)))))))"

text \<open>\<open>state.lastIndexOf('.')\<close>\<close>

definition lastDot :: "string \<Rightarrow> nat option" where
  "lastDot s = (if CHR ''.'' \<in> set s then Some (length s - 1 - length (takeWhile (\<lambda>c. c \<noteq> CHR ''.'') (rev s))) else None)"

definition malformed :: err where "malformed = PlainErr ''malformed''"
definition badMac :: err where "badMac = PlainErr ''mac''"
definition expired :: err where "expired = PlainErr ''expired''"
definition badBind :: err where "badBind = PlainErr ''bind''"

definition expiredAt :: "(string \<Rightarrow> int) \<Rightarrow> int \<Rightarrow> js \<Rightarrow> bool" where
  "expiredAt floorOf now e =
     (case e of
        JNum (NInt n) \<Rightarrow> n < now div 1000
      | JNum (NFrac t) \<Rightarrow> floorOf t < now div 1000
      | JNum NNegInf \<Rightarrow> True
      | JNum _ \<Rightarrow> False
      | _ \<Rightarrow> True)"

text \<open>
  The comparison of the envelope's tag. A tag that is not a string was not written by
  \<open>mint\<close>: \<open>null\<close> has no length, an array or object of the right length no \<open>codePointAt\<close>.
\<close>

definition tagMatches :: "js \<Rightarrow> string \<Rightarrow> err + bool" where
  "tagMatches b tag =
     (case b of
        JStr s \<Rightarrow> Inr (constantTimeTagEqual s tag)
      | JNull \<Rightarrow> Inl (TypeErr ''null'')
      | JArr vs \<Rightarrow> if length vs = length tag then Inl (TypeErr ''codePointAt'') else Inr False
      | JObj o' \<Rightarrow> if oget o' ''length'' = JNum (NInt (int (length tag))) then Inl (TypeErr ''codePointAt'') else Inr False
      | _ \<Rightarrow> Inr False)"

definition verifyEnvelope ::
  "(bytes \<Rightarrow> bytes \<Rightarrow> bytes) \<Rightarrow> (string \<Rightarrow> int) \<Rightarrow> 'c state_codec \<Rightarrow> int \<Rightarrow> 'c \<Rightarrow> js \<Rightarrow> err + js" where
  "verifyEnvelope hmac floorOf codec now ctx envelope =
     (if envelope = JNull then Inl (TypeErr ''null'')
      else if expiredAt floorOf now (getp envelope ''exp'') then Inl expired
      else (case sc_bind codec of
              Some bind_cb \<Rightarrow>
                if getp envelope ''b'' = JUndef then Inl badBind
                else (case tagMatches (getp envelope ''b'') (bindTag hmac codec (bind_cb ctx)) of
                        Inl e \<Rightarrow> Inl e
                      | Inr False \<Rightarrow> Inl badBind
                      | Inr True \<Rightarrow> Inr (getp envelope ''p''))
            | None \<Rightarrow> if getp envelope ''b'' \<noteq> JUndef then Inl badBind else Inr (getp envelope ''p'')))"

text \<open>The text of a body: base64url, then fatal UTF-8.\<close>

definition bodyText :: "string \<Rightarrow> string option" where
  "bodyText bdy =
     (case base64UrlToBytes bdy of
        None \<Rightarrow> None
      | Some bs \<Rightarrow> map_option latin1 (textDecoder bs))"

definition verify ::
  "(bytes \<Rightarrow> bytes \<Rightarrow> bytes) \<Rightarrow> (string \<Rightarrow> jnum) \<Rightarrow> (string \<Rightarrow> int) \<Rightarrow> 'c state_codec \<Rightarrow> int \<Rightarrow> string \<Rightarrow> 'c \<Rightarrow> err + js" where
  "verify hmac num floorOf codec now state ctx =
     (case lastDot state of
        None \<Rightarrow> Inl malformed
      | Some dot \<Rightarrow>
          if \<not> startsWith state PREFIX \<or> dot \<le> length PREFIX then Inl malformed
          else (let body = drop (length PREFIX) (take dot state) in
                case base64UrlToBytes (drop (dot + 1) state) of
                  None \<Rightarrow> Inl malformed
                | Some macBytes \<Rightarrow>
                    if hmac (sc_key codec) (utf8_encode (PREFIX @ body)) \<noteq> macBytes then Inl badMac
                    else (case bodyText body of
                            None \<Rightarrow> Inl malformed
                          | Some doc \<Rightarrow>
                              (case JSON_parse num doc of
                                 None \<Rightarrow> Inl malformed
                               | Some envelope \<Rightarrow> verifyEnvelope hmac floorOf codec now ctx envelope))))"

subsection \<open>The encodings invert\<close>

lemma xor_zero: "Bit_Operations.xor (a::nat) b = 0 \<longleftrightarrow> a = b"
  by (auto simp: bit_eq_iff bit_xor_iff)

lemma tag_accumulator:
  "fold (\<lambda>(x, y) r. Bit_Operations.or r (Bit_Operations.xor (code x) (code y))) zs r = (0::nat)
     \<longleftrightarrow> r = 0 \<and> (\<forall>(x, y) \<in> set zs. x = y)"
  by (induction zs arbitrary: r) (auto simp: or_eq_0_iff xor_zero code_def)

text \<open>The constant-time comparison is equality.\<close>

lemma constantTimeTagEqual_iff: "constantTimeTagEqual a b \<longleftrightarrow> a = b"
proof -
  have "(\<forall>(x, y) \<in> set (zip a b). x = y) \<longleftrightarrow> a = b" if "length a = length b"
    using that by (induction a b rule: list_induct2) auto
  then show ?thesis by (auto simp: constantTimeTagEqual_def tag_accumulator)
qed

lemma btoa_shape:
  assumes "\<And>b. b \<in> set bs \<Longrightarrow> b < 256"
  shows "\<exists>cs k. HeaderCodec.btoa bs = cs @ replicate k 61 \<and> k \<le> 2 \<and> list_all b64_alpha cs
      \<and> length (HeaderCodec.btoa bs) mod 4 = 0"
  using assms
proof (induction bs rule: HeaderCodec.btoa.induct)
    case (2 a)
    then show ?case
      using b64_sextets(1,2) [of a 0 0]
      by (intro exI [of _ "[b64_char (a div 4), b64_char (a mod 4 * 16)]"] exI [of _ "2::nat"]) (simp add: numeral_2_eq_2)
  next
    case (3 a b)
    then have "a < 256" "b < 256" by simp_all
    note sx = b64_sextets(1,3,4) [OF this, of 0]
    then show ?case
      by (intro exI [of _ "[b64_char (a div 4), b64_char (a mod 4 * 16 + b div 16), b64_char (b mod 16 * 4)]"] exI [of _ "1::nat"])
        simp
  next
    case (4 a b c bs)
    then obtain cs k where IH: "HeaderCodec.btoa bs = cs @ replicate k 61" "k \<le> 2" "list_all b64_alpha cs"
      "length (HeaderCodec.btoa bs) mod 4 = 0" by auto
    have "a < 256" "b < 256" "c < 256" using 4 by simp_all
    note sx = b64_sextets(1,3,5,6) [OF this]
    let ?cs = "b64_char (a div 4) # b64_char (a mod 4 * 16 + b div 16) # b64_char (b mod 16 * 4 + c div 64)
       # b64_char (c mod 64) # cs"
    have "length (HeaderCodec.btoa (a # b # c # bs)) = length (HeaderCodec.btoa bs) + 4" by simp
    then have "length (HeaderCodec.btoa (a # b # c # bs)) mod 4 = 0"
      using IH(4) by (metis mod_add_self2)
    then show ?case
      using sx IH(1-3) by (intro exI [of _ ?cs] exI [of _ k]) simp
qed simp

lemma alpha_not: "b64_alpha u \<Longrightarrow> u \<noteq> 61 \<and> u \<noteq> 45 \<and> u \<noteq> 95 \<and> \<not> asciiWhitespace u \<and> u < 256"
  by (auto simp: b64_alpha_def asciiWhitespace_def)

lemma padding_of:
  fixes n k :: nat
  assumes "(n + k) mod 4 = 0" "k \<le> 2"
  shows "n mod 4 \<noteq> 1 \<and> (4 - n mod 4) mod 4 = k"
proof -
  obtain q r where n: "n = 4 * q + r" "r < 4" by (metis mult_div_mod_eq mod_less_divisor zero_less_numeral)
  have "(r + k) mod 4 = 0" using assms(1) by (simp add: n add.assoc)
  moreover have "r = 0 \<or> r = 1 \<or> r = 2 \<or> r = 3" "k = 0 \<or> k = 1 \<or> k = 2" using n(2) assms(2) by linarith+
  moreover have "n mod 4 = r" using n by simp
  ultimately show ?thesis by (elim disjE) simp_all
qed

definition urlUnit :: "nat \<Rightarrow> nat" where
  "urlUnit u = (if u = 43 then 45 else if u = 47 then 95 else u)"

lemma base64Url_shape:
  assumes "\<And>b. b \<in> set bs \<Longrightarrow> b < 256"
  obtains cs k where "HeaderCodec.btoa bs = cs @ replicate k 61" "k \<le> 2" "list_all b64_alpha cs"
    "(length cs + k) mod 4 = 0" "bytesToBase64Url bs = map char_of (map urlUnit cs)"
proof -
  obtain cs k where t: "HeaderCodec.btoa bs = cs @ replicate k 61" "k \<le> 2" "list_all b64_alpha cs"
    "length (HeaderCodec.btoa bs) mod 4 = 0"
    using btoa_shape [OF assms] by metis
  have "map urlUnit (cs @ replicate k 61) = map urlUnit cs @ replicate k 61" by (simp add: urlUnit_def)
  moreover have "dropWhile (\<lambda>u. u = 61) (rev (map urlUnit cs @ replicate k 61)) = rev (map urlUnit cs)"
  proof -
    have "dropWhile (\<lambda>u. u = 61) (replicate k 61 @ rev (map urlUnit cs)) = dropWhile (\<lambda>u. u = 61) (rev (map urlUnit cs))"
      by (induction k) simp_all
    moreover have "\<forall>u \<in> set (rev (map urlUnit cs)). u \<noteq> 61"
      using t(3) alpha_not by (auto simp: list_all_iff urlUnit_def split: if_splits)
    then have "dropWhile (\<lambda>u. u = 61) (rev (map urlUnit cs)) = rev (map urlUnit cs)"
      by (cases "rev (map urlUnit cs)") auto
    ultimately show ?thesis by simp
  qed
  ultimately have "bytesToBase64Url bs = map char_of (map urlUnit cs)"
    unfolding bytesToBase64Url_def t(1) urlUnit_def [symmetric] by (simp only: rev_rev_ident)
  with that t show thesis by simp
qed

lemma base64Url_no_dot:
  assumes "\<And>b. b \<in> set bs \<Longrightarrow> b < 256"
  shows "CHR ''.'' \<notin> set (bytesToBase64Url bs)"
proof -
  obtain cs k where t: "list_all b64_alpha cs" "bytesToBase64Url bs = map char_of (map urlUnit cs)"
    using base64Url_shape [OF assms] by metis
  have "char_of (urlUnit u) \<noteq> CHR ''.''" if "b64_alpha u" for u
  proof -
    have "urlUnit u < 256" "urlUnit u \<noteq> 46" using that by (auto simp: urlUnit_def b64_alpha_def)
    then have "code (char_of (urlUnit u)) \<noteq> code CHR ''.''" by (simp add: code_def)
    then show ?thesis by metis
  qed
  then show ?thesis using t by (force simp: list_all_iff)
qed

lemma base64Url_roundtrip:
  assumes "\<And>b. b \<in> set bs \<Longrightarrow> b < 256"
  shows "base64UrlToBytes (bytesToBase64Url bs) = Some bs"
proof -
  obtain cs k where t: "HeaderCodec.btoa bs = cs @ replicate k 61" "k \<le> 2" "list_all b64_alpha cs"
    "(length cs + k) mod 4 = 0" and enc: "bytesToBase64Url bs = map char_of (map urlUnit cs)"
    using base64Url_shape [OF assms] by metis
  have "map (\<lambda>u. if u = 45 then 43 else if u = 95 then 47 else u) (units (bytesToBase64Url bs)) = cs"
    using t(3) alpha_not by (auto simp: enc units_def urlUnit_def list_all_iff intro!: map_idI)
  then have dec: "base64UrlToBytes (bytesToBase64Url bs) = atobForgiving cs"
    by (simp add: base64UrlToBytes_def)
  have ws: "filter (\<lambda>u. \<not> asciiWhitespace u) cs = cs"
    using t(3) alpha_not by (intro filter_True) (auto simp: list_all_iff)
  have "\<not> uends cs [61, 61]" "\<not> uends cs [61]"
    using t(3) alpha_not
    by (auto simp: uends_def list_all_iff) (metis in_set_dropD list.set_intros(1))+
  moreover have "length cs mod 4 \<noteq> 1" "(4 - length cs mod 4) mod 4 = k"
    using padding_of [of "length cs" k] t(2,4) by simp_all
  ultimately have "atobForgiving cs = Some (HeaderCodec.atob (cs @ replicate k 61))"
    using t(3) by (simp add: atobForgiving_def ws Let_def)
  moreover have "HeaderCodec.atob (cs @ replicate k 61) = bs"
    using atob_btoa [of bs, OF assms] by (simp add: t(1))
  ultimately show ?thesis using dec by simp
qed

subsection \<open>The frame of a state\<close>

lemma lastDot_frame: "CHR ''.'' \<notin> set m \<Longrightarrow> lastDot (b @ CHR ''.'' # m) = Some (length b)"
proof -
  assume "CHR ''.'' \<notin> set m"
  then have "takeWhile (\<lambda>c. c \<noteq> CHR ''.'') (rev m @ CHR ''.'' # rev b) = rev m"
    by (subst takeWhile_append2) auto
  then show ?thesis by (simp add: lastDot_def)
qed

lemma lastDot_Some:
  assumes "lastDot s = Some d"
  obtains b m where "s = b @ CHR ''.'' # m" "CHR ''.'' \<notin> set m" "length b = d"
proof -
  have "CHR ''.'' \<in> set s" using assms by (auto simp: lastDot_def split: if_splits)
  then obtain b m where "s = b @ CHR ''.'' # m" "CHR ''.'' \<notin> set m" by (metis split_list_last)
  with that lastDot_frame [of m b] assms show thesis by simp
qed

definition openBody ::
  "(bytes \<Rightarrow> bytes \<Rightarrow> bytes) \<Rightarrow> (string \<Rightarrow> jnum) \<Rightarrow> (string \<Rightarrow> int) \<Rightarrow> 'c state_codec \<Rightarrow> int \<Rightarrow> string \<Rightarrow> 'c \<Rightarrow> err + js" where
  "openBody hmac num floorOf codec now bdy ctx =
     (case Option.bind (bodyText bdy) (JSON_parse num) of
        None \<Rightarrow> Inl malformed
      | Some envelope \<Rightarrow> verifyEnvelope hmac floorOf codec now ctx envelope)"

lemma verify_frame:
  assumes "CHR ''.'' \<notin> set m" "bdy \<noteq> []" "base64UrlToBytes m = Some (hmac (sc_key codec) (utf8_encode (PREFIX @ bdy)))"
  shows "verify hmac num floorOf codec now (PREFIX @ bdy @ CHR ''.'' # m) ctx = openBody hmac num floorOf codec now bdy ctx"
proof -
  have "lastDot (PREFIX @ bdy @ CHR ''.'' # m) = Some (length PREFIX + length bdy)"
    using lastDot_frame [OF assms(1), of "PREFIX @ bdy"] by simp
  then show ?thesis
    using assms(2,3) by (simp add: verify_def openBody_def Let_def startsWith_def split: option.splits)
qed

lemma verify_accepts:
  assumes "verify hmac num floorOf codec now state ctx = Inr v"
  obtains bdy m where "state = PREFIX @ bdy @ CHR ''.'' # m" "bdy \<noteq> []" "CHR ''.'' \<notin> set m"
    "base64UrlToBytes m = Some (hmac (sc_key codec) (utf8_encode (PREFIX @ bdy)))"
    "openBody hmac num floorOf codec now bdy ctx = Inr v"
proof -
  obtain d where d: "lastDot state = Some d" using assms by (auto simp: verify_def split: option.splits)
  then obtain b m where f: "state = b @ CHR ''.'' # m" "CHR ''.'' \<notin> set m" "length b = d" by (rule lastDot_Some)
  have p: "startsWith state PREFIX" "length PREFIX < d"
    using assms d by (auto simp: verify_def Let_def split: if_splits)
  define bdy where "bdy = drop (length PREFIX) b"
  have "take (length PREFIX) b = PREFIX" using p f(1,3) by (simp add: startsWith_def)
  then have b: "b = PREFIX @ bdy" "bdy \<noteq> []"
    using p(2) f(3) append_take_drop_id [of "length PREFIX" b] by (simp_all add: bdy_def)
  have "state = PREFIX @ bdy @ CHR ''.'' # m" using f(1) b(1) by simp
  moreover have "base64UrlToBytes m = Some (hmac (sc_key codec) (utf8_encode (PREFIX @ bdy)))"
    using assms p d f b by (auto simp: verify_def Let_def split: option.splits if_splits)
  ultimately show thesis using that assms b f(2) verify_frame by metis
qed

subsection \<open>What a minted state opens to\<close>

definition opened :: "(bytes \<Rightarrow> bytes \<Rightarrow> bytes) \<Rightarrow> 'c state_codec \<Rightarrow> int \<Rightarrow> js \<Rightarrow> 'c option \<Rightarrow> int \<Rightarrow> 'c \<Rightarrow> err + js" where
  "opened hmac codec mintedAt payload minter now ctx =
     (if mintedAt div 1000 + sc_ttlSeconds codec < now div 1000 then Inl expired
      else (case sc_bind codec of
              None \<Rightarrow> Inr payload
            | Some bind_cb \<Rightarrow>
                if bindTag hmac codec (bind_cb (the minter)) = bindTag hmac codec (bind_cb ctx)
                then Inr payload else Inl badBind))"

lemma utf8_encode_bytes: "b \<in> set (utf8_encode s) \<Longrightarrow> b < 256"
  unfolding utf8_encode_def by (rule textEncoder_bytes [OF units_well_formed(1)])

lemma bodyText_encoded: "bodyText (bytesToBase64Url (utf8_encode s)) = Some s"
  using base64Url_roundtrip [of "utf8_encode s", OF utf8_encode_bytes]
  by (simp add: bodyText_def utf8_encode_def textDecoder_textEncoder units_well_formed)

lemma encoded_nonempty: "s \<noteq> [] \<Longrightarrow> bytesToBase64Url (utf8_encode s) \<noteq> []"
proof
  assume "s \<noteq> []" "bytesToBase64Url (utf8_encode s) = []"
  then have "bodyText [] = Some s" using bodyText_encoded [of s] by simp
  moreover have "bodyText [] = Some []" by code_simp
  ultimately show False using \<open>s \<noteq> []\<close> by simp
qed

text \<open>A message authentication code is a byte array.\<close>

definition byteValued :: "(bytes \<Rightarrow> bytes \<Rightarrow> bytes) \<Rightarrow> bool" where
  "byteValued hmac \<longleftrightarrow> (\<forall>k m. \<forall>b \<in> set (hmac k m). b < 256)"

lemma byteValuedD: "byteValued hmac \<Longrightarrow> b \<in> set (hmac k m) \<Longrightarrow> b < 256"
  by (simp add: byteValued_def)

lemma seal_frame:
  assumes "byteValued hmac" "json_value num (JObj envelope)"
  obtains bdy m where "seal hmac codec envelope = PREFIX @ bdy @ CHR ''.'' # m" "bdy \<noteq> []" "CHR ''.'' \<notin> set m"
    "CHR ''.'' \<notin> set bdy" "base64UrlToBytes m = Some (hmac (sc_key codec) (utf8_encode (PREFIX @ bdy)))"
    "openBody hmac num floorOf codec now bdy ctx = verifyEnvelope hmac floorOf codec now ctx (JObj envelope)"
proof -
  let ?bdy = "bytesToBase64Url (utf8_encode (json_text (JObj envelope)))"
  let ?mac = "hmac (sc_key codec) (utf8_encode (PREFIX @ ?bdy))"
  have "json_text (JObj envelope) \<noteq> []" by simp
  then have ne: "?bdy \<noteq> []" by (rule encoded_nonempty)
  have nd: "CHR ''.'' \<notin> set ?bdy" by (rule base64Url_no_dot) (rule utf8_encode_bytes)
  have md: "CHR ''.'' \<notin> set (bytesToBase64Url ?mac)" by (rule base64Url_no_dot) (rule byteValuedD [OF assms(1)])
  have mb: "base64UrlToBytes (bytesToBase64Url ?mac) = Some ?mac" by (rule base64Url_roundtrip) (rule byteValuedD [OF assms(1)])
  have op: "openBody hmac num floorOf codec now ?bdy ctx = verifyEnvelope hmac floorOf codec now ctx (JObj envelope)"
    by (simp only: openBody_def bodyText_encoded json_roundtrip [OF assms(2)] Option.bind.simps option.simps)
  have sl: "seal hmac codec envelope = PREFIX @ ?bdy @ CHR ''.'' # bytesToBase64Url ?mac"
    by (simp add: seal_def Let_def)
  show thesis by (rule that [OF sl ne md nd mb op])
qed

lemma verify_mintEnvelope:
  "sc_bind codec = None \<Longrightarrow>
     verifyEnvelope hmac floorOf codec now ctx (JObj (mintEnvelope payload expiry None))
       = (if expiry < now div 1000 then Inl expired else Inr payload)"
  "sc_bind codec = Some bind_cb \<Longrightarrow>
     verifyEnvelope hmac floorOf codec now ctx (JObj (mintEnvelope payload expiry (Some tag)))
       = (if expiry < now div 1000 then Inl expired
          else if tag = bindTag hmac codec (bind_cb ctx) then Inr payload else Inl badBind)"
  by (simp_all add: verifyEnvelope_def mintEnvelope_def expiredAt_def tagMatches_def constantTimeTagEqual_iff)

lemma minted_frame:
  assumes "byteValued hmac" "json_value num payload"
    and "num (show_int (t div 1000 + sc_ttlSeconds codec)) = NInt (t div 1000 + sc_ttlSeconds codec)"
    and "mint hmac codec t payload minter = Inr state"
  obtains bdy m where "state = PREFIX @ bdy @ CHR ''.'' # m" "bdy \<noteq> []" "CHR ''.'' \<notin> set m" "CHR ''.'' \<notin> set bdy"
    "base64UrlToBytes m = Some (hmac (sc_key codec) (utf8_encode (PREFIX @ bdy)))"
    "openBody hmac num floorOf codec now bdy ctx = opened hmac codec t payload minter now ctx"
proof -
  let ?expiry = "t div 1000 + sc_ttlSeconds codec"
  define b where "b = (case sc_bind codec of None \<Rightarrow> None | Some f \<Rightarrow> Some (bindTag hmac codec (f (the minter))))"
  have s: "state = seal hmac codec (mintEnvelope payload ?expiry b)"
    using assms(4) by (auto simp: mint_def b_def Let_def split: option.splits)
  have j: "json_value num (JObj (mintEnvelope payload ?expiry b))"
    using assms(2,3) by (cases b) (simp_all add: mintEnvelope_def owf_def okeys_def)
  have o: "verifyEnvelope hmac floorOf codec now ctx (JObj (mintEnvelope payload ?expiry b))
      = opened hmac codec t payload minter now ctx"
    by (cases "sc_bind codec") (simp_all add: b_def opened_def verify_mintEnvelope)
  show thesis
    by (rule seal_frame [OF assms(1) j, where codec = codec and floorOf = floorOf and now = now and ctx = ctx]) (use that s o in auto)
qed

lemma minted_opens:
  assumes "byteValued hmac" "json_value num payload"
    and "num (show_int (t div 1000 + sc_ttlSeconds codec)) = NInt (t div 1000 + sc_ttlSeconds codec)"
    and "mint hmac codec t payload minter = Inr state"
  shows "verify hmac num floorOf codec now state ctx = opened hmac codec t payload minter now ctx"
proof -
  obtain bdy m where "state = PREFIX @ bdy @ CHR ''.'' # m" "bdy \<noteq> []" "CHR ''.'' \<notin> set m" "CHR ''.'' \<notin> set bdy"
    "base64UrlToBytes m = Some (hmac (sc_key codec) (utf8_encode (PREFIX @ bdy)))"
    "openBody hmac num floorOf codec now bdy ctx = opened hmac codec t payload minter now ctx"
    by (rule minted_frame [OF assms, where floorOf = floorOf and now = now and ctx = ctx])
  note frame = this
  show ?thesis unfolding frame(1) using verify_frame [of m bdy hmac codec] frame by simp
qed

subsection \<open>Round trip and authenticity\<close>

text \<open>
  C31: A state the codec minted verifies to its payload until it expires, when the binding
  value is the one it was minted under or the codec has no binding; from the second after its
  expiry on it is refused as expired, and under another binding tag as bound elsewhere.
\<close>

theorem minted_state_verifies:
  assumes "byteValued hmac" "json_value num payload"
    and "num (show_int (t div 1000 + sc_ttlSeconds codec)) = NInt (t div 1000 + sc_ttlSeconds codec)"
    and "mint hmac codec t payload minter = Inr state"
  shows "verify hmac num floorOf codec now state ctx
    = (if t div 1000 + sc_ttlSeconds codec < now div 1000 then Inl expired
       else (case sc_bind codec of
               None \<Rightarrow> Inr payload
             | Some bind_cb \<Rightarrow>
                 if bindTag hmac codec (bind_cb (the minter)) = bindTag hmac codec (bind_cb ctx)
                 then Inr payload else Inl badBind))"
  using minted_opens [OF assms] by (simp only: opened_def)

text \<open>
  Only minted states are accepted: when a body under whose MAC a state arrives is one the
  codec minted (HMAC is unforgeable), whatever the state looks like otherwise, acceptance
  means that the payload is the minted one, that it has not expired, and that the binding tag
  of the verifying context is the one it was minted under.
\<close>

theorem accepted_state_was_minted:
  assumes "byteValued hmac"
    and "\<And>t payload minter. (t, payload, minter) \<in> set minted \<Longrightarrow> json_value num payload
           \<and> num (show_int (t div 1000 + sc_ttlSeconds codec)) = NInt (t div 1000 + sc_ttlSeconds codec)"
    and "\<And>bdy m. state = PREFIX @ bdy @ CHR ''.'' # m \<Longrightarrow> CHR ''.'' \<notin> set m
           \<Longrightarrow> base64UrlToBytes m = Some (hmac (sc_key codec) (utf8_encode (PREFIX @ bdy)))
           \<Longrightarrow> \<exists>(t, payload, minter) \<in> set minted. \<exists>m'. CHR ''.'' \<notin> set m'
                 \<and> mint hmac codec t payload minter = Inr (PREFIX @ bdy @ CHR ''.'' # m')"
    and "verify hmac num floorOf codec now state ctx = Inr v"
  shows "\<exists>(t, payload, minter) \<in> set minted. v = payload \<and> now div 1000 \<le> t div 1000 + sc_ttlSeconds codec
    \<and> (\<forall>bind_cb. sc_bind codec = Some bind_cb \<longrightarrow>
         bindTag hmac codec (bind_cb (the minter)) = bindTag hmac codec (bind_cb ctx))"
proof -
  obtain bdy m where a: "state = PREFIX @ bdy @ CHR ''.'' # m" "bdy \<noteq> []" "CHR ''.'' \<notin> set m"
    "base64UrlToBytes m = Some (hmac (sc_key codec) (utf8_encode (PREFIX @ bdy)))"
    "openBody hmac num floorOf codec now bdy ctx = Inr v"
    by (rule verify_accepts [OF assms(4)])
  then obtain t payload minter m' where k: "(t, payload, minter) \<in> set minted" "CHR ''.'' \<notin> set m'"
    "mint hmac codec t payload minter = Inr (PREFIX @ bdy @ CHR ''.'' # m')"
    using assms(3) [OF a(1,3,4)] by blast
  obtain bdy' m'' where f: "PREFIX @ bdy @ CHR ''.'' # m' = PREFIX @ bdy' @ CHR ''.'' # m''" "CHR ''.'' \<notin> set m''"
    "openBody hmac num floorOf codec now bdy' ctx = opened hmac codec t payload minter now ctx"
    using minted_frame [OF assms(1) _ _ k(3), where num = num and floorOf = floorOf and now = now and ctx = ctx]
      assms(2) [OF k(1)] by metis
  then have "lastDot (PREFIX @ bdy @ CHR ''.'' # m') = Some (length PREFIX + length bdy')"
    using lastDot_frame [of m'' "PREFIX @ bdy'"] by simp
  then have "length bdy = length bdy'"
    using lastDot_frame [OF k(2), of "PREFIX @ bdy"] by simp
  then have "opened hmac codec t payload minter now ctx = Inr v" using f a(5) by simp
  then show ?thesis
    using k(1) by (intro bexI [of _ "(t, payload, minter)"]) (auto simp: opened_def split: if_splits option.splits)
qed

subsection \<open>Witnesses\<close>

definition demoHmac :: "bytes \<Rightarrow> bytes \<Rightarrow> bytes" where
  "demoHmac key m = [length m mod 256]"

definition demoCodec :: "unit state_codec" where
  "demoCodec = \<lparr>sc_key = replicate 32 7, sc_ttlSeconds = 600, sc_bind = None\<rparr>"

definition demoState :: string where
  "demoState = seal demoHmac demoCodec (mintEnvelope (JStr ''go'') 700 None)"

lemma demo_mint: "mint demoHmac demoCodec 100000 (JStr ''go'') None = Inr demoState"
  by (simp add: mint_def demoCodec_def demoState_def)

lemma demo_bytes: "byteValued demoHmac"
  by (simp add: demoHmac_def byteValued_def)

lemma demoCodec_simps [simp]: "sc_ttlSeconds demoCodec = 600" "sc_bind demoCodec = None"
  by (simp_all add: demoCodec_def)

theorem minted_state_verifies_witness:
  "verify demoHmac (\<lambda>_. NInt 700) (\<lambda>_. 0) demoCodec 699999 demoState () = Inr (JStr ''go'')
   \<and> verify demoHmac (\<lambda>_. NInt 700) (\<lambda>_. 0) demoCodec 701000 demoState () = Inl expired"
  by (simp add: minted_state_verifies [OF demo_bytes _ _ demo_mint])

theorem accepted_state_was_minted_witness:
  "\<exists>(t, payload, minter) \<in> set [(100000::int, JStr ''go'', None :: unit option)]. JStr ''go'' = payload \<and> 699 \<le> t div 1000 + 600"
proof -
  have v: "verify demoHmac (\<lambda>_. NInt 700) (\<lambda>_. 0) demoCodec 699999 demoState () = Inr (JStr ''go'')"
    by (simp add: minted_opens [OF demo_bytes _ _ demo_mint] opened_def)
  show ?thesis
    using accepted_state_was_minted [OF demo_bytes _ _ v, of "[(100000, JStr ''go'', None)]"] demo_mint by simp
qed

end
