(* ===== verification/SealedState.thy ===== *)
theory SealedState
  imports ServerSeam RequestStateCodec
begin

text \<open>
  The composition of the request-state codec (server/requestStateCodec.ts) with the seam of
  server.ts: the codec's \<open>verify\<close> as the server's hook.
\<close>

text \<open>The hook of every round is the codec's, at the time of the round.\<close>

definition codecHook ::
  "(bytes \<Rightarrow> bytes \<Rightarrow> bytes) \<Rightarrow> (string \<Rightarrow> jnum) \<Rightarrow> (string \<Rightarrow> int) \<Rightarrow> 'c state_codec \<Rightarrow> (nat \<Rightarrow> int) \<Rightarrow> 'c
     \<Rightarrow> (nat \<Rightarrow> shim_round) \<Rightarrow> nat \<Rightarrow> shim_round" where
  "codecHook hmac num floorOf codec now ctx env n =
     (env n)\<lparr>sr_verify := (\<lambda>s v. verify hmac num floorOf codec (now n) s ctx)\<rparr>"

lemma json_defined: "json_value num v \<Longrightarrow> v \<noteq> JUndef"
  by (cases v) auto

text \<open>
  C32: What a handler reads as its state was minted. With the codec's \<open>verify\<close> as the server's
  hook and HMAC unforgeable on the states that reach it, whatever the client echoes and
  whichever era fulfils the rounds: the state a handler reads is absent, or a payload the
  codec minted, read before it expired and in a context with the binding tag it was minted
  under.
\<close>

theorem handler_state_was_minted:
  assumes "sv_verifyConfigured srv" and "byteValued hmac"
    and "\<And>t payload minter. (t, payload, minter) \<in> set minted \<Longrightarrow> json_value num payload
           \<and> num (show_int (t div 1000 + sc_ttlSeconds codec)) = NInt (t div 1000 + sc_ttlSeconds codec)"
    and "trace = snd (invokeInputRequiredCapableHandler srv meth call (codecHook hmac num floorOf codec now ctx env))"
    and "\<And>s view bdy m. VerifyStep s view \<in> set trace \<Longrightarrow> s = PREFIX @ bdy @ CHR ''.'' # m
           \<Longrightarrow> CHR ''.'' \<notin> set m \<Longrightarrow> base64UrlToBytes m = Some (hmac (sc_key codec) (utf8_encode (PREFIX @ bdy)))
           \<Longrightarrow> \<exists>(t, payload, minter) \<in> set minted. \<exists>m'. CHR ''.'' \<notin> set m'
                 \<and> mint hmac codec t payload minter = Inr (PREFIX @ bdy @ CHR ''.'' # m')"
    and "ReenterStep v \<in> set trace"
  shows "mv_requestState v = JUndef
    \<or> (\<exists>n. \<exists>(t, payload, minter) \<in> set minted. mv_requestState v = payload
         \<and> now n div 1000 \<le> t div 1000 + sc_ttlSeconds codec
         \<and> (\<forall>bind_cb. sc_bind codec = Some bind_cb \<longrightarrow>
              bindTag hmac codec (bind_cb (the minter)) = bindTag hmac codec (bind_cb ctx)))"
  using invoke_verified [OF assms(1), of v meth call "codecHook hmac num floorOf codec now ctx env",
      folded assms(4), OF assms(6)]
  unfolding state_verified_def
proof (elim disjE exE conjE)
  fix n s view decoded
  assume step: "VerifyStep s view \<in> set trace"
  assume accepted: "sr_verify (codecHook hmac num floorOf codec now ctx env n) s view = Inr decoded"
    and read: "mv_requestState v = (if decoded \<noteq> JUndef then decoded else JStr s)"
  have "verify hmac num floorOf codec (now n) s ctx = Inr decoded"
    using accepted by (simp add: codecHook_def)
  note accept = accepted_state_was_minted [OF assms(2) _ _ this, where minted = minted]
  have "\<exists>(t, payload, minter) \<in> set minted. decoded = payload \<and> now n div 1000 \<le> t div 1000 + sc_ttlSeconds codec
    \<and> (\<forall>bind_cb. sc_bind codec = Some bind_cb \<longrightarrow>
         bindTag hmac codec (bind_cb (the minter)) = bindTag hmac codec (bind_cb ctx))"
    by (rule accept) (use assms(3) assms(5) [OF step] in blast)+
  then obtain t payload minter where m: "(t, payload, minter) \<in> set minted" "decoded = payload"
    "now n div 1000 \<le> t div 1000 + sc_ttlSeconds codec"
    "\<forall>bind_cb. sc_bind codec = Some bind_cb \<longrightarrow>
         bindTag hmac codec (bind_cb (the minter)) = bindTag hmac codec (bind_cb ctx)"
    by auto
  then have "mv_requestState v = payload" using read json_defined assms(3) [OF m(1)] by auto
  with m show ?thesis by (intro disjI2 exI [of _ n] bexI [of _ "(t, payload, minter)"]) auto
qed simp

text \<open>A request that echoes the state of the codec's own example, on a 2026-07-28 server.\<close>

definition demoSealedCall :: seam_call where
  "demoSealedCall = demoFresh\<lparr>sc_view := \<lparr>mv_inputResponses = JUndef, mv_droppedKeys = None, mv_requestState = JStr demoState\<rparr>\<rparr>"

abbreviation demoHook :: "nat \<Rightarrow> shim_round" where
  "demoHook \<equiv> codecHook demoHmac (\<lambda>_. NInt 700) (\<lambda>_. 0) demoCodec (\<lambda>n. 699999) () (\<lambda>n. demo_round)"

lemma demo_sealed_run:
  "snd (invokeInputRequiredCapableHandler demoModern ''tools/call'' demoSealedCall demoHook)
     = [VerifyStep demoState (sc_view demoSealedCall), ReenterStep ((sc_view demoSealedCall)\<lparr>mv_requestState := JStr ''go''\<rparr>)]"
proof -
  have v: "verify demoHmac (\<lambda>_. NInt 700) (\<lambda>_. 0) demoCodec 699999 demoState () = Inr (JStr ''go'')"
    by (simp add: minted_opens [OF demo_bytes _ _ demo_mint] opened_def)
  have "verifyRequestState demoModern (demoHook 0) ''tools/call'' demoState (sc_view demoSealedCall) = (Inr (JStr ''go''), None)"
    by (simp add: verifyRequestState_def codecHook_def demoModern_def v)
  then show ?thesis
    by (simp add: invokeInputRequiredCapableHandler_def verifiedView_def demoSealedCall_def withRequestStateValue_def
        demo_round_def codecHook_def isInputRequiredResult_def)
qed

theorem handler_state_was_minted_witness:
  "\<exists>(t, payload, minter) \<in> set [(100000::int, JStr ''go'', None :: unit option)]. JStr ''go'' = payload \<and> 699 \<le> t div 1000 + 600"
proof -
  let ?trace = "[VerifyStep demoState (sc_view demoSealedCall), ReenterStep ((sc_view demoSealedCall)\<lparr>mv_requestState := JStr ''go''\<rparr>)]"
  have "sv_verifyConfigured demoModern" by (simp add: demoModern_def)
  from handler_state_was_minted [OF this demo_bytes _ demo_sealed_run [symmetric],
      of "[(100000, JStr ''go'', None)]" "(sc_view demoSealedCall)\<lparr>mv_requestState := JStr ''go''\<rparr>"]
  show ?thesis using demo_mint by simp
qed

end
