(* ===== verification/UriTemplate.thy ===== *)
theory UriTemplate
  imports Errors "HOL-Library.AList"
begin

text \<open>
  RFC 6570 URI templates as the SDK implements them (shared/uriTemplate.ts): parsing,
  expansion and matching.

  A match runs a regular expression built from the parts. Here the expression is the list of
  its segments, literals and capture groups, and matching tries the captures of a group from
  the longest to the shortest, which is the order in which the greedy groups of the code
  backtrack. The text of the expression is kept as well: its length is bounded.
\<close>

subsection \<open>Templates\<close>

record template_expr =
  te_name :: "string option"
  te_operator :: string
  te_names :: "string list"
  te_exploded :: bool

datatype part = Text string | Expr template_expr

definition MAX_TEMPLATE_LENGTH :: int where
  "MAX_TEMPLATE_LENGTH = 1000000"

definition MAX_VARIABLE_LENGTH :: int where
  "MAX_VARIABLE_LENGTH = 1000000"

definition MAX_TEMPLATE_EXPRESSIONS :: int where
  "MAX_TEMPLATE_EXPRESSIONS = 10000"

definition MAX_REGEX_LENGTH :: int where
  "MAX_REGEX_LENGTH = 1000000"

definition validateLength :: "string \<Rightarrow> int \<Rightarrow> string \<Rightarrow> err option" where
  "validateLength s bound context =
     (if bound < int (length s) then
        Some (PlainErr (context @ '' exceeds maximum length of '' @ show_int bound @ '' characters (got '' @ digits (length s) @ '')''))
      else None)"

text \<open>White space of \<open>trim\<close> and of \<open>\s\<close> among the code units below 256.\<close>

definition isSpace :: "char \<Rightarrow> bool" where
  "isSpace c \<longleftrightarrow> 9 \<le> code c \<and> code c \<le> 13 \<or> code c = 32 \<or> code c = 160"

text \<open>\<open>isTemplate\<close>: some \<open>{\<close>, then at least one character that is no \<open>}\<close> and no space, then \<open>}\<close>.\<close>

fun closesAt :: "string \<Rightarrow> bool" where
  "closesAt [] = False"
| "closesAt (c # s) = (c = CHR ''}'' \<or> \<not> isSpace c \<and> closesAt s)"

fun isTemplate :: "string \<Rightarrow> bool" where
  "isTemplate [] = False"
| "isTemplate (c # s) =
     (c = CHR ''{'' \<and> (case s of [] \<Rightarrow> False | d # t \<Rightarrow> d \<noteq> CHR ''}'' \<and> \<not> isSpace d \<and> closesAt t) \<or> isTemplate s)"

fun splitOn :: "char \<Rightarrow> string \<Rightarrow> string list" where
  "splitOn sep [] = [[]]"
| "splitOn sep (c # s) =
     (if c = sep then [] # splitOn sep s
      else (case splitOn sep s of [] \<Rightarrow> [[c]] | w # ws \<Rightarrow> (c # w) # ws))"

definition trim :: "string \<Rightarrow> string" where
  "trim s = rev (dropWhile isSpace (rev (dropWhile isSpace s)))"

text \<open>\<open>name.replace('*', '')\<close>: the first star goes.\<close>

fun dropStar :: "string \<Rightarrow> string" where
  "dropStar [] = []"
| "dropStar (c # s) = (if c = CHR ''*'' then s else c # dropStar s)"

definition getOperator :: "string \<Rightarrow> string" where
  "getOperator expr =
     or_else (List.find (startsWith expr) [''+'', ''#'', ''.'', ''/'', ''?'', ''&'']) []"

definition getNames :: "string \<Rightarrow> string list" where
  "getNames expr =
     filter (\<lambda>name. 0 < length name)
       (map (\<lambda>name. trim (dropStar name)) (splitOn (CHR '','') (drop (length (getOperator expr)) expr)))"

definition exprOf :: "string \<Rightarrow> template_expr" where
  "exprOf expr =
     \<lparr>te_name = (case getNames expr of [] \<Rightarrow> None | n # _ \<Rightarrow> Some n), te_operator = getOperator expr,
      te_names = getNames expr, te_exploded = (CHR ''*'' \<in> set expr)\<rparr>"

fun firstError :: "err option list \<Rightarrow> err option" where
  "firstError [] = None"
| "firstError (e # es) = (case e of Some x \<Rightarrow> Some x | None \<Rightarrow> firstError es)"

definition flush :: "string \<Rightarrow> part list" where
  "flush currentText = (if currentText = [] then [] else [Text currentText])"

text \<open>The scan: the parts after the current position, the text gathered so far, the expressions seen.\<close>

function scanParts :: "string \<Rightarrow> string \<Rightarrow> nat \<Rightarrow> err + part list" where
  "scanParts [] currentText n = Inr (flush currentText)"
| "scanParts (c # s) currentText n =
     (if c = CHR ''{'' then
        (if CHR ''}'' \<notin> set s then Inl (PlainErr ''Unclosed template expression'')
         else if MAX_TEMPLATE_EXPRESSIONS < int (n + 1) then
           Inl (PlainErr (''Template contains too many expressions (max '' @ show_int MAX_TEMPLATE_EXPRESSIONS @ '')''))
         else
           (let expr = takeWhile (\<lambda>d. d \<noteq> CHR ''}'') s in
            case firstError (map (\<lambda>name. validateLength name MAX_VARIABLE_LENGTH ''Variable name'') (getNames expr)) of
              Some e \<Rightarrow> Inl e
            | None \<Rightarrow>
                (case scanParts (drop (length expr + 1) s) [] (n + 1) of
                   Inl e \<Rightarrow> Inl e
                 | Inr rest \<Rightarrow> Inr (flush currentText @ Expr (exprOf expr) # rest))))
      else scanParts s (currentText @ [c]) n)"
  by pat_completeness auto

termination
  by (relation "measure (\<lambda>(s, currentText, n). length s)") auto

declare scanParts.simps [simp del]

text \<open>The constructor.\<close>

definition parseTemplate :: "string \<Rightarrow> err + part list" where
  "parseTemplate template =
     (case validateLength template MAX_TEMPLATE_LENGTH ''Template'' of
        Some e \<Rightarrow> Inl e
      | None \<Rightarrow> scanParts template [] 0)"

definition variableNames :: "part list \<Rightarrow> string list" where
  "variableNames parts = concat (map (\<lambda>p. case p of Text _ \<Rightarrow> [] | Expr e \<Rightarrow> te_names e) parts)"

subsection \<open>Expansion\<close>

datatype uri_value = One string | Many "string list"

type_synonym variables = "(string \<times> uri_value) list"

text \<open>\<open>encodeURIComponent\<close> and \<open>encodeURI\<close>: a code unit from 128 on is two bytes of UTF-8.\<close>

definition uriHex :: "nat \<Rightarrow> char" where
  "uriHex n = ''0123456789ABCDEF'' ! (n mod 16)"

definition percent :: "nat \<Rightarrow> string" where
  "percent b = [CHR ''%'', uriHex (b div 16), uriHex b]"

definition unreservedChar :: "char \<Rightarrow> bool" where
  "unreservedChar c \<longleftrightarrow> is_lower c \<or> is_upper c \<or> is_digit c \<or> c \<in> set (''-_.!~*()'' @ [CHR 0x27])"

definition reservedChar :: "char \<Rightarrow> bool" where
  "reservedChar c \<longleftrightarrow> c \<in> set '';/?:@&=+$,#''"

definition encodeWith :: "(char \<Rightarrow> bool) \<Rightarrow> string \<Rightarrow> string" where
  "encodeWith keep s =
     concat (map (\<lambda>c. if keep c then [c]
       else if code c < 128 then percent (code c)
       else percent (192 + code c div 64) @ percent (128 + code c mod 64)) s)"

definition encodeURIComponent :: "string \<Rightarrow> string" where
  "encodeURIComponent s = encodeWith unreservedChar s"

definition encodeURI :: "string \<Rightarrow> string" where
  "encodeURI s = encodeWith (\<lambda>c. unreservedChar c \<or> reservedChar c) s"

definition encodeValue :: "string \<Rightarrow> string \<Rightarrow> err + string" where
  "encodeValue value operator =
     (case validateLength value MAX_VARIABLE_LENGTH ''Variable value'' of
        Some e \<Rightarrow> Inl e
      | None \<Rightarrow> Inr (if operator = ''+'' \<or> operator = ''#'' then encodeURI value else encodeURIComponent value))"

fun encodeAll :: "string \<Rightarrow> string list \<Rightarrow> err + string list" where
  "encodeAll operator [] = Inr []"
| "encodeAll operator (v # vs) =
     (case encodeValue v operator of
        Inl e \<Rightarrow> Inl e
      | Inr x \<Rightarrow> (case encodeAll operator vs of Inl e \<Rightarrow> Inl e | Inr xs \<Rightarrow> Inr (x # xs)))"

fun valuesOf :: "uri_value \<Rightarrow> string list" where
  "valuesOf (One v) = [v]"
| "valuesOf (Many vs) = vs"

text \<open>The \<open>name=value\<close> pairs of a query expression; names without a value are skipped.\<close>

fun queryPairs :: "string \<Rightarrow> variables \<Rightarrow> string list \<Rightarrow> err + string list" where
  "queryPairs operator vars [] = Inr []"
| "queryPairs operator vars (name # names) =
     (case map_of vars name of
        None \<Rightarrow> queryPairs operator vars names
      | Some value \<Rightarrow>
          (case encodeAll operator (valuesOf value) of
             Inl e \<Rightarrow> Inl e
           | Inr xs \<Rightarrow>
               (case queryPairs operator vars names of
                  Inl e \<Rightarrow> Inl e
                | Inr ps \<Rightarrow> Inr ((name @ ''='' @ join '','' xs) # ps))))"

text \<open>The unencoded value several names of one expression expand to; the join of an absent element is empty.\<close>

fun firstValue :: "uri_value \<Rightarrow> string" where
  "firstValue (One v) = v"
| "firstValue (Many []) = []"
| "firstValue (Many (v # _)) = v"

definition expandPart :: "template_expr \<Rightarrow> variables \<Rightarrow> err + string" where
  "expandPart part vars =
     (if te_operator part = ''?'' \<or> te_operator part = ''&'' then
        (case queryPairs (te_operator part) vars (te_names part) of
           Inl e \<Rightarrow> Inl e
         | Inr pairs \<Rightarrow>
             Inr (if length pairs = 0 then []
                  else (if te_operator part = ''?'' then ''?'' else ''&'') @ join ''&'' pairs))
      else if 1 < length (te_names part) then
        Inr (join '','' (map firstValue (List.map_filter (map_of vars) (te_names part))))
      else
        (case map_of vars (or_else (te_name part) ''undefined'') of
           None \<Rightarrow> Inr []
         | Some value \<Rightarrow>
             (case encodeAll (te_operator part) (valuesOf value) of
                Inl e \<Rightarrow> Inl e
              | Inr encoded \<Rightarrow>
                  Inr (if te_operator part = ''#'' then ''#'' @ join '','' encoded
                       else if te_operator part = ''.'' then ''.'' @ join ''.'' encoded
                       else if te_operator part = ''/'' then ''/'' @ join ''/'' encoded
                       else join '','' encoded))))"

text \<open>\<open>expanded.replace('?', '&')\<close>: the first question mark.\<close>

fun queryToAmp :: "string \<Rightarrow> string" where
  "queryToAmp [] = []"
| "queryToAmp (c # s) = (if c = CHR ''?'' then CHR ''&'' # s else c # queryToAmp s)"

definition isQuery :: "template_expr \<Rightarrow> bool" where
  "isQuery part \<longleftrightarrow> te_operator part = ''?'' \<or> te_operator part = ''&''"

fun expandParts :: "variables \<Rightarrow> part list \<Rightarrow> bool \<Rightarrow> err + string" where
  "expandParts vars [] hasQueryParam = Inr []"
| "expandParts vars (Text t # ps) hasQueryParam = map_sum id ((@) t) (expandParts vars ps hasQueryParam)"
| "expandParts vars (Expr part # ps) hasQueryParam =
     (case expandPart part vars of
        Inl e \<Rightarrow> Inl e
      | Inr expanded \<Rightarrow>
          if expanded = [] then expandParts vars ps hasQueryParam
          else map_sum id ((@) (if isQuery part \<and> hasQueryParam then queryToAmp expanded else expanded))
                 (expandParts vars ps (isQuery part \<or> hasQueryParam)))"

definition expand :: "part list \<Rightarrow> variables \<Rightarrow> err + string" where
  "expand parts vars = expandParts vars parts False"

subsection \<open>Matching\<close>

text \<open>The capture groups: \<open>[^/,]+\<close>, its comma-separated repetition, \<open>.+\<close> and \<open>[^&]+\<close>.\<close>

datatype group = Segment | Segments | Anything | QueryValue

datatype seg = Lit string | Grp group "string option" bool

definition lineTerminator :: "char \<Rightarrow> bool" where
  "lineTerminator c \<longleftrightarrow> code c = 10 \<or> code c = 13"

definition segmentChar :: "char \<Rightarrow> bool" where
  "segmentChar c \<longleftrightarrow> c \<noteq> CHR ''/'' \<and> c \<noteq> CHR '',''"

definition admits :: "group \<Rightarrow> string \<Rightarrow> bool" where
  "admits g w \<longleftrightarrow>
     (case g of
        Segment \<Rightarrow> w \<noteq> [] \<and> list_all segmentChar w
      | Segments \<Rightarrow> list_all (\<lambda>piece. piece \<noteq> [] \<and> list_all segmentChar piece) (splitOn (CHR '','') w)
      | Anything \<Rightarrow> w \<noteq> [] \<and> list_all (\<lambda>c. \<not> lineTerminator c) w
      | QueryValue \<Rightarrow> w \<noteq> [] \<and> CHR ''&'' \<notin> set w)"

definition groupText :: "group \<Rightarrow> string" where
  "groupText g =
     (case g of
        Segment \<Rightarrow> ''([^/,]+)'' | Segments \<Rightarrow> ''([^/,]+(?:,[^/,]+)*)'' | Anything \<Rightarrow> ''(.+)'' | QueryValue \<Rightarrow> ''([^&]+)'')"

fun querySegs :: "string \<Rightarrow> bool \<Rightarrow> bool \<Rightarrow> string list \<Rightarrow> seg list" where
  "querySegs operator first exploded [] = []"
| "querySegs operator first exploded (name # names) =
     Lit ((if first then operator else ''&'') @ name @ ''='') # Grp QueryValue (Some name) exploded
       # querySegs operator False exploded names"

definition partSegs :: "template_expr \<Rightarrow> seg list" where
  "partSegs part =
     (let name = te_name part;
          many = (if te_exploded part then Segments else Segment)
      in if isQuery part then querySegs (te_operator part) True (te_exploded part) (te_names part)
         else if te_operator part = [] then [Grp many name (te_exploded part)]
         else if te_operator part = ''+'' \<or> te_operator part = ''#'' then [Grp Anything name (te_exploded part)]
         else if te_operator part = ''.'' then [Lit ''.'', Grp Segment name (te_exploded part)]
         else [Lit ''/'', Grp many name (te_exploded part)])"

definition segsOf :: "part list \<Rightarrow> seg list" where
  "segsOf parts = concat (map (\<lambda>p. case p of Text t \<Rightarrow> [Lit t] | Expr e \<Rightarrow> partSegs e) parts)"

text \<open>The text of the regular expression, whose length is checked before it is compiled.\<close>

definition escapeRegExp :: "string \<Rightarrow> string" where
  "escapeRegExp s =
     concat (map (\<lambda>c. if c \<in> set ''.*+?^${}()|[]'' \<or> c = CHR 0x5C then [CHR 0x5C, c] else [c]) s)"

fun queryText :: "string \<Rightarrow> bool \<Rightarrow> string list \<Rightarrow> string" where
  "queryText operator first [] = []"
| "queryText operator first (name # names) =
     (if first then CHR 0x5C # operator else ''&'') @ escapeRegExp name @ ''='' @ groupText QueryValue
       @ queryText operator False names"

definition partText :: "part \<Rightarrow> string" where
  "partText p =
     (case p of
        Text t \<Rightarrow> escapeRegExp t
      | Expr part \<Rightarrow>
          (let many = groupText (if te_exploded part then Segments else Segment) in
           if isQuery part then queryText (te_operator part) True (te_names part)
           else if te_operator part = [] then many
           else if te_operator part = ''+'' \<or> te_operator part = ''#'' then groupText Anything
           else if te_operator part = ''.'' then CHR 0x5C # ''.'' @ groupText Segment
           else ''/'' @ many))"

definition patternText :: "part list \<Rightarrow> string" where
  "patternText parts = ''^'' @ concat (map partText parts) @ ''$''"

text \<open>
  The match: a group tries its captures from the longest admissible prefix down; the end of
  the expression matches at the end of the text only.
\<close>

fun firstCapture :: "nat list \<Rightarrow> (nat \<Rightarrow> string list option) \<Rightarrow> string list option" where
  "firstCapture [] f = None"
| "firstCapture (n # ns) f = (case f n of Some r \<Rightarrow> Some r | None \<Rightarrow> firstCapture ns f)"

definition captureLengths :: "group \<Rightarrow> string \<Rightarrow> nat list" where
  "captureLengths g s = filter (\<lambda>n. admits g (take n s)) (rev [0..<Suc (length s)])"

fun matchSegs :: "seg list \<Rightarrow> string \<Rightarrow> string list option" where
  "matchSegs [] s = (if s = [] then Some [] else None)"
| "matchSegs (Lit t # segs) s = (if startsWith s t then matchSegs segs (drop (length t) s) else None)"
| "matchSegs (Grp g name exploded # segs) s =
     firstCapture (captureLengths g s) (\<lambda>n. map_option ((#) (take n s)) (matchSegs segs (drop n s)))"

fun groupsOf :: "seg list \<Rightarrow> (string option \<times> bool) list" where
  "groupsOf [] = []"
| "groupsOf (Lit t # segs) = groupsOf segs"
| "groupsOf (Grp g name exploded # segs) = (name, exploded) # groupsOf segs"

text \<open>The variables of a match; cleaning the name of a nameless expression throws.\<close>

fun assignAll :: "(string option \<times> bool) list \<Rightarrow> string list \<Rightarrow> variables \<Rightarrow> err + variables" where
  "assignAll ((name, exploded) # groups) (value # captures) result =
     (case name of
        None \<Rightarrow> Inl (TypeErr ''Cannot read properties of undefined (reading 'replace')'')
      | Some n \<Rightarrow>
          assignAll groups captures
            (AList.update (dropStar n)
               (if exploded \<and> CHR '','' \<in> set value then Many (splitOn (CHR '','') value) else One value) result))"
| "assignAll _ _ result = Inr result"

definition matchUri :: "part list \<Rightarrow> string \<Rightarrow> err + variables option" where
  "matchUri parts uri =
     (case firstError [validateLength uri MAX_TEMPLATE_LENGTH ''URI'',
                       validateLength (patternText parts) MAX_REGEX_LENGTH ''Generated regex pattern''] of
        Some e \<Rightarrow> Inl e
      | None \<Rightarrow>
          (case matchSegs (segsOf parts) uri of
             None \<Rightarrow> Inr None
           | Some captures \<Rightarrow> map_sum id Some (assignAll (groupsOf (segsOf parts)) captures [])))"

subsection \<open>Matching is exactly the language of the expression\<close>

fun render :: "seg list \<Rightarrow> string list \<Rightarrow> string option" where
  "render [] [] = Some []"
| "render (Lit t # segs) cs = map_option ((@) t) (render segs cs)"
| "render (Grp g name exploded # segs) (c # cs) = (if admits g c then map_option ((@) c) (render segs cs) else None)"
| "render _ _ = None"

lemma firstCapture_Some: "firstCapture ns f = Some r \<Longrightarrow> \<exists>n \<in> set ns. f n = Some r"
  by (induction ns) (auto split: option.splits)

lemma firstCapture_None: "firstCapture ns f = None \<longleftrightarrow> (\<forall>n \<in> set ns. f n = None)"
  by (induction ns) (auto split: option.splits)

lemma captureLengths_set: "n \<in> set (captureLengths g s) \<longleftrightarrow> n \<le> length s \<and> admits g (take n s)"
  by (auto simp: captureLengths_def le_less)

lemma matchSegs_sound: "matchSegs segs s = Some cs \<Longrightarrow> render segs cs = Some s"
proof (induction segs s arbitrary: cs rule: matchSegs.induct)
  case (3 g name exploded segs s)
  from "3.prems" obtain n where n: "n \<in> set (captureLengths g s)"
    "map_option ((#) (take n s)) (matchSegs segs (drop n s)) = Some cs"
    by (auto dest!: firstCapture_Some)
  then obtain cs' where "cs = take n s # cs'" "matchSegs segs (drop n s) = Some cs'" by auto
  then show ?case using "3.IH" n(1) by (simp add: captureLengths_set)
qed (auto split: if_splits simp: startsWith_iff)

lemma matchSegs_complete: "render segs cs = Some s \<Longrightarrow> matchSegs segs s \<noteq> None"
proof (induction segs cs arbitrary: s rule: render.induct)
  case (3 g name exploded segs c cs)
  then obtain t where t: "s = c @ t" "render segs cs = Some t" "admits g c" by (auto split: if_splits)
  then have "length c \<in> set (captureLengths g s)" by (simp add: captureLengths_set)
  moreover have "matchSegs segs (drop (length c) s) \<noteq> None" using "3.IH" t by simp
  ultimately show ?case by (auto simp: firstCapture_None)
qed auto

text \<open>
  A template matches a text exactly when the text is its literals with admissible captures
  between them; the captures a match reports are such a reading of the text.
\<close>

theorem match_exact:
  "(case matchSegs (segsOf parts) uri of
      None \<Rightarrow> \<nexists>cs. render (segsOf parts) cs = Some uri
    | Some cs \<Rightarrow> render (segsOf parts) cs = Some uri)"
  using matchSegs_sound [of "segsOf parts" uri] matchSegs_complete [of "segsOf parts" _ uri]
  by (auto split: option.split)

subsection \<open>What was expanded is matched\<close>

text \<open>
  A template whose expressions are single plain variables, each closed by the end of the
  template or by a text that starts with a slash.
\<close>

definition plainVar :: "template_expr \<Rightarrow> bool" where
  "plainVar e \<longleftrightarrow> te_operator e = [] \<and> \<not> te_exploded e
     \<and> (case te_name e of None \<Rightarrow> False | Some n \<Rightarrow> te_names e = [n] \<and> CHR ''*'' \<notin> set n)"

fun delimited :: "part list \<Rightarrow> bool" where
  "delimited [] = True"
| "delimited (Text t # ps) = delimited ps"
| "delimited [Expr e] = plainVar e"
| "delimited (Expr e # Text t # ps) = (plainVar e \<and> startsWith t ''/'' \<and> delimited ps)"
| "delimited (Expr e # Expr e' # ps) = False"

lemma uriHex_digit: "uriHex n \<in> set ''0123456789ABCDEF''"
  unfolding uriHex_def by (rule nth_mem) simp

lemma percent_segment: "list_all segmentChar (percent b)"
proof -
  have "list_all segmentChar ''0123456789ABCDEF''" "segmentChar (CHR ''%'')" by code_simp+
  moreover from this have "segmentChar (uriHex n)" for n
    using uriHex_digit [of n] unfolding list_all_iff by blast
  ultimately show ?thesis by (simp add: percent_def)
qed

lemma encoded_segment: "list_all segmentChar (encodeURIComponent v)"
proof -
  have "\<not> unreservedChar (CHR ''/'')" "\<not> unreservedChar (CHR '','')" by code_simp+
  then have "unreservedChar c \<Longrightarrow> segmentChar c" for c
    by (auto simp: segmentChar_def)
  then show ?thesis
    by (induction v) (auto simp: encodeURIComponent_def encodeWith_def percent_segment)
qed

lemma uri_encoded_nonempty: "v \<noteq> [] \<Longrightarrow> encodeURIComponent v \<noteq> []"
  by (cases v) (auto simp: encodeURIComponent_def encodeWith_def percent_def)

text \<open>The longest capture of a segment ends where the slash is.\<close>

lemma longest_segment:
  assumes "admits Segment c" and "t = [] \<or> hd t = CHR ''/''"
  shows "\<exists>ns. captureLengths Segment (c @ t) = length c # ns"
proof -
  let ?ok = "\<lambda>n. admits Segment (take n (c @ t))"
  have "\<not> ?ok n" if n: "length c < n" "n \<le> length (c @ t)" for n
  proof -
    obtain x xs where t: "t = x # xs" using n by (cases t) auto
    obtain k where "n = Suc (length c + k)" using n(1) less_iff_Suc_add by auto
    then have "take n (c @ t) = c @ x # take k xs" using t by simp
    then show ?thesis using assms(2) t by (simp add: admits_def segmentChar_def)
  qed
  then have "\<not> ?ok n" if "n \<in> set [Suc (length c)..<Suc (length (c @ t))]" for n
    using that by (simp only: set_upt atLeastLessThan_iff Suc_le_eq less_Suc_eq_le simp_thms)
  then have none: "filter ?ok [Suc (length c)..<Suc (length (c @ t))] = []"
    by (intro filter_False ballI)
  have "[0..<Suc (length (c @ t))] = [0..<length c] @ length c # [Suc (length c)..<Suc (length (c @ t))]"
    using upt_add_eq_append [of 0 "length c" "Suc (length t)"] upt_conv_Cons [of "length c" "length c + Suc (length t)"]
    by (simp del: upt_Suc)
  then have "rev [0..<Suc (length (c @ t))] = rev [Suc (length c)..<Suc (length (c @ t))] @ length c # rev [0..<length c]"
    by simp
  then have "captureLengths Segment (c @ t) = length c # filter ?ok (rev [0..<length c])"
    using none assms(1) unfolding captureLengths_def by (simp only: filter_append filter.simps rev_filter [symmetric] rev.simps
        take_append append_Nil append_take_drop_id if_True) simp
  then show ?thesis by blast
qed

definition plainValue :: "variables \<Rightarrow> string \<Rightarrow> string" where
  "plainValue vars n = (case map_of vars n of Some (One v) \<Rightarrow> v | _ \<Rightarrow> [])"

definition assigned :: "variables \<Rightarrow> string \<Rightarrow> bool" where
  "assigned vars n \<longleftrightarrow> (\<exists>v. map_of vars n = Some (One v) \<and> v \<noteq> [] \<and> int (length v) \<le> MAX_VARIABLE_LENGTH)"

lemma expand_plainVar:
  assumes "plainVar e" and "te_name e = Some n" and "assigned vars n"
  shows "expandPart e vars = Inr (encodeURIComponent (plainValue vars n))"
  using assms
  by (auto simp: expandPart_def plainVar_def assigned_def plainValue_def encodeValue_def validateLength_def)

lemma variableNames_simps [simp]:
  "variableNames [] = []" "variableNames (Text t # ps) = variableNames ps"
  "variableNames (Expr e # ps) = te_names e @ variableNames ps"
  by (simp_all add: variableNames_def)

lemma delimited_expands:
  assumes "delimited ps" and "\<forall>n \<in> set (variableNames ps). assigned vars n"
  shows "\<exists>uri. expandParts vars ps q = Inr uri
    \<and> matchSegs (segsOf ps) uri = Some (map (\<lambda>n. encodeURIComponent (plainValue vars n)) (variableNames ps))
    \<and> (\<forall>t ps'. ps = Text t # ps' \<longrightarrow> (\<exists>u. uri = t @ u))"
  using assms
proof (induction ps arbitrary: q rule: delimited.induct)
  case (2 t ps)
  then obtain uri where "expandParts vars ps q = Inr uri"
    "matchSegs (segsOf ps) uri = Some (map (\<lambda>n. encodeURIComponent (plainValue vars n)) (variableNames ps))"
    by fastforce
  then show ?case by (auto simp: segsOf_def)
next
  case (3 e)
  then obtain n where n: "te_name e = Some n" "te_names e = [n]" by (auto simp: plainVar_def split: option.splits)
  with 3 have a: "assigned vars n" by simp
  let ?c = "encodeURIComponent (plainValue vars n)"
  have ne: "?c \<noteq> []" using a by (auto simp: assigned_def plainValue_def dest: uri_encoded_nonempty)
  have ad: "admits Segment ?c" using ne encoded_segment by (simp add: admits_def)
  have q: "isQuery e = False" using 3 by (simp add: plainVar_def isQuery_def)
  have s: "segsOf [Expr e] = [Grp Segment (Some n) False]"
    using 3 n by (simp add: segsOf_def partSegs_def plainVar_def isQuery_def)
  from longest_segment [OF ad, of "[]"] have m: "matchSegs (segsOf [Expr e]) ?c = Some [?c]"
    by (auto simp: s)
  show ?case
    using expand_plainVar [of e n vars] 3 n a m ne q by simp
next
  case (4 e t ps)
  then obtain n where n: "te_name e = Some n" "te_names e = [n]" by (auto simp: plainVar_def split: option.splits)
  with 4 have a: "assigned vars n" by simp
  let ?c = "encodeURIComponent (plainValue vars n)"
  have ne: "?c \<noteq> []" using a by (auto simp: assigned_def plainValue_def dest: uri_encoded_nonempty)
  have ad: "admits Segment ?c" using ne encoded_segment by (simp add: admits_def)
  have s: "segsOf (Expr e # Text t # ps) = Grp Segment (Some n) False # segsOf (Text t # ps)"
    using 4 n by (simp add: segsOf_def partSegs_def plainVar_def isQuery_def)
  have q: "isQuery e = False" using 4 by (simp add: plainVar_def isQuery_def)
  obtain u where u: "expandParts vars ps q = Inr u"
    "matchSegs (segsOf ps) u = Some (map (\<lambda>n. encodeURIComponent (plainValue vars n)) (variableNames ps))"
    using 4 n by fastforce
  have hd: "t @ u = [] \<or> hd (t @ u) = CHR ''/''"
    using 4 by (cases t) (auto simp: startsWith_def)
  have "matchSegs (segsOf (Text t # ps)) (t @ u) = matchSegs (segsOf ps) u"
    by (simp add: segsOf_def)
  then have m: "matchSegs (segsOf (Expr e # Text t # ps)) (?c @ t @ u)
      = Some (?c # map (\<lambda>n. encodeURIComponent (plainValue vars n)) (variableNames ps))"
    using longest_segment [OF ad hd] u by (auto simp: s)
  show ?case
    using expand_plainVar [of e n vars] 4 n a m ne u q by simp
qed (simp_all add: segsOf_def)

lemma update_new: "k \<notin> fst ` set xs \<Longrightarrow> AList.update k v xs = xs @ [(k, v)]"
  by (induction xs) auto

lemma dropStar_id: "CHR ''*'' \<notin> set n \<Longrightarrow> dropStar n = n"
  by (induction n) auto

lemma assignAll_plain:
  assumes "distinct (map fst acc @ ns)" and "\<forall>n \<in> set ns. CHR ''*'' \<notin> set n"
  shows "assignAll (map (\<lambda>n. (Some n, False)) ns) (map f ns) acc = Inr (acc @ map (\<lambda>n. (n, One (f n))) ns)"
  using assms
proof (induction ns arbitrary: acc)
  case (Cons n ns)
  then show ?case by (simp add: dropStar_id update_new)
qed simp

lemma groups_plain:
  "delimited ps \<Longrightarrow> groupsOf (segsOf ps) = map (\<lambda>n. (Some n, False)) (variableNames ps)
     \<and> (\<forall>n \<in> set (variableNames ps). CHR ''*'' \<notin> set n)"
  by (induction ps rule: delimited.induct)
    (auto simp: segsOf_def plainVar_def partSegs_def isQuery_def Let_def split: option.splits)

text \<open>
  Expanding a template of slash-delimited variables and matching the result gives every
  variable back, percent-encoded as it stands in the text, in template order; only the
  length limits can keep it from doing so.
\<close>

theorem expand_then_match:
  assumes "delimited parts" and "distinct (variableNames parts)"
    and "\<forall>n \<in> set (variableNames parts). assigned vars n"
  shows "\<exists>uri. expand parts vars = Inr uri
    \<and> (int (length uri) \<le> MAX_TEMPLATE_LENGTH \<and> int (length (patternText parts)) \<le> MAX_REGEX_LENGTH \<longrightarrow>
        matchUri parts uri
          = Inr (Some (map (\<lambda>n. (n, One (encodeURIComponent (plainValue vars n)))) (variableNames parts))))"
proof -
  obtain uri where e: "expandParts vars parts False = Inr uri"
    and m: "matchSegs (segsOf parts) uri = Some (map (\<lambda>n. encodeURIComponent (plainValue vars n)) (variableNames parts))"
    using delimited_expands [OF assms(1,3)] by blast
  show ?thesis
    using groups_plain [OF assms(1)] assms(2) m
    by (intro exI [of _ uri] conjI impI)
      (simp_all add: expand_def e matchUri_def validateLength_def assignAll_plain)
qed

definition demoParts :: "part list" where
  "demoParts = projr (parseTemplate ''/users/{id}/files/{name}'')"

definition demoVars :: variables where
  "demoVars = [(''id'', One ''7''), (''name'', One ''a b'')]"

lemma demoParts: "demoParts = [Text ''/users/'', Expr (exprOf ''id''), Text ''/files/'', Expr (exprOf ''name'')]"
  by code_simp

theorem expand_then_match_witness:
  "\<exists>uri. expand demoParts demoVars = Inr uri
    \<and> (int (length uri) \<le> MAX_TEMPLATE_LENGTH \<and> int (length (patternText demoParts)) \<le> MAX_REGEX_LENGTH \<longrightarrow>
        matchUri demoParts uri = Inr (Some [(''id'', One ''7''), (''name'', One ''a%20b'')]))"
proof -
  have d: "delimited demoParts" "distinct (variableNames demoParts)" by code_simp+
  have names: "variableNames demoParts = [''id'', ''name'']" by code_simp
  have enc: "encodeURIComponent (plainValue demoVars ''id'') = ''7''"
    "encodeURIComponent (plainValue demoVars ''name'') = ''a%20b''" by code_simp+
  have a: "\<forall>n \<in> set (variableNames demoParts). assigned demoVars n"
    by (simp add: names assigned_def demoVars_def MAX_VARIABLE_LENGTH_def)
  show ?thesis
    using expand_then_match [OF d a] by (simp add: names enc)
qed

subsection \<open>Where the two directions part\<close>

text \<open>
  A fragment expression expands with its \<open>#\<close>, but its pattern has no \<open>#\<close>: what it captures
  starts with one. Several names in one expression expand without being encoded, and its
  pattern captures one value only, under the first name.
\<close>

lemma hash_is_captured:
  "expand [Expr (exprOf ''#x'')] [(''x'', One ''v'')] = Inr ''#v''
   \<and> matchUri [Expr (exprOf ''#x'')] ''#v'' = Inr (Some [(''x'', One ''#v'')])"
  by code_simp

lemma several_names_unencoded:
  "expand [Expr (exprOf ''x,y'')] [(''x'', One ''a b''), (''y'', One ''/'')] = Inr ''a b,/''
   \<and> matchUri [Expr (exprOf ''x,y'')] ''1,2'' = Inr None
   \<and> matchUri [Expr (exprOf ''x,y'')] ''1'' = Inr (Some [(''x'', One ''1'')])"
  by code_simp

lemma nameless_expression_throws:
  "parseTemplate ''a/{}'' = Inr [Text ''a/'', Expr (exprOf [])]
   \<and> matchUri [Text ''a/'', Expr (exprOf [])] ''a/b'' = Inl (TypeErr ''Cannot read properties of undefined (reading 'replace')'')"
  by code_simp

end
