(* ===== verification/Spec2Isabelle.thy ===== *)
theory Spec2Isabelle
  imports ProtocolTasks InboundClassification McpParamValues ClientConnect Subscriptions SealedState UriTemplate
begin

text \<open>
  A verification development for the MCP TypeScript SDK.

  The program. The SDK implements the Model Context Protocol, JSON-RPC messages between a
  client and a server over exchangeable transports. Two wire eras coexist: the legacy one
  (revisions up to 2025-11-25, negotiated by \<open>initialize\<close>, one long-lived connection) and the
  modern one (2026-07-28, no handshake: every request carries a \<open>_meta\<close> envelope naming its
  version). The core that both roles share is packages/core-internal/src: a \<open>Protocol\<close> base
  class that links requests and responses over a transport, a codec per era between the
  neutral shapes handlers see and the wire, an inbound classifier that tells the eras apart at
  an HTTP entry, the codec of the \<open>Mcp-Param-*\<close> headers, and the driver of multi-round-trip
  requests. These are what is modelled here, as HOL functions on JavaScript values; paths
  below are relative to packages/core-internal/src.

  The theories, from the bottom.

    Prelude, Js. Strings, lists, and JavaScript values: objects as association lists in
    enumeration order, with property read, \<open>in\<close>, spread, \<open>delete\<close>.

    Errors (types/errors.ts, types/enums.ts, errors/sdkErrors.ts). Error classes as values, so
    that every throw and rejection of the code is an \<open>Inl\<close> or a field of an outcome.

    Eras (shared/protocolEras.ts, wire/codec.ts, wire/bootstrap.ts, the two registry.ts).
    Versions, eras and the method registries of each era as key sets.

    Guards (types/guards.ts over core/src/schemas.ts). What counts as a JSON-RPC request,
    notification, result response and error response; the four are mutually exclusive.

    HeaderCodec, McpParamHeaders, McpParamValues (shared/mcpParamHeaders.ts). The Base64
    sentinel encoding of header values over UTF-16 code units, UTF-8 and Base64; the scan of a
    tool's input schema for \<open>x-mcp-header\<close> annotations; the client's header building and the
    server's validation, with numbers compared as the IEEE doubles they denote. Shown: the
    round trip and its one exception (a leading byte order mark), legality of every encoded
    value as an HTTP field, soundness and completeness of the scan, exactness of the
    validation, and that a server accepts what a client builds. The locale \<open>field_codec\<close> states
    what the headers need of a value encoding and is interpreted on the code's codec.

    Ladder, InboundClassification (shared/inboundClassification.ts, shared/envelope.ts, and
    \<open>_applyBodyDerivedHeaders\<close> of packages/client/src/client/streamableHttp.ts). The validation
    ladder as data with its rungs in a linear order, the body-primary classifier, the
    standard-header validation and the strict mapping. Shown: what each route guarantees,
    that headers can reject but never reroute, that every rejection is one the table
    declares, and that the headers a client derives from its own body are accepted.

    ClientCapabilities (shared/clientCapabilityRequirements.ts). The missing-capability report
    is exact.

    WireCodec, LegacyCodec (wire/rev2026-07-28, wire/rev2025-11-25, shared/resultCacheHints.ts,
    wire/textFallback.ts, validators/dialects.ts). Encoding and decoding of results in both
    eras. Shown: what crosses the wire, idempotence, the round trip, and that wrapping an
    output schema for legacy clients keeps its same-document references. The locale
    \<open>wire_codec\<close> states the contract of a codec and is interpreted on both.

    InputRequiredDriver (shared/inputRequiredDriver.ts, shared/inputRequiredEngine.ts). The
    loop that fulfils the input requests embedded in a result and retries. Its recursion is
    on \<open>maxRounds\<close> minus the round, which is how the code bounds it, so there is no fuel.
    Shown: the bound, the order of rounds, the shrinking budget, the verbatim state echo.

    Lift (shared/protocol.ts). The pure parts of the protocol class.

    ProtocolOutbound, ProtocolInbound (shared/protocol.ts). The state of an instance as a
    record (the maps of the class in insertion order; a pending request as a record of its
    promise and closure; an inbound request as a task) and one function per operation or
    event, which returns the new state and the effects: messages sent, callbacks made,
    errors reported. Clock readings, schema verdicts and handler outcomes are arguments.

    ProtocolInvariant, ProtocolProperties, ProtocolLifecycle, ProtocolTasks. The instance as a
    transition system \<open>pstep\<close> with one rule per event of the event loop, its reachable states,
    and the invariant that ties the maps to the waiting requests. Shown from it: no request
    is stranded, records only move forward, closing settles everything, a response settles
    exactly its request, cancellation reaches the wire only while it may, timers, progress
    and the total cap, at most one answer per inbound request and none after a cancellation,
    the precedence of the dispatch gates, coalescing of debounced notifications.

    Json. \<open>JSON.parse\<close> and \<open>JSON.stringify\<close> of the language, on texts. The parser runs with
    fuel 2 * length + 2, which is shown to be enough; parsing inverts printing.

    ResponseCache, ClientCache, CachedVerbs (client/responseCache.ts and the cached verbs of
    client/client.ts, in packages/client/src). The in-memory store with its cap, the
    collaborator that partitions, writes, reads and evicts, a system of several clients on one
    store whose deferred store calls interleave, the paginated walk of the list verbs, freshness
    and invalidation. Shown: the store implements a map and stays bounded, a shared store
    isolates servers and principals, an eviction suppresses a write in flight, the tool index
    is never stale, the walk ends and collects every page, a server cannot pin a result. The
    locale \<open>response_store\<close> states what a store promises; its interpretation is the in-memory one.

    ProbeClassifier, VersionNegotiation, ClientConnect (client/probeClassifier.ts,
    client/versionNegotiation.ts and the connect paths of client/client.ts). The probe window on
    the raw transport, the classifier, the probe loop, the handshake, cached verdicts and
    resumption. The environment of a negotiation is one list of window events for each
    exchange. Shown: the loop ends within its budget, a modern verdict needs a mutual version,
    a fallback needs legacy evidence, \<open>initialize\<close> never carries a modern version, the version
    a connect settles on is the one pushed to the transport, a failed connect leaves nothing.

    Subscriptions (server/listenRouter.ts, server/serverEventBus.ts, server/sseKeepAlive.ts and
    the listen routing of server/serveStdio.ts, in packages/server/src). Subscription streams
    over HTTP and stdio. Shown: a stream carries exactly what its specification says, accepted
    events are delivered, only requested types are, open streams are bounded, a cancelled
    subscription is silent, both transports deliver alike.

    StdioBuffer (shared/stdio.ts and the data handlers of the two stdio transports). Framing of
    messages on a pipe. Shown: chunking is irrelevant, the buffer is bounded, the round trip.
    The locale \<open>text_codec\<close> states what is needed of the encoding and is interpreted on UTF-8.

    RequestStateCodec (packages/server/src/server/requestStateCodec.ts). The signed request
    state. Shown: the round trip until expiry, and that only minted states are accepted.

  Parameters. Code that is not part of the repository's own logic enters as arguments: the zod
  schemas (as the verdicts the code uses), HMAC, the reading of number literals (\<open>num\<close>), the
  rounding of fractional numbers, the handlers and callbacks (as the outcomes they settle to),
  the clock, and the order in which concurrent dispatches settle.

  Abstractions. Promise reactions run to completion before the next event, so the \<open>finally\<close>
  block of a request is part of settling it. Strings of messages are code units below 256,
  header values full UTF-16. Property reads that would reach \<open>Object.prototype\<close> are not
  represented. Sends do not fail synchronously: a failure is the event \<open>sendFailed\<close>. Reads of
  a cache store are atomic; its writes and deletions may be deferred.

  Not modelled: the HTTP entries and their transports, generated types and schema tables, the
  authorization flows, third-party validators, framework adapters, the codemod, examples.
  Next in the plan, in this order: tool calls and listen handles of the client; the legacy
  input-required shim, the per-request transport and the HTTP handler of the server; URI
  templates, tool names and media types.
\<close>

end
